(* ===== verification/Go_Prelude.thy ===== *)
theory Go_Prelude
  imports Main "HOL-Library.Word" "HOL-Library.AList" "HOL-Library.List_Lexorder" "HOL-Library.Multiset"
begin

text \<open>
  What the component theories share: bytes and machine words, results of fallible Go calls
  (\<open>'e + 'a\<close>, \<open>Inl\<close> for a returned error), Go maps and sets as association lists and
  duplicate-free lists, the draws of a \<open>math/rand\<close> source, the order in which the runtime
  ranges over a map, and the generic interface of an IO-less state machine
  (\<open>Handle(ev) []out\<close>), whose invariants are lifted from one step to whole runs once and
  for all in the locale \<open>io_machine\<close>.
\<close>

unbundle bit_operations_syntax

type_synonym byte = "8 word"
type_synonym bytes = "byte list"
type_synonym u16 = "16 word"
type_synonym u32 = "32 word"
type_synonym u64 = "64 word"

named_theorems codec_simps \<open>equations that evaluate encoders and decoders\<close>
named_theorems res_simps \<open>equations of the result type\<close>

section \<open>Results\<close>

text \<open>Sequencing of fallible calls: \<open>x, err := m; if err != nil { return err }; f(x)\<close>.\<close>

definition rbind :: "'e + 'a \<Rightarrow> ('a \<Rightarrow> 'e + 'b) \<Rightarrow> 'e + 'b" where
  "rbind m f = (case m of Inl e \<Rightarrow> Inl e | Inr x \<Rightarrow> f x)"

lemma rbind_Inl [simp, res_simps]: "rbind (Inl e) f = Inl e"
  by (simp add: rbind_def)

lemma rbind_Inr [simp, res_simps]: "rbind (Inr x) f = f x"
  by (simp add: rbind_def)

lemma rbind_eq_Inr [res_simps]: "rbind m f = Inr y \<longleftrightarrow> (\<exists>x. m = Inr x \<and> f x = Inr y)"
  by (cases m) auto

lemma rbind_eq_Inl: "rbind m f = Inl e \<longleftrightarrow> m = Inl e \<or> (\<exists>x. m = Inr x \<and> f x = Inl e)"
  by (cases m) auto

lemma rbind_assoc: "rbind (rbind m f) g = rbind m (\<lambda>x. rbind (f x) g)"
  by (cases m) auto

lemma rbind_cong [fundef_cong]:
  "m = m' \<Longrightarrow> (\<And>x. m' = Inr x \<Longrightarrow> f x = f' x) \<Longrightarrow> rbind m f = rbind m' f'"
  by (cases m') auto

section \<open>Big-endian fields\<close>

lemma bit_byte_high [simp]: "8 \<le> n \<Longrightarrow> \<not> bit (b :: byte) n"
  using bit_imp_le_length [of b n] by auto

lemma ucast_ucast_byte [simp]: "ucast (ucast b :: u64) = b" for b :: byte
  by (rule bit_word_eqI) (simp add: bit_simps)

text \<open>\<open>binary.BigEndian\<close> on 16- and 32-bit fields.\<close>

definition be16 :: "u16 \<Rightarrow> bytes" where
  "be16 v = [ucast (drop_bit 8 v), ucast v]"

definition be32 :: "u32 \<Rightarrow> bytes" where
  "be32 v = [ucast (drop_bit 24 v), ucast (drop_bit 16 v), ucast (drop_bit 8 v), ucast v]"

definition of_be16 :: "byte \<Rightarrow> byte \<Rightarrow> u16" where
  "of_be16 a b = push_bit 8 (ucast a) OR ucast b"

definition of_be32 :: "byte \<Rightarrow> byte \<Rightarrow> byte \<Rightarrow> byte \<Rightarrow> u32" where
  "of_be32 a b c d =
     push_bit 24 (ucast a) OR push_bit 16 (ucast b) OR push_bit 8 (ucast c) OR ucast d"

lemma length_be16 [simp]: "length (be16 v) = 2"
  by (simp add: be16_def)

lemma length_be32 [simp]: "length (be32 v) = 4"
  by (simp add: be32_def)

lemma of_be16_be16 [simp]: "of_be16 (ucast (drop_bit 8 v)) (ucast v) = v"
  unfolding of_be16_def by (rule bit_word_eqI) (auto simp: bit_simps)

lemma of_be32_be32 [simp]:
  "of_be32 (ucast (drop_bit 24 v)) (ucast (drop_bit 16 v)) (ucast (drop_bit 8 v)) (ucast v) = v"
  unfolding of_be32_def
proof (rule bit_word_eqI)
  fix n :: nat
  assume "n < LENGTH(32)"
  then consider "n < 8" | "8 \<le> n" "n < 16" | "16 \<le> n" "n < 24" | "24 \<le> n" "n < 32"
    by fastforce
  then show "bit (push_bit 24 (ucast (ucast (drop_bit 24 v) :: byte)) OR
      push_bit 16 (ucast (ucast (drop_bit 16 v) :: byte)) OR
      push_bit 8 (ucast (ucast (drop_bit 8 v) :: byte)) OR ucast (ucast v :: byte) :: u32) n \<longleftrightarrow> bit v n"
    by cases (auto simp: bit_simps)
qed

lemma be16_of_be16 [simp]: "be16 (of_be16 a b) = [a, b]"
  unfolding of_be16_def be16_def
  by (auto intro!: bit_word_eqI simp: bit_simps)

lemma be32_of_be32 [simp]: "be32 (of_be32 a b c d) = [a, b, c, d]"
  unfolding of_be32_def be32_def
  by (auto intro!: bit_word_eqI simp: bit_simps)

section \<open>Go maps and sets\<close>

text \<open>
  A \<open>map[K]V\<close> is an association list with one entry per key: \<open>map_of m k\<close> is
  \<open>v, ok := m[k]\<close>, \<open>mput\<close> is \<open>m[k] = v\<close>, \<open>mdel\<close> is \<open>delete(m, k)\<close>,
  \<open>length m\<close> is \<open>len(m)\<close>.  A \<open>map[K]struct{}\<close> used as a set is the duplicate-free
  list of its keys.  The position of a key in the list is not observable in Go; where the code
  ranges over a map and the order shows, the model permutes the list by \<open>range_order\<close> below.
\<close>

type_synonym ('k, 'v) gomap = "('k \<times> 'v) list"

abbreviation mput :: "'k \<Rightarrow> 'v \<Rightarrow> ('k, 'v) gomap \<Rightarrow> ('k, 'v) gomap" where
  "mput k v m \<equiv> AList.update k v m"

abbreviation mdel :: "'k \<Rightarrow> ('k, 'v) gomap \<Rightarrow> ('k, 'v) gomap" where
  "mdel k m \<equiv> AList.delete k m"

definition mfilter :: "('k \<Rightarrow> 'v \<Rightarrow> bool) \<Rightarrow> ('k, 'v) gomap \<Rightarrow> ('k, 'v) gomap" where
  "mfilter P m = filter (\<lambda>(k, v). P k v) m"

definition mkeys :: "('k, 'v) gomap \<Rightarrow> 'k list" where
  "mkeys m = map fst m"

definition mwf :: "('k, 'v) gomap \<Rightarrow> bool" where
  "mwf m \<longleftrightarrow> distinct (map fst m)"

definition sadd :: "'a \<Rightarrow> 'a list \<Rightarrow> 'a list" where
  "sadd x xs = (if x \<in> set xs then xs else xs @ [x])"

abbreviation sdel :: "'a \<Rightarrow> 'a list \<Rightarrow> 'a list" where
  "sdel x xs \<equiv> removeAll x xs"

lemma mwf_Nil [simp]: "mwf []"
  by (simp add: mwf_def)

lemma mwf_mput [simp]: "mwf m \<Longrightarrow> mwf (mput k v m)"
  by (simp add: mwf_def distinct_update)

lemma mwf_mdel [simp]: "mwf m \<Longrightarrow> mwf (mdel k m)"
  by (simp add: mwf_def distinct_delete)

lemma mwf_mfilter [simp]: "mwf m \<Longrightarrow> mwf (mfilter P m)"
  by (simp add: mwf_def mfilter_def distinct_map_filter)

lemma mget_mput: "map_of (mput k v m) k' = (if k' = k then Some v else map_of m k')"
  by (simp add: update_conv')

lemma mget_mdel: "map_of (mdel k m) k' = (if k' = k then None else map_of m k')"
  by (simp add: delete_conv')

lemma mget_mfilter:
  "mwf m \<Longrightarrow> map_of (mfilter P m) k = (case map_of m k of Some v \<Rightarrow> if P k v then Some v else None | None \<Rightarrow> None)"
  unfolding mwf_def mfilter_def by (induction m) (auto split: option.splits simp: rev_image_eqI)

lemma set_sadd [simp]: "set (sadd x xs) = insert x (set xs)"
  by (auto simp: sadd_def)

lemma distinct_sadd [simp]: "distinct (sadd x xs) \<longleftrightarrow> distinct xs"
  by (auto simp: sadd_def)

lemma distinct_sdel [simp]: "distinct xs \<Longrightarrow> distinct (sdel x xs)"
  by (rule distinct_removeAll)

lemma Suc_length_remove1: "x \<in> set xs \<Longrightarrow> Suc (length (remove1 x xs)) = length xs"
  by (induction xs) auto

lemma length_sadd_le: "length (sadd x xs) \<le> Suc (length xs)"
  by (auto simp: sadd_def)

lemma length_sadd: "length (sadd x xs) = (if x \<in> set xs then length xs else Suc (length xs))"
  by (auto simp: sadd_def)

text \<open>The contract the components use of a map, and its instance.\<close>

locale go_map =
  fixes get :: "'m \<Rightarrow> 'k \<Rightarrow> 'v option"
    and put :: "'k \<Rightarrow> 'v \<Rightarrow> 'm \<Rightarrow> 'm"
    and del :: "'k \<Rightarrow> 'm \<Rightarrow> 'm"
    and keys :: "'m \<Rightarrow> 'k list"
    and wf :: "'m \<Rightarrow> bool"
  assumes get_put: "get (put k v m) k' = (if k' = k then Some v else get m k')"
    and get_del: "get (del k m) k' = (if k' = k then None else get m k')"
    and keys_get: "k \<in> set (keys m) \<longleftrightarrow> get m k \<noteq> None"
    and keys_distinct: "wf m \<Longrightarrow> distinct (keys m)"
    and wf_put: "wf m \<Longrightarrow> wf (put k v m)"
    and wf_del: "wf m \<Longrightarrow> wf (del k m)"
begin

lemma keys_put: "set (keys (put k v m)) = insert k (set (keys m))"
  by (auto simp: keys_get get_put split: if_splits)

lemma keys_del: "set (keys (del k m)) = set (keys m) - {k}"
  by (auto simp: keys_get get_del split: if_splits)

lemma len_put:
  "wf m \<Longrightarrow> length (keys (put k v m)) = (if k \<in> set (keys m) then length (keys m) else Suc (length (keys m)))"
  by (auto simp: keys_distinct wf_put keys_put card_insert_if simp flip: distinct_card)

lemma len_del: "wf m \<Longrightarrow> length (keys (del k m)) \<le> length (keys m)"
  by (auto simp: keys_distinct wf_del keys_del intro: card_mono simp flip: distinct_card)

end

interpretation amap: go_map map_of AList.update AList.delete mkeys mwf
proof unfold_locales
  show "distinct (mkeys m)" if "mwf m" for m :: "('a \<times> 'b) list"
    using that by (simp add: mwf_def mkeys_def)
qed (auto simp: mget_mput mget_mdel mkeys_def map_of_eq_None_iff)

lemma length_mkeys [simp]: "length (mkeys m) = length m"
  by (simp add: mkeys_def)

section \<open>Random draws and iteration order\<close>

text \<open>
  A \<open>*rand.Rand\<close> is the list of the numbers it will still draw, zero after the last one.
  Every theorem quantifies over that list, hence over every sequence of draws.
  \<open>Intn(n)\<close> reduces a draw below \<open>n\<close>; \<open>Shuffle\<close> is the library's Fisher--Yates loop,
  from the last index down, swapping with an index drawn at most as large.
\<close>

type_synonym rand = "nat list"

definition intn :: "rand \<Rightarrow> nat \<Rightarrow> nat \<times> rand" where
  "intn r n = (case r of [] \<Rightarrow> (0, []) | x # r' \<Rightarrow> (x mod n, r'))"

definition list_swap :: "'a list \<Rightarrow> nat \<Rightarrow> nat \<Rightarrow> 'a list" where
  "list_swap xs i j = xs[i := xs ! j, j := xs ! i]"

fun shuffle_from :: "nat \<Rightarrow> rand \<Rightarrow> 'a list \<Rightarrow> 'a list \<times> rand" where
  "shuffle_from 0 r xs = (xs, r)"
| "shuffle_from (Suc i) r xs =
     (let (j, r') = intn r (i + 2) in shuffle_from i r' (list_swap xs (Suc i) j))"

definition shuffle :: "rand \<Rightarrow> 'a list \<Rightarrow> 'a list \<times> rand" where
  "shuffle r xs = shuffle_from (length xs - 1) r xs"

text \<open>The order in which one \<open>for k := range m\<close> visits the keys: a permutation the runtime picks.\<close>

definition range_order :: "rand \<Rightarrow> 'a list \<Rightarrow> 'a list \<times> rand" where
  "range_order r xs = shuffle r xs"

lemma intn_less: "0 < n \<Longrightarrow> fst (intn r n) < n"
  by (cases r) (auto simp: intn_def)

lemma mset_list_swap: "i < length xs \<Longrightarrow> j < length xs \<Longrightarrow> mset (list_swap xs i j) = mset xs"
  unfolding list_swap_def by (rule mset_swap)

lemma length_list_swap [simp]: "length (list_swap xs i j) = length xs"
  by (simp add: list_swap_def)

lemma mset_shuffle_from: "i < length xs \<or> i = 0 \<Longrightarrow> mset (fst (shuffle_from i r xs)) = mset xs"
proof (induction i r xs rule: shuffle_from.induct)
  case (2 i r xs)
  obtain j r' where jr: "intn r (i + 2) = (j, r')" by (cases "intn r (i + 2)")
  with intn_less [of "i + 2" r] have "j < i + 2" by simp
  with 2 jr show ?case by (simp add: mset_list_swap)
qed simp

lemma mset_shuffle [simp]: "mset (fst (shuffle r xs)) = mset xs"
  by (auto simp: shuffle_def intro: mset_shuffle_from)

lemma set_shuffle [simp]: "set (fst (shuffle r xs)) = set xs"
  by (metis mset_shuffle set_mset_mset)

lemma length_shuffle [simp]: "length (fst (shuffle r xs)) = length xs"
  by (metis mset_shuffle size_mset)

lemma distinct_shuffle [simp]: "distinct (fst (shuffle r xs)) \<longleftrightarrow> distinct xs"
  by (metis mset_eq_imp_distinct_iff mset_shuffle)

lemma mset_range_order [simp]: "mset (fst (range_order r xs)) = mset xs"
  and set_range_order [simp]: "set (fst (range_order r xs)) = set xs"
  and length_range_order [simp]: "length (fst (range_order r xs)) = length xs"
  and distinct_range_order [simp]: "distinct (fst (range_order r xs)) \<longleftrightarrow> distinct xs"
  by (simp_all add: range_order_def)

section \<open>Time\<close>

text \<open>
  A \<open>time.Duration\<close> is a count of nanoseconds, a \<open>time.Time\<close> a count of nanoseconds
  since the zero time.
\<close>

type_synonym duration = int
type_synonym gotime = int

definition nanosecond :: duration where "nanosecond = 1"
definition millisecond :: duration where "millisecond = 1000000"
definition second :: duration where "second = 1000 * millisecond"
definition minute :: duration where "minute = 60 * second"

section \<open>IO-less state machines\<close>

text \<open>
  The protocol layers share one shape: \<open>Handle(ev)\<close> updates the state and returns the
  outputs.  \<open>run_machine\<close> feeds it a list of events; \<open>reachable_by\<close> is the set of states
  it can get to.
\<close>

fun run_machine :: "('s \<Rightarrow> 'e \<Rightarrow> 's \<times> 'o list) \<Rightarrow> 's \<Rightarrow> 'e list \<Rightarrow> 's \<times> 'o list" where
  "run_machine step s [] = (s, [])"
| "run_machine step s (e # es) =
     (let (s', out) = step s e; (s'', out') = run_machine step s' es in (s'', out @ out'))"

inductive reachable_by :: "('s \<Rightarrow> 'e \<Rightarrow> 's \<times> 'o list) \<Rightarrow> 's \<Rightarrow> 's \<Rightarrow> bool" for step init where
  start: "reachable_by step init init"
| step: "reachable_by step init s \<Longrightarrow> step s e = (s', out) \<Longrightarrow> reachable_by step init s'"

lemma run_machine_reachable:
  "reachable_by step init s \<Longrightarrow> reachable_by step init (fst (run_machine step s es))"
proof (induction es arbitrary: s)
  case (Cons e es)
  obtain s' out where st: "step s e = (s', out)" by (cases "step s e")
  with Cons.prems have "reachable_by step init s'" by (rule reachable_by.step)
  then have "reachable_by step init (fst (run_machine step s' es))" by (rule Cons.IH)
  with st show ?case by (auto split: prod.splits)
qed simp

lemma run_machine_append:
  "run_machine step s (es @ fs) =
     (let (s', out) = run_machine step s es; (s'', out') = run_machine step s' fs in (s'', out @ out'))"
  by (induction es arbitrary: s) (auto split: prod.splits)

locale io_machine =
  fixes step :: "'s \<Rightarrow> 'e \<Rightarrow> 's \<times> 'o list"
    and inv :: "'s \<Rightarrow> bool"
  assumes step_inv: "inv s \<Longrightarrow> step s e = (s', out) \<Longrightarrow> inv s'"
begin

lemma reachable_inv: "reachable_by step init s \<Longrightarrow> inv init \<Longrightarrow> inv s"
  by (induction rule: reachable_by.induct) (auto intro: step_inv)

lemma run_inv: "inv s \<Longrightarrow> inv (fst (run_machine step s es))"
  using reachable_inv [OF run_machine_reachable [OF reachable_by.start]] .

end

end
