(* ===== verification/Postcard.thy ===== *)
theory Postcard
  imports Go_Prelude
begin

text \<open>
  \<open>internal/postcard/postcard.go\<close>: the Rust postcard wire format.  The encoder's buffer is
  the list of bytes appended so far, the decoder's state \<open>{b, off}\<close> the bytes
  \<open>b[off:]\<close> it has not read.  The reflection switches \<open>Encoder.value\<close> and
  \<open>Decoder.value\<close> become one encoder and one decoder per kind of Go value (\<open>enc_bool\<close>,
  \<open>enc_uint\<close>, \<open>enc_slice\<close>, \<open>enc_ptr\<close>, \<open>enc_pair\<close> for consecutive struct fields, ...);
  the codec of a Go type is the composition the switch makes for that type.  A nil and an empty
  slice are the same list (both encode as length 0).

  The locale \<open>pc_codec\<close> states what a codec promises: every well-formed value round-trips
  with any bytes after it, and every accepted input is the encoding of the value it decodes to,
  so decoding is injective.  Each branch preserves the contract.
\<close>

datatype pc_error =
    ErrTrailingBytes
  | ErrOverlongVarint
  | ErrShort
  | ErrInvalidBool byte
  | ErrInvalidOption byte
  | ErrOverflow u64
  | ErrSequenceTooLarge
  | ErrInvalidUTF8
  | ErrUnknownVariant u64
  | ErrCustom string

section \<open>Varints\<close>

function appendVarint :: "bytes \<Rightarrow> u64 \<Rightarrow> bytes" where
  "appendVarint dst v =
     (if 0x80 \<le> v then appendVarint (dst @ [ucast v OR 0x80]) (drop_bit 7 v) else dst @ [ucast v])"
  by pat_completeness auto

lemma drop_bit7_decreases: "(0x80 :: u64) \<le> v \<Longrightarrow> unat (drop_bit 7 v) < unat v"
  by (simp add: unat_drop_bit_eq drop_bit_eq_div word_le_nat_alt unat_div)

termination appendVarint
  by (relation "measure (\<lambda>(dst, v). unat v)") (auto simp: drop_bit7_decreases)

declare appendVarint.simps [simp del]

text \<open>The loop of \<open>readVarint\<close> at index \<open>i\<close> with the value \<open>v\<close> read so far.\<close>

fun readVarint_loop :: "nat \<Rightarrow> u64 \<Rightarrow> bytes \<Rightarrow> pc_error + (u64 \<times> nat)" where
  "readVarint_loop i v [] = Inl ErrShort"
| "readVarint_loop i v (b # buf) =
     (if i \<ge> 10 then Inl ErrShort
      else if i = 9 \<and> b > 1 then Inl ErrOverlongVarint
      else let v' = v OR push_bit (7 * i) (ucast (b AND 0x7f)) in
        if b < 0x80 then
          (if i > 0 \<and> b = 0 then Inl ErrOverlongVarint else Inr (v', i + 1))
        else readVarint_loop (i + 1) v' buf)"

definition readVarint :: "bytes \<Rightarrow> pc_error + (u64 \<times> nat)" where
  "readVarint buf = readVarint_loop 0 0 buf"

definition zigzag :: "u64 \<Rightarrow> u64" where
  "zigzag v = push_bit 1 v XOR signed_drop_bit 63 v"

definition unzigzag :: "u64 \<Rightarrow> u64" where
  "unzigzag v = drop_bit 1 v XOR - (v AND 1)"

section \<open>Varint round trip\<close>

lemma bit_127_int [simp]: "bit (127 :: int) n \<longleftrightarrow> n < 7"
proof -
  have "(127 :: int) = mask 7" by (simp add: mask_eq_exp_minus_1)
  then show ?thesis by (simp only: bit_mask_iff possible_bit_int) simp
qed

lemma bit_128_int [simp]: "bit (128 :: int) n \<longleftrightarrow> n = 7"
proof -
  have "(128 :: int) = 2 ^ 7" by simp
  then show ?thesis by (simp only: bit_exp_iff possible_bit_int) auto
qed

lemma appendVarint_dst: "appendVarint dst v = dst @ appendVarint [] v"
proof (induction v arbitrary: dst rule: measure_induct_rule [where f = unat])
  case (less v)
  show ?case
  proof (cases "0x80 \<le> v")
    case True
    have "appendVarint d v = d @ [ucast v OR 0x80] @ appendVarint [] (drop_bit 7 v)" for d
      using True less.IH [OF drop_bit7_decreases [OF True], of "d @ [ucast v OR 0x80]"]
      by (simp add: appendVarint.simps [of d v])
    from this [of dst] this [of "[]"] show ?thesis by simp
  next
    case False
    then have "appendVarint d v = d @ [ucast v]" for d
      by (simp add: appendVarint.simps [of d v])
    from this [of dst] this [of "[]"] show ?thesis by simp
  qed
qed

lemma varint_small: "v < 0x80 \<Longrightarrow> appendVarint [] v = [ucast v]"
  using appendVarint.simps [of "[]" v] by (simp only: append.simps if_not_P not_le)

lemma varint_big:
  "0x80 \<le> v \<Longrightarrow> appendVarint [] v = (ucast v OR 0x80) # appendVarint [] (drop_bit 7 v)"
  using appendVarint.simps [of "[]" v] appendVarint_dst [of "[ucast v OR 0x80]" "drop_bit 7 v"]
  by (simp only: append.simps if_P)

lemma take_bit_step:
  "take_bit (7 * i) x OR push_bit (7 * i) (ucast ((ucast (drop_bit (7 * i) x) OR 0x80 :: byte) AND 0x7f))
     = take_bit (7 * Suc i) (x :: u64)"
  by (rule bit_word_eqI) (auto simp: bit_simps)

lemma take_bit_last:
  "take_bit (7 * i) x OR push_bit (7 * i) (ucast ((ucast (drop_bit (7 * i) x) :: byte) AND 0x7f))
     = take_bit (7 * Suc i) (x :: u64)"
  by (rule bit_word_eqI) (auto simp: bit_simps)

lemma byte_of_small [simp]: "v < 0x80 \<Longrightarrow> (ucast v :: byte) < 0x80" for v :: u64
  by (simp add: word_less_nat_alt unsigned_ucast_eq take_bit_eq_mod)

lemma byte_continued [simp]: "\<not> (b OR 0x80 :: byte) < 0x80"
  by (simp add: not_less le_word_or1)

lemma drop_bit_last: "drop_bit 63 (x :: u64) \<le> 1"
proof -
  have "unat x div 2 ^ 63 < 2"
    using unsigned_less [of x, where 'a = nat] by (simp add: less_mult_imp_div_less)
  then show ?thesis
    by (simp add: word_le_nat_alt drop_bit_eq_div unat_div)
qed

lemma small_bits: "v < 0x80 \<Longrightarrow> bit v n \<Longrightarrow> n < 7" for v :: u64
proof -
  assume "v < 0x80" and b: "bit v n"
  then have "take_bit 7 (unat v) = unat v"
    by (simp add: take_bit_nat_eq_self_iff word_less_nat_alt)
  moreover have "bit (unat v) n" using b by (simp add: bit_unsigned_iff)
  ultimately show "n < 7" by (metis bit_take_bit_iff)
qed

lemma take_bit_all:
  assumes "drop_bit (7 * i) x < (0x80 :: u64)"
  shows "take_bit (7 * Suc i) x = x"
proof (rule bit_word_eqI)
  fix n
  have "bit x n \<Longrightarrow> 7 * i \<le> n \<Longrightarrow> n - 7 * i < 7"
    using small_bits [OF assms, of "n - 7 * i"] by (simp add: bit_simps)
  then show "bit (take_bit (7 * Suc i) x) n \<longleftrightarrow> bit x n"
    by (auto simp: bit_simps) (metis add.commute less_diff_conv2 linorder_not_le not_less_iff_gr_or_eq order_less_le_trans trans_less_add2)
qed

lemma ucast_byte_small:
  assumes "(v :: u64) < 0x80"
  shows "unat (ucast v :: byte) = unat v"
  using assms by (simp add: word_less_nat_alt unsigned_ucast_eq take_bit_eq_mod)

lemma readVarint_append:
  assumes "i < 10" and "i = 0 \<or> drop_bit (7 * i) x \<noteq> 0"
  shows "readVarint_loop i (take_bit (7 * i) x) (appendVarint [] (drop_bit (7 * i) x) @ rest)
     = Inr (x, i + length (appendVarint [] (drop_bit (7 * i) x)))"
  using assms
proof (induction "10 - i" arbitrary: i)
  case (Suc k)
  let ?y = "drop_bit (7 * i) x"
  have i9: "?y \<le> 1" if "i = 9" using that drop_bit_last [of x] by simp
  show ?case
  proof (cases "0x80 \<le> ?y")
    case True
    have y: "drop_bit 7 ?y = drop_bit (7 * Suc i) x" by (simp add: drop_bit_drop_bit ac_simps)
    have ne: "drop_bit 7 ?y \<noteq> 0"
      using True by (auto simp: drop_bit_eq_div word_le_nat_alt unat_div div_eq_0_iff simp flip: unat_eq_0)
    have "i \<noteq> 9" using True i9 by (auto simp: word_le_nat_alt)
    then have "Suc i < 10" using Suc.prems(1) by simp
    with Suc.hyps(2) ne y have IH: "readVarint_loop (Suc i) (take_bit (7 * Suc i) x)
        (appendVarint [] (drop_bit (7 * Suc i) x) @ rest)
      = Inr (x, Suc i + length (appendVarint [] (drop_bit (7 * Suc i) x)))"
      by (intro Suc.hyps(1)) simp_all
    from \<open>i \<noteq> 9\<close> Suc.prems(1) True show ?thesis
      using IH by (simp add: varint_big take_bit_step)
  next
    case False
    then have small: "?y < 0x80" by simp
    have "(ucast ?y :: byte) \<le> 1" if "i = 9"
      using i9 [OF that] ucast_byte_small [OF small] by (simp add: word_le_nat_alt)
    moreover have "(ucast ?y :: byte) \<noteq> 0" if "i > 0"
      using Suc.prems(2) that ucast_byte_small [OF small] by (auto simp flip: unat_eq_0)
    ultimately show ?thesis
      using Suc.prems(1) small
      by (auto simp: varint_small take_bit_last take_bit_all simp del: mult_Suc_right)
  qed
qed simp

lemma readVarint_roundtrip: "readVarint (appendVarint [] x @ rest) = Inr (x, length (appendVarint [] x))"
  using readVarint_append [of 0 x rest] by (simp add: readVarint_def)

text \<open>
  The converse: what \<open>readVarint\<close> accepts is the encoding of the value it returns.  The bytes
  read from index \<open>i\<close> on encode a number \<open>w\<close> that fits above the \<open>7 * i\<close> bits read so
  far and is not zero once a continuation byte was read.
\<close>

lemma byte_top_bit: "0x80 \<le> b \<longleftrightarrow> bit b 7" for b :: byte
proof
  assume "bit b 7"
  then have "b = b OR 0x80"
    by (intro bit_word_eqI) (auto simp: bit_simps)
  then show "0x80 \<le> b" using le_word_or1 [of "0x80" b] by simp
next
  assume "0x80 \<le> b"
  then have "1 \<le> unat b div 2 ^ 7"
    by (simp add: word_le_nat_alt div_greater_zero_iff Suc_le_eq)
  moreover have "unat b div 2 ^ 7 < 2"
    using unsigned_less [of b, where 'a = nat] by (simp add: less_mult_imp_div_less)
  ultimately have "unat b div 2 ^ 7 = 1" by simp
  then have "bit (unat b) 7" by (simp add: bit_iff_odd)
  then show "bit b 7" by (simp add: bit_unsigned_iff)
qed

lemma byte_low_bits: "b < 0x80 \<Longrightarrow> bit b n \<Longrightarrow> n < 7" for b :: byte
  using byte_top_bit [of b] bit_imp_le_length [of b n] by (cases "n = 7") (auto simp flip: not_less)

lemma byte_one_bits: "\<not> 1 < b \<Longrightarrow> bit b n \<Longrightarrow> n = 0" for b :: byte
proof -
  assume "\<not> 1 < b" and b: "bit b n"
  then have "unat b < 2 ^ 1" by (simp add: word_less_nat_alt)
  then have "take_bit 1 (unat b) = unat b" by (simp only: take_bit_nat_eq_self_iff)
  moreover have "bit (unat b) n" using b by (simp add: bit_unsigned_iff)
  ultimately have "n < 1" by (metis bit_take_bit_iff)
  then show "n = 0" by simp
qed

lemma drop_bit7_ne_0: "drop_bit 7 w \<noteq> 0 \<Longrightarrow> 0x80 \<le> w" for w :: u64
proof (rule ccontr)
  assume "drop_bit 7 w \<noteq> 0" and "\<not> 0x80 \<le> w"
  then show False using small_bits [of w] by (fastforce simp: bit_eq_iff bit_simps)
qed

lemma varint_join:
  assumes b: "0x80 \<le> (b :: byte)" and w': "take_bit 57 w' = (w' :: u64)" "w' \<noteq> 0"
  shows "appendVarint [] (ucast (b AND 0x7f) OR push_bit 7 w') = b # appendVarint [] w'"
proof -
  let ?w = "ucast (b AND 0x7f) OR push_bit 7 w' :: u64"
  have d: "drop_bit 7 ?w = w'"
    using w'(1) by (auto simp: bit_eq_iff bit_simps)
  then have "0x80 \<le> ?w" using w'(2) by (intro drop_bit7_ne_0) simp
  moreover have "(ucast ?w OR 0x80 :: byte) = b"
  proof (rule bit_word_eqI)
    fix n :: nat
    assume "n < LENGTH(8)"
    then show "bit (ucast ?w OR 0x80 :: byte) n \<longleftrightarrow> bit b n"
      using b by (cases "n = 7") (auto simp: bit_simps byte_top_bit)
  qed
  ultimately show ?thesis using d by (simp only: varint_big)
qed

lemma unat_ucast_byte [simp]: "unat (ucast b :: u64) = unat b" for b :: byte
  using unsigned_less [of b, where 'a = nat] by (simp add: unsigned_ucast_eq take_bit_nat_eq_self_iff)

lemma ucast_byte_eq_0 [simp]: "(ucast b :: u64) = 0 \<longleftrightarrow> b = 0" for b :: byte
  by (simp flip: unat_eq_0)

lemma varint_ne [simp]: "appendVarint [] v \<noteq> []"
  by (cases "v < 0x80") (simp_all add: varint_small varint_big)

lemma readVarint_loop_sound:
  assumes "readVarint_loop i acc buf = Inr (v, n)"
  shows "\<exists>w k. n = i + k \<and> take k buf = appendVarint [] w \<and> k \<le> length buf
     \<and> v = acc OR push_bit (7 * i) w \<and> take_bit (64 - 7 * i) w = w \<and> (i > 0 \<longrightarrow> w \<noteq> 0)"
  using assms
proof (induction i acc buf rule: readVarint_loop.induct)
  case (2 i acc b buf)
  from "2.prems" have i: "i < 10" "\<not> (i = 9 \<and> 1 < b)" by (auto split: if_splits)
  show ?case
  proof (cases "b < 0x80")
    case True
    then have low: "ucast (b AND 0x7f) = (ucast b :: u64)"
      by (auto intro!: bit_word_eqI simp: bit_simps dest: byte_low_bits)
    have "take_bit (64 - 7 * i) (ucast b :: u64) = ucast b"
    proof (rule bit_word_eqI)
      fix m
      have "bit b m \<Longrightarrow> m < 64 - 7 * i"
        using i byte_low_bits [OF True, of m] byte_one_bits [of b m] by (cases "i = 9") auto
      then show "bit (take_bit (64 - 7 * i) (ucast b :: u64)) m \<longleftrightarrow> bit (ucast b :: u64) m"
        by (auto simp: bit_simps)
    qed
    moreover have "appendVarint [] (ucast b) = [b]"
      using True by (subst varint_small) (auto simp: word_less_nat_alt)
    moreover have "i > 0 \<longrightarrow> (ucast b :: u64) \<noteq> 0"
      using "2.prems" i True by (auto split: if_splits)
    ultimately show ?thesis
      using "2.prems" i True low
      by (intro exI [of _ "ucast b"] exI [of _ 1]) (auto split: if_splits)
  next
    case False
    then have b: "0x80 \<le> b" and "i \<noteq> 9" using i by (auto simp: word_less_nat_alt word_le_nat_alt)
    let ?acc = "acc OR push_bit (7 * i) (ucast (b AND 0x7f))"
    have "readVarint_loop (i + 1) ?acc buf = Inr (v, n)"
      using "2.prems" i False by (auto simp: Let_def split: if_splits)
    with "2.IH" i False obtain w' k where w': "n = i + 1 + k" "take k buf = appendVarint [] w'"
      "k \<le> length buf" "v = ?acc OR push_bit (7 * (i + 1)) w'"
      "take_bit (64 - 7 * (i + 1)) w' = w'" "w' \<noteq> 0"
      by fastforce
    let ?w = "ucast (b AND 0x7f) OR push_bit 7 w' :: u64"
    have t57: "take_bit 57 w' = w'"
      by (subst (1 2) w'(5) [symmetric]) simp
    have "push_bit (7 * i) ?w = push_bit (7 * i) (ucast (b AND 0x7f)) OR push_bit (7 * (i + 1)) w'"
      by (simp add: push_bit_or push_bit_push_bit ac_simps)
    moreover have "take_bit (64 - 7 * i) ?w = ?w"
    proof (rule bit_word_eqI)
      fix m
      have "bit w' (m - 7) \<Longrightarrow> m - 7 < 64 - 7 * (i + 1)"
        using w'(5) by (metis bit_take_bit_iff)
      then show "bit (take_bit (64 - 7 * i) ?w) m \<longleftrightarrow> bit ?w m"
        using i \<open>i \<noteq> 9\<close> by (auto simp: bit_simps)
    qed
    moreover have "?w \<noteq> 0"
    proof
      assume "?w = 0"
      then have "appendVarint [] ?w = [0]" by (simp only: varint_small) (simp add: varint_small)
      with varint_join [OF b t57 w'(6)] have "appendVarint [] w' = []" by simp
      then show False by simp
    qed
    ultimately show ?thesis
      using w'(1-4) varint_join [OF b t57 w'(6)]
      by (intro exI [of _ ?w] exI [of _ "Suc k"]) (simp add: or.assoc)
  qed
qed simp

lemma readVarint_sound:
  "readVarint buf = Inr (v, n) \<Longrightarrow> n \<le> length buf \<and> take n buf = appendVarint [] v"
  unfolding readVarint_def by (drule readVarint_loop_sound) auto

text \<open>A number below \<open>2 ^ (7 * k)\<close> takes at most \<open>k\<close> bytes.\<close>

lemma varint_length_le: "0 < k \<Longrightarrow> unat v < 2 ^ (7 * k) \<Longrightarrow> length (appendVarint [] v) \<le> k"
proof (induction k arbitrary: v)
  case (Suc k)
  show ?case
  proof (cases "v < 0x80")
    case False
    then have big: "0x80 \<le> v" by simp
    have d: "unat (drop_bit 7 v) = unat v div 128"
      by (simp add: drop_bit_eq_div unat_div)
    have "unat v div 128 < 2 ^ (7 * k)"
      using Suc.prems by (intro less_mult_imp_div_less) (simp add: power_add)
    moreover have "0 < k"
      using Suc.prems big by (cases k) (auto simp: word_le_nat_alt)
    ultimately show ?thesis
      using Suc.IH [of "drop_bit 7 v"] d big by (simp add: varint_big)
  qed (simp add: varint_small)
qed simp

lemma varint_length_pos: "1 \<le> length (appendVarint [] v)"
  using varint_ne [of v] by (cases "appendVarint [] v") auto

section \<open>Zigzag\<close>

lemma bit_zigzag:
  "n < 64 \<Longrightarrow> bit (zigzag v) n \<longleftrightarrow> ((0 < n \<and> bit v (n - 1)) \<noteq> bit v 63)"
  unfolding zigzag_def bit_xor_iff bit_push_bit_iff
  by (cases n) (auto simp: bit_simps)

lemma bit_unzigzag:
  assumes "n < 64"
  shows "bit (unzigzag v) n \<longleftrightarrow> ((n < 63 \<and> bit v (Suc n)) \<noteq> bit v 0)"
proof -
  have "v AND 1 = (if bit v 0 then 1 else 0)" by (auto intro!: bit_word_eqI simp: bit_simps)
  moreover have "bit v (Suc n) \<Longrightarrow> n < 63" using bit_imp_le_length [of v "Suc n"] by simp
  ultimately show ?thesis using assms by (auto simp: unzigzag_def bit_simps)
qed

lemma unzigzag_zigzag: "unzigzag (zigzag v) = v"
proof (rule bit_word_eqI)
  fix n assume "n < LENGTH(64)"
  then show "bit (unzigzag (zigzag v)) n \<longleftrightarrow> bit v n"
    by (cases "n = 63") (auto simp: bit_unzigzag bit_zigzag)
qed

lemma zigzag_unzigzag: "zigzag (unzigzag v) = v"
proof (rule bit_word_eqI)
  fix n assume "n < LENGTH(64)"
  then show "bit (zigzag (unzigzag v)) n \<longleftrightarrow> bit v n"
    by (cases n) (auto simp: bit_unzigzag bit_zigzag)
qed

section \<open>Encoder\<close>

text \<open>The branches of \<open>Encoder.value\<close>.\<close>

definition enc_uint :: "'a::len word \<Rightarrow> pc_error + bytes" where
  "enc_uint v = Inr (appendVarint [] (ucast v))"

definition enc_int :: "u64 \<Rightarrow> pc_error + bytes" where
  "enc_int v = Inr (appendVarint [] (zigzag v))"

definition enc_uint8 :: "byte \<Rightarrow> pc_error + bytes" where
  "enc_uint8 v = Inr [v]"

definition enc_bool :: "bool \<Rightarrow> pc_error + bytes" where
  "enc_bool v = Inr (if v then [1] else [0])"

definition enc_bytes :: "bytes \<Rightarrow> pc_error + bytes" where
  "enc_bytes b = Inr (appendVarint [] (of_nat (length b)) @ b)"

definition enc_raw :: "bytes \<Rightarrow> pc_error + bytes" where
  "enc_raw b = Inr b"

definition enc_ptr :: "('a \<Rightarrow> pc_error + bytes) \<Rightarrow> 'a option \<Rightarrow> pc_error + bytes" where
  "enc_ptr enc v = (case v of None \<Rightarrow> Inr [0] | Some x \<Rightarrow> rbind (enc x) (\<lambda>b. Inr (1 # b)))"

fun enc_seq :: "('a \<Rightarrow> pc_error + bytes) \<Rightarrow> 'a list \<Rightarrow> pc_error + bytes" where
  "enc_seq enc [] = Inr []"
| "enc_seq enc (x # xs) = rbind (enc x) (\<lambda>b. rbind (enc_seq enc xs) (\<lambda>c. Inr (b @ c)))"

definition enc_slice :: "('a \<Rightarrow> pc_error + bytes) \<Rightarrow> 'a list \<Rightarrow> pc_error + bytes" where
  "enc_slice enc xs = rbind (enc_seq enc xs) (\<lambda>b. Inr (appendVarint [] (of_nat (length xs)) @ b))"

definition enc_pair ::
    "('a \<Rightarrow> pc_error + bytes) \<Rightarrow> ('b \<Rightarrow> pc_error + bytes) \<Rightarrow> 'a \<times> 'b \<Rightarrow> pc_error + bytes" where
  "enc_pair ea eb p = rbind (ea (fst p)) (\<lambda>x. rbind (eb (snd p)) (\<lambda>y. Inr (x @ y)))"

definition marshal :: "('a \<Rightarrow> pc_error + bytes) \<Rightarrow> 'a \<Rightarrow> pc_error + bytes" where
  "marshal enc v = enc v"

section \<open>Decoder\<close>

type_synonym 'a dec = "bytes \<Rightarrow> pc_error + ('a \<times> bytes)"

definition maxInt :: nat where
  "maxInt = 2 ^ 63 - 1"

definition dec_byte :: "byte dec" where
  "dec_byte d = (case d of [] \<Rightarrow> Inl ErrShort | x # d' \<Rightarrow> Inr (x, d'))"

definition dec_varint :: "u64 dec" where
  "dec_varint d = rbind (readVarint d) (\<lambda>(x, n). Inr (x, drop n d))"

definition dec_uint :: "'a::len word dec" where
  "dec_uint d = rbind (dec_varint d) (\<lambda>(x, d').
     if take_bit LENGTH('a) x \<noteq> x then Inl (ErrOverflow x) else Inr (ucast x, d'))"

definition dec_int :: "u64 dec" where
  "dec_int d = rbind (dec_varint d) (\<lambda>(x, d'). Inr (unzigzag x, d'))"

definition dec_uint8 :: "byte dec" where
  "dec_uint8 d = dec_byte d"

definition dec_bool :: "bool dec" where
  "dec_bool d = rbind (dec_byte d) (\<lambda>(x, d').
     if x = 0 then Inr (False, d') else if x = 1 then Inr (True, d') else Inl (ErrInvalidBool x))"

definition dec_option :: "bool dec" where
  "dec_option d = rbind (dec_byte d) (\<lambda>(x, d').
     if x = 0 then Inr (False, d') else if x = 1 then Inr (True, d') else Inl (ErrInvalidOption x))"

definition dec_raw :: "nat \<Rightarrow> bytes dec" where
  "dec_raw n d = (if n > length d then Inl ErrShort else Inr (take n d, drop n d))"

definition dec_bytes :: "bytes dec" where
  "dec_bytes d = rbind (dec_varint d) (\<lambda>(n, d').
     if unat n > length d' then Inl ErrShort else Inr (take (unat n) d', drop (unat n) d'))"

definition dec_slice_bytes :: "bytes dec" where
  "dec_slice_bytes d = rbind (dec_varint d) (\<lambda>(n, d').
     if unat n > maxInt then Inl ErrSequenceTooLarge
     else if unat n > length d' then Inl ErrShort
     else Inr (take (unat n) d', drop (unat n) d'))"

definition dec_ptr :: "'a dec \<Rightarrow> 'a option dec" where
  "dec_ptr dec d = rbind (dec_option d) (\<lambda>(ok, d').
     if \<not> ok then Inr (None, d') else rbind (dec d') (\<lambda>(x, d''). Inr (Some x, d'')))"

fun dec_seq :: "'a dec \<Rightarrow> nat \<Rightarrow> 'a list dec" where
  "dec_seq dec 0 d = Inr ([], d)"
| "dec_seq dec (Suc n) d =
     rbind (dec d) (\<lambda>(x, d'). rbind (dec_seq dec n d') (\<lambda>(xs, d''). Inr (x # xs, d'')))"

definition dec_slice :: "'a dec \<Rightarrow> 'a list dec" where
  "dec_slice dec d = rbind (dec_varint d) (\<lambda>(n, d').
     if unat n > maxInt then Inl ErrSequenceTooLarge
     else if unat n > length d' then Inl ErrShort
     else dec_seq dec (unat n) d')"

definition dec_pair :: "'a dec \<Rightarrow> 'b dec \<Rightarrow> ('a \<times> 'b) dec" where
  "dec_pair da db d = rbind (da d) (\<lambda>(x, d'). rbind (db d') (\<lambda>(y, d''). Inr ((x, y), d'')))"

definition dec_map :: "('a \<Rightarrow> 'b) \<Rightarrow> 'a dec \<Rightarrow> 'b dec" where
  "dec_map f dec d = rbind (dec d) (\<lambda>(x, d'). Inr (f x, d'))"

definition unmarshal :: "'a dec \<Rightarrow> bytes \<Rightarrow> pc_error + 'a" where
  "unmarshal dec b = rbind (dec b) (\<lambda>(v, d). if d \<noteq> [] then Inl ErrTrailingBytes else Inr v)"

text \<open>\<open>utf8.Valid\<close>: the well-formed byte sequences of the Unicode standard.\<close>

definition utf8_cont :: "byte \<Rightarrow> bool" where
  "utf8_cont b \<longleftrightarrow> 0x80 \<le> b \<and> b \<le> 0xBF"

definition utf8_second :: "byte \<Rightarrow> byte \<Rightarrow> bool" where
  "utf8_second b0 b1 \<longleftrightarrow>
     (if b0 = 0xE0 then 0xA0 else if b0 = 0xF0 then 0x90 else 0x80) \<le> b1
     \<and> b1 \<le> (if b0 = 0xED then 0x9F else if b0 = 0xF4 then 0x8F else 0xBF)"

fun utf8_valid :: "bytes \<Rightarrow> bool" where
  "utf8_valid [] = True"
| "utf8_valid (b0 # r) =
     (if b0 < 0x80 then utf8_valid r
      else if 0xC2 \<le> b0 \<and> b0 \<le> 0xDF then
        (case r of b1 # r' \<Rightarrow> utf8_second b0 b1 \<and> utf8_valid r' | _ \<Rightarrow> False)
      else if 0xE0 \<le> b0 \<and> b0 \<le> 0xEF then
        (case r of b1 # b2 # r' \<Rightarrow> utf8_second b0 b1 \<and> utf8_cont b2 \<and> utf8_valid r' | _ \<Rightarrow> False)
      else if 0xF0 \<le> b0 \<and> b0 \<le> 0xF4 then
        (case r of b1 # b2 # b3 # r' \<Rightarrow>
           utf8_second b0 b1 \<and> utf8_cont b2 \<and> utf8_cont b3 \<and> utf8_valid r' | _ \<Rightarrow> False)
      else False)"

definition dec_string :: "bytes dec" where
  "dec_string d = rbind (dec_bytes d) (\<lambda>(b, d'). if \<not> utf8_valid b then Inl ErrInvalidUTF8 else Inr (b, d'))"

section \<open>The codec contract\<close>

locale pc_codec =
  fixes enc :: "'a \<Rightarrow> pc_error + bytes"
    and dec :: "'a dec"
    and ok :: "'a \<Rightarrow> bool"
  assumes enc_total: "ok x \<Longrightarrow> \<exists>b. enc x = Inr b"
    and dec_enc: "ok x \<Longrightarrow> enc x = Inr b \<Longrightarrow> dec (b @ rest) = Inr (x, rest)"
    and dec_sound: "dec d = Inr (x, rest) \<Longrightarrow> ok x \<and> (\<exists>b. enc x = Inr b \<and> d = b @ rest)"
begin

lemma dec_enc': "enc x = Inr b \<Longrightarrow> ok x \<Longrightarrow> dec (b @ rest) = Inr (x, rest)"
  by (rule dec_enc)

lemma unmarshal_marshal: "ok x \<Longrightarrow> marshal enc x = Inr b \<Longrightarrow> unmarshal dec b = Inr x"
  using dec_enc [of x b "[]"] by (simp add: marshal_def unmarshal_def)

lemma marshal_unmarshal: "unmarshal dec b = Inr x \<Longrightarrow> ok x \<and> marshal enc x = Inr b"
  by (auto simp: marshal_def unmarshal_def rbind_eq_Inr split: if_splits dest!: dec_sound)

lemma unmarshal_inj: "unmarshal dec b = Inr x \<Longrightarrow> unmarshal dec c = Inr x \<Longrightarrow> b = c"
  using marshal_unmarshal [of b x] marshal_unmarshal [of c x] by simp

lemma prefix_free:
  assumes "ok x" "ok y" "enc x = Inr b" "enc y = Inr (b @ c)"
  shows "x = y \<and> c = []"
  using dec_enc [OF assms(1,3), of c] dec_enc [OF assms(2,4), of "[]"] by simp

lemma dec_shrinks: "dec d = Inr (x, rest) \<Longrightarrow> length rest \<le> length d"
  by (auto dest!: dec_sound)

end

text \<open>
  Elements of a slice must take at least one byte: the decoder rejects a length larger than the
  number of bytes left.
\<close>

locale pc_codec_ne = pc_codec +
  assumes enc_ne: "ok x \<Longrightarrow> enc x \<noteq> Inr []"
begin

lemma enc_seq_total: "list_all ok xs \<Longrightarrow> \<exists>b. enc_seq enc xs = Inr b \<and> length xs \<le> length b"
proof (induction xs)
  case (Cons x xs)
  then obtain b c where "enc x = Inr b" "enc_seq enc xs = Inr c" "length xs \<le> length c"
    using enc_total [of x] by auto
  moreover from this(1) Cons.prems have "b \<noteq> []" using enc_ne [of x] by auto
  ultimately show ?case by (cases b) auto
qed simp

lemma dec_seq_enc:
  "list_all ok xs \<Longrightarrow> enc_seq enc xs = Inr b \<Longrightarrow> dec_seq dec (length xs) (b @ rest) = Inr (xs, rest)"
proof (induction xs arbitrary: b)
  case (Cons x xs)
  then obtain c e where "enc x = Inr c" "enc_seq enc xs = Inr e" "b = c @ e"
    by (auto simp: rbind_eq_Inr)
  with Cons dec_enc [of x c "e @ rest"] show ?case by simp
qed simp

lemma dec_seq_sound:
  "dec_seq dec n d = Inr (xs, rest) \<Longrightarrow>
     length xs = n \<and> list_all ok xs \<and> (\<exists>b. enc_seq enc xs = Inr b \<and> d = b @ rest)"
proof (induction n arbitrary: d xs)
  case (Suc n)
  then obtain x d' ys where "dec d = Inr (x, d')" "dec_seq dec n d' = Inr (ys, rest)" "xs = x # ys"
    by (auto simp: rbind_eq_Inr)
  with Suc.IH [of d' ys] dec_sound [of d x d'] show ?case by auto
qed simp

end

section \<open>Every branch keeps the contract\<close>

lemma dec_varint_enc [simp, codec_simps]: "dec_varint (appendVarint [] x @ rest) = Inr (x, rest)"
  by (simp add: dec_varint_def readVarint_roundtrip)

lemma dec_varint_sound: "dec_varint d = Inr (x, rest) \<Longrightarrow> d = appendVarint [] x @ rest"
  by (auto simp: dec_varint_def rbind_eq_Inr dest!: readVarint_sound) (metis append_take_drop_id)

lemma take_bit_ucast: "LENGTH('a) \<le> 64 \<Longrightarrow> take_bit LENGTH('a) (ucast (v :: 'a::len word) :: u64) = ucast v"
  by (rule bit_word_eqI) (auto simp: bit_simps dest: bit_imp_le_length)

lemma ucast_down_up: "LENGTH('a) \<le> 64 \<Longrightarrow> ucast (ucast (v :: 'a::len word) :: u64) = v"
  by (rule bit_word_eqI) (auto simp: bit_simps)

lemma ucast_up_down: "take_bit LENGTH('a) x = x \<Longrightarrow> ucast (ucast (x :: u64) :: 'a::len word) = x"
  by (simp add: bit_eq_iff bit_simps)

lemma pc_codec_ne_uint:
  assumes "LENGTH('a::len) \<le> 64"
  shows "pc_codec_ne enc_uint dec_uint (\<lambda>_ :: 'a word. True)"
proof (unfold_locales, goal_cases)
  case (2 x b rest)
  then show ?case
    using assms by (auto simp: enc_uint_def dec_uint_def take_bit_ucast ucast_down_up)
next
  case (3 d x rest)
  then show ?case
    by (auto simp: enc_uint_def dec_uint_def rbind_eq_Inr ucast_up_down
        split: if_splits dest!: dec_varint_sound)
qed (simp_all add: enc_uint_def)

lemma pc_codec_ne_int: "pc_codec_ne enc_int dec_int (\<lambda>_. True)"
proof (unfold_locales, goal_cases)
  case (2 x b rest)
  then show ?case by (auto simp: enc_int_def dec_int_def unzigzag_zigzag)
next
  case (3 d x rest)
  then show ?case
    by (auto simp: enc_int_def dec_int_def rbind_eq_Inr zigzag_unzigzag dest!: dec_varint_sound)
qed (simp_all add: enc_int_def)

lemma pc_codec_ne_uint8: "pc_codec_ne enc_uint8 dec_uint8 (\<lambda>_. True)"
  by unfold_locales (auto simp: enc_uint8_def dec_uint8_def dec_byte_def split: list.splits)

lemma pc_codec_ne_bool: "pc_codec_ne enc_bool dec_bool (\<lambda>_. True)"
proof (unfold_locales, goal_cases)
  case (3 d x rest)
  then show ?case
    by (auto simp: enc_bool_def dec_bool_def dec_byte_def rbind_eq_Inr split: list.splits if_splits)
qed (auto simp: enc_bool_def dec_bool_def dec_byte_def split: if_splits)

lemma dec_option_sound: "dec_option d = Inr (x, rest) \<Longrightarrow> d = (if x then 1 else 0) # rest"
  by (auto simp: dec_option_def dec_byte_def rbind_eq_Inr split: list.splits if_splits)

lemma dec_option_simps [simp]:
  "dec_option (0 # rest) = Inr (False, rest)" "dec_option (1 # rest) = Inr (True, rest)"
  by (simp_all add: dec_option_def dec_byte_def)

lemma pc_codec_raw: "pc_codec enc_raw (dec_raw n) (\<lambda>b. length b = n)"
  by unfold_locales (auto simp: enc_raw_def dec_raw_def split: if_splits)

lemma pc_codec_ne_raw: "0 < n \<Longrightarrow> pc_codec_ne enc_raw (dec_raw n) (\<lambda>b. length b = n)"
  by (intro pc_codec_ne.intro pc_codec_raw) (auto simp: pc_codec_ne_axioms_def enc_raw_def)

lemma unat_of_nat_u64 [simp]: "n \<le> maxInt \<Longrightarrow> unat (of_nat n :: u64) = n"
  by (simp add: maxInt_def unat_of_nat take_bit_eq_mod)

lemma of_nat_unat_len: "length b = unat (n :: u64) \<Longrightarrow> of_nat (length b) = n"
  by simp

lemma pc_codec_ne_bytes: "pc_codec_ne enc_bytes dec_slice_bytes (\<lambda>b. length b \<le> maxInt)"
proof (unfold_locales, goal_cases)
  case (2 x b rest)
  then show ?case by (auto simp: enc_bytes_def dec_slice_bytes_def)
next
  case (3 d x rest)
  then show ?case
    by (auto simp: enc_bytes_def dec_slice_bytes_def rbind_eq_Inr min_def
        split: if_splits dest!: dec_varint_sound)
qed (simp_all add: enc_bytes_def)

context pc_codec
begin

lemma codec_ptr: "pc_codec_ne (enc_ptr enc) (dec_ptr dec) (pred_option ok)"
proof (unfold_locales, goal_cases)
  case (1 v)
  then show ?case using enc_total by (cases v) (fastforce simp: enc_ptr_def)+
next
  case (2 v b rest)
  then show ?case
    using dec_enc by (cases v) (auto simp: enc_ptr_def dec_ptr_def rbind_eq_Inr)
next
  case (3 d v rest)
  then show ?case
    by (auto simp: enc_ptr_def dec_ptr_def rbind_eq_Inr
        split: if_splits dest!: dec_option_sound dec_sound)
next
  case (4 v)
  then show ?case by (auto simp: enc_ptr_def rbind_eq_Inr split: option.splits)
qed

text \<open>A struct type is the codec of its fields up to a bijection.\<close>

lemma codec_map:
  assumes "\<And>y. fs (mk y) = y" "\<And>x. mk (fs x) = x"
  shows "pc_codec (\<lambda>y. enc (fs y)) (dec_map mk dec) (\<lambda>y. ok (fs y))"
proof (unfold_locales, goal_cases)
  case (1 y)
  then show ?case by (rule enc_total)
next
  case (2 y b rest)
  then show ?case using dec_enc [of "fs y" b rest] assms by (simp add: dec_map_def)
next
  case (3 d y rest)
  then show ?case using assms by (auto simp: dec_map_def rbind_eq_Inr dest!: dec_sound)
qed

end

context pc_codec_ne
begin

lemma codec_slice: "pc_codec_ne (enc_slice enc) (dec_slice dec) (\<lambda>xs. list_all ok xs \<and> length xs \<le> maxInt)"
proof (unfold_locales, goal_cases)
  case (1 xs)
  then show ?case using enc_seq_total [of xs] by (auto simp: enc_slice_def)
next
  case (2 xs b rest)
  then obtain c where c: "enc_seq enc xs = Inr c" "b = appendVarint [] (of_nat (length xs)) @ c"
    by (auto simp: enc_slice_def rbind_eq_Inr)
  with 2 enc_seq_total [of xs] have "length xs \<le> length c" by auto
  with 2 c show ?case by (simp add: dec_slice_def dec_seq_enc)
next
  case (3 d xs rest)
  then show ?case
    by (auto simp: enc_slice_def dec_slice_def rbind_eq_Inr not_less
        split: if_splits dest!: dec_varint_sound dec_seq_sound)
qed (auto simp: enc_slice_def rbind_eq_Inr)

lemma codec_map_ne:
  assumes "\<And>y. fs (mk y) = y" "\<And>x. mk (fs x) = x"
  shows "pc_codec_ne (\<lambda>y. enc (fs y)) (dec_map mk dec) (\<lambda>y. ok (fs y))"
  using codec_map [OF assms] enc_ne by (simp add: pc_codec_ne_def pc_codec_ne_axioms_def)

end

text \<open>Two fields one after the other.\<close>

locale pc_codec_pair =
  a: pc_codec ea da oka + b: pc_codec eb db okb
  for ea :: "'a \<Rightarrow> pc_error + bytes" and da oka
    and eb :: "'b \<Rightarrow> pc_error + bytes" and db okb
begin

lemma codec_pair: "pc_codec (enc_pair ea eb) (dec_pair da db) (\<lambda>(x, y). oka x \<and> okb y)"
proof (unfold_locales, goal_cases)
  case (1 p)
  then show ?case using a.enc_total b.enc_total by (fastforce simp: enc_pair_def)
next
  case (2 p b rest)
  then obtain x y where "ea (fst p) = Inr x" "eb (snd p) = Inr y" "b = x @ y"
    by (auto simp: enc_pair_def rbind_eq_Inr)
  with 2 a.dec_enc [of "fst p" x "y @ rest"] b.dec_enc [of "snd p" y rest] show ?case
    by (simp add: dec_pair_def split: prod.splits)
next
  case (3 d p rest)
  then show ?case
    by (auto simp: enc_pair_def dec_pair_def rbind_eq_Inr dest!: a.dec_sound b.dec_sound)
qed

lemma codec_pair_ne:
  assumes "pc_codec_ne ea da oka"
  shows "pc_codec_ne (enc_pair ea eb) (dec_pair da db) (\<lambda>(x, y). oka x \<and> okb y)"
  using codec_pair pc_codec_ne.enc_ne [OF assms]
  by (auto simp: pc_codec_ne_def pc_codec_ne_axioms_def enc_pair_def rbind_eq_Inr)

end

lemmas pc_codec_pairI = pc_codec_pair.codec_pair [OF pc_codec_pair.intro]
lemmas pc_codec_pair_neI = pc_codec_pair.codec_pair_ne [OF pc_codec_pair.intro]

lemma pc_structI:
  assumes "pc_codec_ne e d ok" and "\<And>x. mk (fs x) = x" and "\<And>y. fs (mk y) = y"
    and "enc' = (\<lambda>y. e (fs y))" and "dec' = dec_map mk d" and "ok' = (\<lambda>y. ok (fs y))"
  shows "pc_codec_ne enc' dec' ok'"
  unfolding assms(4,5,6) using assms(1,2,3) by (intro pc_codec_ne.codec_map_ne)

section \<open>Tagged unions\<close>

text \<open>\<open>e.Uint(kind)\<close> followed by the payload of that kind.\<close>

definition enc_kind :: "u64 \<Rightarrow> pc_error + bytes \<Rightarrow> pc_error + bytes" where
  "enc_kind k payload = rbind payload (\<lambda>b. Inr (appendVarint [] k @ b))"

lemma enc_kind_eq_Inr: "enc_kind k p = Inr b \<longleftrightarrow> (\<exists>c. p = Inr c \<and> b = appendVarint [] k @ c)"
  by (auto simp: enc_kind_def rbind_eq_Inr)

lemma enc_kind_total: "(\<exists>c. p = Inr c) \<Longrightarrow> \<exists>b. enc_kind k p = Inr b"
  by (simp add: enc_kind_eq_Inr)

lemma enc_kind_ne: "enc_kind k p \<noteq> Inr []"
  by (simp add: enc_kind_eq_Inr)

lemmas enum_simps = enc_kind_eq_Inr dec_map_def rbind_eq_Inr

text \<open>The integer codecs the protocol types use.\<close>

interpretation pcu64: pc_codec_ne enc_uint dec_uint "\<lambda>_ :: u64. True"
  by (rule pc_codec_ne_uint) simp

interpretation pcu16: pc_codec_ne enc_uint dec_uint "\<lambda>_ :: u16. True"
  by (rule pc_codec_ne_uint) simp

interpretation pcint: pc_codec_ne enc_int dec_int "\<lambda>_. True"
  by (rule pc_codec_ne_int)

interpretation pcu8: pc_codec_ne enc_uint8 dec_uint8 "\<lambda>_. True"
  by (rule pc_codec_ne_uint8)

interpretation pcbool: pc_codec_ne enc_bool dec_bool "\<lambda>_. True"
  by (rule pc_codec_ne_bool)

interpretation pcopt: pc_codec_ne "enc_ptr enc_bytes" "dec_ptr dec_slice_bytes"
  "pred_option (\<lambda>b. length b \<le> maxInt)"
  by (rule pc_codec.codec_ptr) (rule pc_codec_ne.axioms(1) [OF pc_codec_ne_bytes])

interpretation pcid: pc_codec_ne enc_raw "dec_raw 32" "\<lambda>b. length b = 32"
  by (rule pc_codec_ne_raw) simp

interpretation pcbytes: pc_codec_ne enc_bytes dec_slice_bytes "\<lambda>b. length b \<le> maxInt"
  by (rule pc_codec_ne_bytes)

section \<open>Properties\<close>

text \<open>
  C28: postcard varints are canonical.  \<open>readVarint\<close> accepts a buffer exactly when it starts with the
  encoding \<open>appendVarint\<close> gives the returned value, and reports that encoding's length: over-long forms,
  overflowing forms and truncated ones are errors, and every 64-bit value round-trips in at most ten bytes.
\<close>
theorem postcard_varint_canonical:
  "(readVarint buf = Inr (v, n) \<longleftrightarrow> n \<le> length buf \<and> take n buf = appendVarint [] v) \<and>
   length (appendVarint [] v) \<le> 10"
proof -
  have "readVarint buf = Inr (v, n)" if "n \<le> length buf" "take n buf = appendVarint [] v"
  proof -
    have "buf = appendVarint [] v @ drop n buf" using that(2) by (metis append_take_drop_id)
    moreover have "n = length (appendVarint [] v)" using that by (metis length_take min.absorb2)
    ultimately show ?thesis using readVarint_roundtrip by metis
  qed
  moreover have "length (appendVarint [] v) \<le> 10"
    using unsigned_less [of v, where 'a = nat] by (intro varint_length_le) simp_all
  ultimately show ?thesis using readVarint_sound [of buf v n] by blast
qed

lemma zigzag_cases: "zigzag v = (if bit v 63 then NOT (push_bit 1 v) else push_bit 1 v)"
proof (rule bit_word_eqI)
  fix n assume n: "n < LENGTH(64)"
  hence "bit (push_bit 1 v) n \<longleftrightarrow> 0 < n \<and> bit v (n - 1)" unfolding bit_push_bit_iff by (cases n) auto
  thus "bit (zigzag v) n \<longleftrightarrow> bit (if bit v 63 then NOT (push_bit 1 v) else push_bit 1 v) n"
    using n bit_zigzag [of n v] by (simp only: if_distrib [where f = "\<lambda>w. bit w n"] bit_not_iff) auto
qed

lemma sint_top_bit: "sint v = (if bit v 63 then uint v - 2 ^ 64 else uint v)" for v :: u64
  using uint_lt2p [of v] by (simp add: sint_uint signed_take_bit_eq_take_bit_minus bit_uint_iff take_bit_eq_mod)

lemma uint_push_1: "uint (push_bit 1 v) = 2 * uint v mod 2 ^ 64" for v :: u64
  using uint_word_ariths(3) [of v 2] by (simp add: mult.commute)

lemma uint_not: "uint (NOT v) = 2 ^ 64 - 1 - uint v" for v :: u64
proof -
  have "(- uint v - 1) mod 2 ^ 64 = 2 ^ 64 - 1 - uint v"
    by (rule int_mod_pos_eq [where q = "- 1"]) (use uint_lt2p [of v] order_less_le_trans [OF _ uint_ge_0, of "- 1" v] in simp_all)
  thus ?thesis by (simp add: unsigned_not_eq take_bit_eq_mod not_int_def)
qed

lemma uint_zigzag: "uint (zigzag v) = (if sint v < 0 then - 2 * sint v - 1 else 2 * sint v)"
proof (cases "bit v 63")
  case True
  hence s: "uint v = sint v + 2 ^ 64" by (simp add: sint_top_bit)
  have "- (2 ^ 63) \<le> sint v" "uint v < 2 ^ 64" using sint_ge [of v] uint_lt2p [of v] by simp_all
  moreover from this have "2 * uint v mod 2 ^ 64 = 2 * uint v - 2 ^ 64"
    by (intro int_mod_pos_eq [where q = 1]) (simp_all add: s)
  ultimately show ?thesis using True s by (simp only: zigzag_cases if_True uint_not uint_push_1) simp
next
  case False
  hence s: "uint v = sint v" by (simp add: sint_top_bit)
  have "sint v < 2 ^ 63" "0 \<le> uint v" using sint_lt [of v] by simp_all
  moreover from this have "2 * uint v mod 2 ^ 64 = 2 * uint v" by (simp add: s)
  ultimately show ?thesis using False s by (simp only: zigzag_cases if_False uint_push_1) simp
qed

text \<open>
  Zigzag interleaves the integers.  The word \<open>zigzag\<close> gives a signed 64-bit integer \<open>v\<close> is \<open>2 v\<close> for
  a non-negative and \<open>-2 v - 1\<close> for a negative one, without overflow, and \<open>unzigzag\<close> inverts it on every word.
\<close>
theorem postcard_zigzag:
  "uint (zigzag v) = (if sint v < 0 then - 2 * sint v - 1 else 2 * sint v) \<and>
   unzigzag (zigzag v) = v \<and> zigzag (unzigzag v) = v"
  by (simp add: uint_zigzag unzigzag_zigzag zigzag_unzigzag)

end
