(* ===== verification/Gossip_Wire.thy ===== *)
theory Gossip_Wire
  imports Postcard
begin

text \<open>
  \<open>internal/gossipproto/types.go\<close> and \<open>frame.go\<close>: the messages of the gossip protocol, their
  postcard codecs and the length-prefixed frames they travel in.  A Go struct with a \<open>Kind\<close>
  field that selects one of its other fields is a datatype with one constructor per kind; the
  constructor \<open>...Unknown\<close> holds a kind with no case in the Go switch.  Array types
  (\<open>[32]byte\<close>) are byte lists whose length the codec's well-formedness predicate fixes.
\<close>

section \<open>Messages\<close>

type_synonym TopicID = bytes
type_synonym PeerID = bytes
type_synonym PeerData = bytes
type_synonym MessageID = bytes
type_synonym Ttl = u16
type_synonym Round = u16
type_synonym Priority = u64

record PeerInfo =
  pi_ID :: PeerID
  pi_Data :: "PeerData option"

record ForwardJoin =
  fj_Peer :: PeerInfo
  fj_Ttl :: Ttl

record Shuffle =
  sh_Origin :: PeerID
  sh_Nodes :: "PeerInfo list"
  sh_Ttl :: Ttl

record ShuffleReply =
  sr_Nodes :: "PeerInfo list"

definition PriorityHigh :: Priority where "PriorityHigh = 0"
definition PriorityLow :: Priority where "PriorityLow = 1"

record Neighbor =
  nb_Priority :: Priority
  nb_Data :: "PeerData option"

record Disconnect =
  dc_Alive :: bool
  dc_Respond :: bool

datatype HyparviewMessage =
    HyparviewJoin "PeerData option"
  | HyparviewForwardJoin ForwardJoin
  | HyparviewShuffle Shuffle
  | HyparviewShuffleReply ShuffleReply
  | HyparviewNeighbor Neighbor
  | HyparviewDisconnect Disconnect
  | HyparviewUnknown u64

datatype DeliveryScope =
    DeliveryScopeSwarm Round
  | DeliveryScopeNeighbors
  | DeliveryScopeUnknown u64

record Gossip =
  g_ID :: MessageID
  g_Content :: bytes
  g_Scope :: DeliveryScope

record IHave =
  ih_ID :: MessageID
  ih_Round :: Round

definition iHavePostcardMaxSize :: int where
  "iHavePostcardMaxSize = 32 + 3"

record Graft =
  gr_ID :: "MessageID option"
  gr_Round :: Round

datatype PlumtreeMessage =
    PlumtreeGossip Gossip
  | PlumtreePrune
  | PlumtreeGraft Graft
  | PlumtreeIHave "IHave list"
  | PlumtreeUnknown u64

datatype TopicMessage =
    TopicMessageSwarm HyparviewMessage
  | TopicMessageGossip PlumtreeMessage
  | TopicMessageUnknown u64

record StreamHeader =
  hdr_Topic :: TopicID

section \<open>Codecs\<close>

definition enc_PeerInfo :: "PeerInfo \<Rightarrow> pc_error + bytes" where
  "enc_PeerInfo p = enc_pair enc_raw (enc_ptr enc_bytes) (pi_ID p, pi_Data p)"

definition dec_PeerInfo :: "PeerInfo dec" where
  "dec_PeerInfo = dec_map (\<lambda>(i, d). \<lparr>pi_ID = i, pi_Data = d\<rparr>)
     (dec_pair (dec_raw 32) (dec_ptr dec_slice_bytes))"

definition enc_ForwardJoin :: "ForwardJoin \<Rightarrow> pc_error + bytes" where
  "enc_ForwardJoin f = enc_pair enc_PeerInfo enc_uint (fj_Peer f, fj_Ttl f)"

definition dec_ForwardJoin :: "ForwardJoin dec" where
  "dec_ForwardJoin = dec_map (\<lambda>(p, t). \<lparr>fj_Peer = p, fj_Ttl = t\<rparr>) (dec_pair dec_PeerInfo dec_uint)"

definition enc_Shuffle :: "Shuffle \<Rightarrow> pc_error + bytes" where
  "enc_Shuffle s = enc_pair enc_raw (enc_pair (enc_slice enc_PeerInfo) enc_uint)
     (sh_Origin s, sh_Nodes s, sh_Ttl s)"

definition dec_Shuffle :: "Shuffle dec" where
  "dec_Shuffle = dec_map (\<lambda>(i, ns, t). \<lparr>sh_Origin = i, sh_Nodes = ns, sh_Ttl = t\<rparr>)
     (dec_pair (dec_raw 32) (dec_pair (dec_slice dec_PeerInfo) dec_uint))"

definition enc_ShuffleReply :: "ShuffleReply \<Rightarrow> pc_error + bytes" where
  "enc_ShuffleReply r = enc_slice enc_PeerInfo (sr_Nodes r)"

definition dec_ShuffleReply :: "ShuffleReply dec" where
  "dec_ShuffleReply = dec_map (\<lambda>ns. \<lparr>sr_Nodes = ns\<rparr>) (dec_slice dec_PeerInfo)"

definition enc_Neighbor :: "Neighbor \<Rightarrow> pc_error + bytes" where
  "enc_Neighbor n = enc_pair enc_uint (enc_ptr enc_bytes) (nb_Priority n, nb_Data n)"

definition dec_Neighbor :: "Neighbor dec" where
  "dec_Neighbor = dec_map (\<lambda>(p, d). \<lparr>nb_Priority = p, nb_Data = d\<rparr>)
     (dec_pair dec_uint (dec_ptr dec_slice_bytes))"

definition enc_Disconnect :: "Disconnect \<Rightarrow> pc_error + bytes" where
  "enc_Disconnect d = enc_pair enc_bool enc_bool (dc_Alive d, dc_Respond d)"

definition dec_Disconnect :: "Disconnect dec" where
  "dec_Disconnect = dec_map (\<lambda>(a, r). \<lparr>dc_Alive = a, dc_Respond = r\<rparr>) (dec_pair dec_bool dec_bool)"

fun enc_HyparviewMessage :: "HyparviewMessage \<Rightarrow> pc_error + bytes" where
  "enc_HyparviewMessage (HyparviewJoin d) = enc_kind 0 (enc_ptr enc_bytes d)"
| "enc_HyparviewMessage (HyparviewForwardJoin m) = enc_kind 1 (enc_ForwardJoin m)"
| "enc_HyparviewMessage (HyparviewShuffle m) = enc_kind 2 (enc_Shuffle m)"
| "enc_HyparviewMessage (HyparviewShuffleReply m) = enc_kind 3 (enc_ShuffleReply m)"
| "enc_HyparviewMessage (HyparviewNeighbor m) = enc_kind 4 (enc_Neighbor m)"
| "enc_HyparviewMessage (HyparviewDisconnect m) = enc_kind 5 (enc_Disconnect m)"
| "enc_HyparviewMessage (HyparviewUnknown k) = Inl (ErrUnknownVariant k)"

definition dec_HyparviewMessage :: "HyparviewMessage dec" where
  "dec_HyparviewMessage d = rbind (dec_varint d) (\<lambda>(kind, d').
     if kind = 0 then dec_map HyparviewJoin (dec_ptr dec_slice_bytes) d'
     else if kind = 1 then dec_map HyparviewForwardJoin dec_ForwardJoin d'
     else if kind = 2 then dec_map HyparviewShuffle dec_Shuffle d'
     else if kind = 3 then dec_map HyparviewShuffleReply dec_ShuffleReply d'
     else if kind = 4 then dec_map HyparviewNeighbor dec_Neighbor d'
     else if kind = 5 then dec_map HyparviewDisconnect dec_Disconnect d'
     else Inl (ErrUnknownVariant kind))"

fun enc_DeliveryScope :: "DeliveryScope \<Rightarrow> pc_error + bytes" where
  "enc_DeliveryScope (DeliveryScopeSwarm r) = enc_kind 0 (enc_uint r)"
| "enc_DeliveryScope DeliveryScopeNeighbors = enc_kind 1 (Inr [])"
| "enc_DeliveryScope (DeliveryScopeUnknown k) = Inl (ErrUnknownVariant k)"

definition dec_DeliveryScope :: "DeliveryScope dec" where
  "dec_DeliveryScope d = rbind (dec_varint d) (\<lambda>(kind, d').
     if kind = 0 then dec_map DeliveryScopeSwarm dec_uint d'
     else if kind = 1 then Inr (DeliveryScopeNeighbors, d')
     else Inl (ErrUnknownVariant kind))"

definition enc_Gossip :: "Gossip \<Rightarrow> pc_error + bytes" where
  "enc_Gossip g = enc_pair enc_raw (enc_pair enc_bytes enc_DeliveryScope) (g_ID g, g_Content g, g_Scope g)"

definition dec_Gossip :: "Gossip dec" where
  "dec_Gossip = dec_map (\<lambda>(i, c, s). \<lparr>g_ID = i, g_Content = c, g_Scope = s\<rparr>)
     (dec_pair (dec_raw 32) (dec_pair dec_slice_bytes dec_DeliveryScope))"

definition enc_IHave :: "IHave \<Rightarrow> pc_error + bytes" where
  "enc_IHave h = enc_pair enc_raw enc_uint (ih_ID h, ih_Round h)"

definition dec_IHave :: "IHave dec" where
  "dec_IHave = dec_map (\<lambda>(i, r). \<lparr>ih_ID = i, ih_Round = r\<rparr>) (dec_pair (dec_raw 32) dec_uint)"

definition enc_Graft :: "Graft \<Rightarrow> pc_error + bytes" where
  "enc_Graft g = enc_pair (enc_ptr enc_raw) enc_uint (gr_ID g, gr_Round g)"

definition dec_Graft :: "Graft dec" where
  "dec_Graft = dec_map (\<lambda>(i, r). \<lparr>gr_ID = i, gr_Round = r\<rparr>) (dec_pair (dec_ptr (dec_raw 32)) dec_uint)"

fun enc_PlumtreeMessage :: "PlumtreeMessage \<Rightarrow> pc_error + bytes" where
  "enc_PlumtreeMessage (PlumtreeGossip g) = enc_kind 0 (enc_Gossip g)"
| "enc_PlumtreeMessage PlumtreePrune = enc_kind 1 (Inr [])"
| "enc_PlumtreeMessage (PlumtreeGraft g) = enc_kind 2 (enc_Graft g)"
| "enc_PlumtreeMessage (PlumtreeIHave hs) = enc_kind 3 (enc_slice enc_IHave hs)"
| "enc_PlumtreeMessage (PlumtreeUnknown k) = Inl (ErrUnknownVariant k)"

definition dec_PlumtreeMessage :: "PlumtreeMessage dec" where
  "dec_PlumtreeMessage d = rbind (dec_varint d) (\<lambda>(kind, d').
     if kind = 0 then dec_map PlumtreeGossip dec_Gossip d'
     else if kind = 1 then Inr (PlumtreePrune, d')
     else if kind = 2 then dec_map PlumtreeGraft dec_Graft d'
     else if kind = 3 then dec_map PlumtreeIHave (dec_slice dec_IHave) d'
     else Inl (ErrUnknownVariant kind))"

fun enc_TopicMessage :: "TopicMessage \<Rightarrow> pc_error + bytes" where
  "enc_TopicMessage (TopicMessageSwarm m) = enc_kind 0 (enc_HyparviewMessage m)"
| "enc_TopicMessage (TopicMessageGossip m) = enc_kind 1 (enc_PlumtreeMessage m)"
| "enc_TopicMessage (TopicMessageUnknown k) = Inl (ErrUnknownVariant k)"

definition dec_TopicMessage :: "TopicMessage dec" where
  "dec_TopicMessage d = rbind (dec_varint d) (\<lambda>(kind, d').
     if kind = 0 then dec_map TopicMessageSwarm dec_HyparviewMessage d'
     else if kind = 1 then dec_map TopicMessageGossip dec_PlumtreeMessage d'
     else Inl (ErrUnknownVariant kind))"

definition enc_StreamHeader :: "StreamHeader \<Rightarrow> pc_error + bytes" where
  "enc_StreamHeader h = enc_raw (hdr_Topic h)"

definition dec_StreamHeader :: "StreamHeader dec" where
  "dec_StreamHeader = dec_map (\<lambda>t. \<lparr>hdr_Topic = t\<rparr>) (dec_raw 32)"

section \<open>Well-formed messages\<close>

definition ok_data :: "PeerData option \<Rightarrow> bool" where
  "ok_data = pred_option (\<lambda>b. length b \<le> maxInt)"

definition ok_PeerInfo :: "PeerInfo \<Rightarrow> bool" where
  "ok_PeerInfo p \<longleftrightarrow> length (pi_ID p) = 32 \<and> ok_data (pi_Data p)"

definition ok_nodes :: "PeerInfo list \<Rightarrow> bool" where
  "ok_nodes ns \<longleftrightarrow> list_all ok_PeerInfo ns \<and> length ns \<le> maxInt"

fun ok_HyparviewMessage :: "HyparviewMessage \<Rightarrow> bool" where
  "ok_HyparviewMessage (HyparviewJoin d) = ok_data d"
| "ok_HyparviewMessage (HyparviewForwardJoin m) = ok_PeerInfo (fj_Peer m)"
| "ok_HyparviewMessage (HyparviewShuffle m) = (length (sh_Origin m) = 32 \<and> ok_nodes (sh_Nodes m))"
| "ok_HyparviewMessage (HyparviewShuffleReply m) = ok_nodes (sr_Nodes m)"
| "ok_HyparviewMessage (HyparviewNeighbor m) = ok_data (nb_Data m)"
| "ok_HyparviewMessage (HyparviewDisconnect m) = True"
| "ok_HyparviewMessage (HyparviewUnknown k) = False"

fun ok_DeliveryScope :: "DeliveryScope \<Rightarrow> bool" where
  "ok_DeliveryScope (DeliveryScopeUnknown k) = False"
| "ok_DeliveryScope _ = True"

definition ok_Gossip :: "Gossip \<Rightarrow> bool" where
  "ok_Gossip g \<longleftrightarrow> length (g_ID g) = 32 \<and> length (g_Content g) \<le> maxInt \<and> ok_DeliveryScope (g_Scope g)"

definition ok_IHave :: "IHave \<Rightarrow> bool" where
  "ok_IHave h \<longleftrightarrow> length (ih_ID h) = 32"

definition ok_Graft :: "Graft \<Rightarrow> bool" where
  "ok_Graft g \<longleftrightarrow> pred_option (\<lambda>i. length i = 32) (gr_ID g)"

fun ok_PlumtreeMessage :: "PlumtreeMessage \<Rightarrow> bool" where
  "ok_PlumtreeMessage (PlumtreeGossip g) = ok_Gossip g"
| "ok_PlumtreeMessage PlumtreePrune = True"
| "ok_PlumtreeMessage (PlumtreeGraft g) = ok_Graft g"
| "ok_PlumtreeMessage (PlumtreeIHave hs) = (list_all ok_IHave hs \<and> length hs \<le> maxInt)"
| "ok_PlumtreeMessage (PlumtreeUnknown k) = False"

fun ok_TopicMessage :: "TopicMessage \<Rightarrow> bool" where
  "ok_TopicMessage (TopicMessageSwarm m) = ok_HyparviewMessage m"
| "ok_TopicMessage (TopicMessageGossip m) = ok_PlumtreeMessage m"
| "ok_TopicMessage (TopicMessageUnknown k) = False"

section \<open>The codecs keep the contract\<close>

interpretation pcPeerInfo_fields: pc_codec_pair
  enc_raw "dec_raw 32" "\<lambda>b. length b = 32"
  "enc_ptr enc_bytes" "dec_ptr dec_slice_bytes" "pred_option (\<lambda>b. length b \<le> maxInt)" ..

interpretation pcPeerInfo: pc_codec_ne enc_PeerInfo dec_PeerInfo ok_PeerInfo
  by (rule pc_structI [OF pcPeerInfo_fields.codec_pair_ne [OF pcid.pc_codec_ne_axioms],
        where fs = "\<lambda>p. (pi_ID p, pi_Data p)"
        and mk = "\<lambda>(i, d). \<lparr>pi_ID = i, pi_Data = d\<rparr>"])
    (auto simp: fun_eq_iff enc_PeerInfo_def dec_PeerInfo_def ok_PeerInfo_def ok_data_def)

interpretation pcNodes: pc_codec_ne "enc_slice enc_PeerInfo" "dec_slice dec_PeerInfo" ok_nodes
  using pcPeerInfo.codec_slice by (simp add: ok_nodes_def [abs_def])

interpretation pcForwardJoin: pc_codec_ne enc_ForwardJoin dec_ForwardJoin "\<lambda>f. ok_PeerInfo (fj_Peer f)"
  by (rule pc_structI [OF pc_codec_pair_neI [OF pcPeerInfo.pc_codec_axioms pcu16.pc_codec_axioms
          pcPeerInfo.pc_codec_ne_axioms], where fs = "\<lambda>f. (fj_Peer f, fj_Ttl f)"
        and mk = "\<lambda>(p, t). \<lparr>fj_Peer = p, fj_Ttl = t\<rparr>"])
    (auto simp: fun_eq_iff enc_ForwardJoin_def dec_ForwardJoin_def)

interpretation pcShuffle: pc_codec_ne enc_Shuffle dec_Shuffle
  "\<lambda>s. length (sh_Origin s) = 32 \<and> ok_nodes (sh_Nodes s)"
  by (rule pc_structI [OF pc_codec_pair_neI [OF pcid.pc_codec_axioms
          pc_codec_pairI [OF pcNodes.pc_codec_axioms pcu16.pc_codec_axioms] pcid.pc_codec_ne_axioms],
        where fs = "\<lambda>s. (sh_Origin s, sh_Nodes s, sh_Ttl s)"
        and mk = "\<lambda>(i, ns, t). \<lparr>sh_Origin = i, sh_Nodes = ns, sh_Ttl = t\<rparr>"])
    (auto simp: fun_eq_iff enc_Shuffle_def dec_Shuffle_def)

interpretation pcShuffleReply: pc_codec_ne enc_ShuffleReply dec_ShuffleReply "\<lambda>r. ok_nodes (sr_Nodes r)"
  by (rule pc_structI [OF pcNodes.pc_codec_ne_axioms, where fs = sr_Nodes and mk = "\<lambda>ns. \<lparr>sr_Nodes = ns\<rparr>"])
    (auto simp: fun_eq_iff enc_ShuffleReply_def dec_ShuffleReply_def)

interpretation pcNeighbor: pc_codec_ne enc_Neighbor dec_Neighbor "\<lambda>n. ok_data (nb_Data n)"
  by (rule pc_structI [OF pc_codec_pair_neI [OF pcu64.pc_codec_axioms pcopt.pc_codec_axioms
          pcu64.pc_codec_ne_axioms], where fs = "\<lambda>n. (nb_Priority n, nb_Data n)"
        and mk = "\<lambda>(p, d). \<lparr>nb_Priority = p, nb_Data = d\<rparr>"])
    (auto simp: fun_eq_iff enc_Neighbor_def dec_Neighbor_def ok_data_def)

interpretation pcDisconnect: pc_codec_ne enc_Disconnect dec_Disconnect "\<lambda>_. True"
  by (rule pc_structI [OF pc_codec_pair_neI [OF pcbool.pc_codec_axioms pcbool.pc_codec_axioms
          pcbool.pc_codec_ne_axioms], where fs = "\<lambda>d. (dc_Alive d, dc_Respond d)"
        and mk = "\<lambda>(a, r). \<lparr>dc_Alive = a, dc_Respond = r\<rparr>"])
    (auto simp: fun_eq_iff enc_Disconnect_def dec_Disconnect_def)

interpretation pcHyparview: pc_codec_ne enc_HyparviewMessage dec_HyparviewMessage ok_HyparviewMessage
proof (unfold_locales, goal_cases)
  case (1 m)
  then show ?case
    by (cases m) (auto intro!: enc_kind_total pcopt.enc_total pcForwardJoin.enc_total pcShuffle.enc_total
        pcShuffleReply.enc_total pcNeighbor.enc_total pcDisconnect.enc_total simp: ok_data_def)
next
  case (2 m b rest)
  then show ?case
    by (cases m) (auto simp: enc_kind_eq_Inr dec_map_def dec_HyparviewMessage_def pcopt.dec_enc'
        pcForwardJoin.dec_enc' pcShuffle.dec_enc' pcShuffleReply.dec_enc' pcNeighbor.dec_enc'
        pcDisconnect.dec_enc' ok_data_def)
next
  case (3 d m rest)
  then show ?case
    by (auto simp: dec_HyparviewMessage_def enum_simps ok_data_def split: if_splits
        dest!: dec_varint_sound pcopt.dec_sound pcForwardJoin.dec_sound pcShuffle.dec_sound
        pcShuffleReply.dec_sound pcNeighbor.dec_sound pcDisconnect.dec_sound)
next
  case (4 m)
  then show ?case by (cases m) (simp_all add: enc_kind_ne)
qed

interpretation pcScope: pc_codec_ne enc_DeliveryScope dec_DeliveryScope ok_DeliveryScope
proof (unfold_locales, goal_cases)
  case (1 m)
  then show ?case by (cases m) (auto intro!: enc_kind_total pcu16.enc_total)
next
  case (2 m b rest)
  then show ?case
    by (cases m) (auto simp: enc_kind_eq_Inr dec_map_def dec_DeliveryScope_def pcu16.dec_enc')
next
  case (3 d m rest)
  then show ?case
    by (auto simp: dec_DeliveryScope_def enum_simps split: if_splits
        dest!: dec_varint_sound pcu16.dec_sound)
next
  case (4 m)
  then show ?case by (cases m) (simp_all add: enc_kind_ne)
qed

interpretation pcGossip: pc_codec_ne enc_Gossip dec_Gossip ok_Gossip
  by (rule pc_structI [OF pc_codec_pair_neI [OF pcid.pc_codec_axioms
          pc_codec_pairI [OF pcbytes.pc_codec_axioms pcScope.pc_codec_axioms] pcid.pc_codec_ne_axioms],
        where fs = "\<lambda>g. (g_ID g, g_Content g, g_Scope g)"
        and mk = "\<lambda>(i, c, s). \<lparr>g_ID = i, g_Content = c, g_Scope = s\<rparr>"])
    (auto simp: fun_eq_iff enc_Gossip_def dec_Gossip_def ok_Gossip_def)

interpretation pcIHave: pc_codec_ne enc_IHave dec_IHave ok_IHave
  by (rule pc_structI [OF pc_codec_pair_neI [OF pcid.pc_codec_axioms pcu16.pc_codec_axioms
          pcid.pc_codec_ne_axioms], where fs = "\<lambda>h. (ih_ID h, ih_Round h)"
        and mk = "\<lambda>(i, r). \<lparr>ih_ID = i, ih_Round = r\<rparr>"])
    (auto simp: fun_eq_iff enc_IHave_def dec_IHave_def ok_IHave_def)

interpretation pcIHaves: pc_codec_ne "enc_slice enc_IHave" "dec_slice dec_IHave"
  "\<lambda>hs. list_all ok_IHave hs \<and> length hs \<le> maxInt"
  by (rule pcIHave.codec_slice)

interpretation pcGraft: pc_codec_ne enc_Graft dec_Graft ok_Graft
  by (rule pc_structI [OF pc_codec_pair_neI [OF
          pc_codec_ne.axioms(1) [OF pcid.codec_ptr] pcu16.pc_codec_axioms pcid.codec_ptr],
        where fs = "\<lambda>g. (gr_ID g, gr_Round g)"
        and mk = "\<lambda>(i, r). \<lparr>gr_ID = i, gr_Round = r\<rparr>"])
    (auto simp: fun_eq_iff enc_Graft_def dec_Graft_def ok_Graft_def)

interpretation pcPlumtree: pc_codec_ne enc_PlumtreeMessage dec_PlumtreeMessage ok_PlumtreeMessage
proof (unfold_locales, goal_cases)
  case (1 m)
  then show ?case
    by (cases m) (auto intro!: enc_kind_total pcGossip.enc_total pcGraft.enc_total pcIHaves.enc_total)
next
  case (2 m b rest)
  then show ?case
    by (cases m) (auto simp: enc_kind_eq_Inr dec_map_def dec_PlumtreeMessage_def pcGossip.dec_enc'
        pcGraft.dec_enc' pcIHaves.dec_enc')
next
  case (3 d m rest)
  then show ?case
    by (auto simp: dec_PlumtreeMessage_def enum_simps split: if_splits
        dest!: dec_varint_sound pcGossip.dec_sound pcGraft.dec_sound pcIHaves.dec_sound)
next
  case (4 m)
  then show ?case by (cases m) (simp_all add: enc_kind_ne)
qed

interpretation pcTopic: pc_codec_ne enc_TopicMessage dec_TopicMessage ok_TopicMessage
proof (unfold_locales, goal_cases)
  case (1 m)
  then show ?case
    by (cases m) (auto intro!: enc_kind_total pcHyparview.enc_total pcPlumtree.enc_total)
next
  case (2 m b rest)
  then show ?case
    by (cases m) (auto simp: enc_kind_eq_Inr dec_map_def dec_TopicMessage_def pcHyparview.dec_enc'
        pcPlumtree.dec_enc')
next
  case (3 d m rest)
  then show ?case
    by (auto simp: dec_TopicMessage_def enum_simps split: if_splits
        dest!: dec_varint_sound pcHyparview.dec_sound pcPlumtree.dec_sound)
next
  case (4 m)
  then show ?case by (cases m) (simp_all add: enc_kind_ne)
qed

interpretation pcHeader: pc_codec_ne enc_StreamHeader dec_StreamHeader "\<lambda>h. length (hdr_Topic h) = 32"
  by (rule pc_structI [OF pcid.pc_codec_ne_axioms, where fs = hdr_Topic and mk = "\<lambda>t. \<lparr>hdr_Topic = t\<rparr>"])
    (auto simp: fun_eq_iff enc_StreamHeader_def dec_StreamHeader_def)

section \<open>Frames\<close>

text \<open>
  \<open>frame.go\<close>.  \<open>WriteFrame\<close> yields the bytes it writes; \<open>ReadFrame\<close> reads from the bytes
  the stream delivers and returns the bytes after the frame.  An \<open>int\<close> has 64 bits, so the
  32-bit length always converts to a non-negative one.
\<close>

definition DefaultMaxMessageSize :: int where "DefaultMaxMessageSize = 4096"
definition MinMaxMessageSize :: int where "MinMaxMessageSize = 512"

datatype frame_error =
    ErrMarshal pc_error
  | ErrFrameTooLarge
  | ErrReadLength
  | ErrReadBody
  | ErrUnmarshal pc_error

definition NormalizeMaxMessageSize :: "int \<Rightarrow> int" where
  "NormalizeMaxMessageSize n =
     (if n \<le> 0 then DefaultMaxMessageSize
      else if n < MinMaxMessageSize then MinMaxMessageSize
      else n)"

definition WriteFrame :: "('a \<Rightarrow> pc_error + bytes) \<Rightarrow> 'a \<Rightarrow> int \<Rightarrow> frame_error + bytes" where
  "WriteFrame enc v maxSize0 =
     (let maxSize = NormalizeMaxMessageSize maxSize0 in
      case marshal enc v of
        Inl e \<Rightarrow> Inl (ErrMarshal e)
      | Inr b \<Rightarrow>
          if int (length b) \<ge> maxSize then Inl ErrFrameTooLarge
          else Inr (be32 (of_nat (length b)) @ b))"

definition ReadFrame :: "'a dec \<Rightarrow> int \<Rightarrow> bytes \<Rightarrow> frame_error + ('a \<times> bytes)" where
  "ReadFrame dec maxSize0 r =
     (let maxSize = NormalizeMaxMessageSize maxSize0 in
      case r of
        h0 # h1 # h2 # h3 # r' \<Rightarrow>
          (let n = unat (of_be32 h0 h1 h2 h3) in
           if int n > maxSize then Inl ErrFrameTooLarge
           else if length r' < n then Inl ErrReadBody
           else case unmarshal dec (take n r') of
                  Inl e \<Rightarrow> Inl (ErrUnmarshal e)
                | Inr v \<Rightarrow> Inr (v, drop n r'))
      | _ \<Rightarrow> Inl ErrReadLength)"

definition plumtreePayloadHeaderSize :: int where
  "plumtreePayloadHeaderSize =
     (case marshal enc_TopicMessage (TopicMessageGossip (PlumtreeGossip
             \<lparr>g_ID = replicate 32 0, g_Content = [], g_Scope = DeliveryScopeSwarm 0\<rparr>)) of
        Inl e \<Rightarrow> 0 | Inr b \<Rightarrow> int (length b))"

definition MaxPayloadSize :: "int \<Rightarrow> int" where
  "MaxPayloadSize maxMessageSize =
     (let n = NormalizeMaxMessageSize maxMessageSize - plumtreePayloadHeaderSize in
      if n < 0 then 0 else n)"

definition DefaultMaxPayloadSize :: int where
  "DefaultMaxPayloadSize = MaxPayloadSize DefaultMaxMessageSize"

lemma NormalizeMaxMessageSize_ge: "512 \<le> NormalizeMaxMessageSize n"
  by (simp add: NormalizeMaxMessageSize_def DefaultMaxMessageSize_def MinMaxMessageSize_def)

lemma plumtreePayloadHeaderSize_eq: "plumtreePayloadHeaderSize = 37"
  by (simp add: plumtreePayloadHeaderSize_def marshal_def enc_kind_def enc_Gossip_def enc_pair_def
      enc_raw_def enc_bytes_def enc_uint_def varint_small)

lemma MaxPayloadSize_eq: "MaxPayloadSize n = NormalizeMaxMessageSize n - 37"
  using NormalizeMaxMessageSize_ge [of n] by (simp add: MaxPayloadSize_def plumtreePayloadHeaderSize_eq)

context pc_codec
begin

lemma frame_roundtrip:
  assumes "ok v" and "NormalizeMaxMessageSize maxSize \<le> 2 ^ 32" and "WriteFrame enc v maxSize = Inr f"
  shows "ReadFrame dec maxSize (f @ rest) = Inr (v, rest)"
proof -
  obtain b where b: "marshal enc v = Inr b" "int (length b) < NormalizeMaxMessageSize maxSize"
    "f = be32 (of_nat (length b)) @ b"
    using assms(3) by (auto simp: WriteFrame_def Let_def split: sum.splits if_splits)
  have u: "unat (of_nat (length b) :: u32) = length b"
    using b(2) assms(2) by (simp add: unat_of_nat take_bit_eq_mod)
  then have "uint (of_nat (length b) :: u32) = int (length b)"
    by (metis uint_nat)
  with u show ?thesis
    using b unmarshal_marshal [OF assms(1) b(1)] by (simp add: ReadFrame_def be32_def Let_def)
qed

lemma frame_sound:
  assumes "ReadFrame dec maxSize r = Inr (v, rest)"
  shows "ok v \<and> (\<exists>b. marshal enc v = Inr b \<and> r = be32 (of_nat (length b)) @ b @ rest
           \<and> int (length b) \<le> NormalizeMaxMessageSize maxSize)"
proof -
  obtain h0 h1 h2 h3 r' where r: "r = h0 # h1 # h2 # h3 # r'"
    using assms by (auto simp: ReadFrame_def Let_def split: list.splits)
  define n where "n = unat (of_be32 h0 h1 h2 h3)"
  from assms have u: "unmarshal dec (take n r') = Inr v" "rest = drop n r'" "n \<le> length r'"
    "int n \<le> NormalizeMaxMessageSize maxSize"
    by (auto simp: ReadFrame_def r n_def Let_def split: if_splits sum.splits)
  have "be32 (of_nat (length (take n r'))) = [h0, h1, h2, h3]"
    using u(3) by (simp add: n_def)
  with u r marshal_unmarshal [OF u(1)] show ?thesis by auto
qed

end

end
