(* ===== verification/Hyparview.thy ===== *)
theory Hyparview
  imports Gossip_Wire
begin

text \<open>
  \<open>internal/gossipproto/hyparview.go\<close>: the HyParView membership state machine.  Every method of
  \<open>HyparviewState\<close> is a function on the pair of the state and the outputs appended so far (the
  Go parameter \<open>out *[]HyparviewOutEvent\<close>).  The random source is the list of its draws.
  The counts \<open>ShuffleActiveViewCount\<close> and \<open>ShufflePassiveViewCount\<close> are natural numbers: the Go
  slice expression \<open>peers[:n]\<close> panics on a negative one.  \<open>clonePeerData\<close> and
  \<open>clonePeerDataPtr\<close> copy and are the identity on values.

  The invariant \<open>hv_inv\<close> says that the two views are duplicate-free, disjoint, do not contain
  the local peer and respect their capacities; \<open>hv_tracks\<close> says that the emitted neighbour
  events are exactly the changes of the active view.
\<close>

section \<open>Configuration, events and state\<close>

record HyparviewConfig =
  ActiveViewCapacity :: int
  PassiveViewCapacity :: int
  ActiveRandomWalkLength :: Ttl
  PassiveRandomWalkLength :: Ttl
  ShuffleRandomWalkLength :: Ttl
  ShuffleActiveViewCount :: nat
  ShufflePassiveViewCount :: nat
  ShuffleInterval :: duration
  NeighborRequestTimeout :: duration

definition DefaultHyparviewConfig :: HyparviewConfig where
  "DefaultHyparviewConfig =
     \<lparr>ActiveViewCapacity = 5, PassiveViewCapacity = 30, ActiveRandomWalkLength = 6,
      PassiveRandomWalkLength = 3, ShuffleRandomWalkLength = 6, ShuffleActiveViewCount = 3,
      ShufflePassiveViewCount = 4, ShuffleInterval = minute,
      NeighborRequestTimeout = 500 * millisecond\<rparr>"

definition zeroHyparviewConfig :: HyparviewConfig where
  "zeroHyparviewConfig =
     \<lparr>ActiveViewCapacity = 0, PassiveViewCapacity = 0, ActiveRandomWalkLength = 0,
      PassiveRandomWalkLength = 0, ShuffleRandomWalkLength = 0, ShuffleActiveViewCount = 0,
      ShufflePassiveViewCount = 0, ShuffleInterval = 0, NeighborRequestTimeout = 0\<rparr>"

datatype HyparviewTimer =
    HyparviewTimerDoShuffle
  | HyparviewTimerPendingNeighborRequest PeerID

datatype HyparviewInEvent =
    HyparviewRecvMessage PeerID HyparviewMessage
  | HyparviewTimerExpired HyparviewTimer
  | HyparviewPeerDisconnected PeerID
  | HyparviewRequestJoin PeerID
  | HyparviewUpdatePeerData "PeerData option"
  | HyparviewQuit

datatype HyparviewEvent =
    HyparviewNeighborUp PeerID
  | HyparviewNeighborDown PeerID

datatype HyparviewOutEvent =
    HyparviewSendMessage PeerID HyparviewMessage
  | HyparviewScheduleTimer duration HyparviewTimer
  | HyparviewDisconnectPeer PeerID
  | HyparviewEmitEvent HyparviewEvent
  | HyparviewPeerData PeerID PeerData

record HyparviewStats =
  TotalConnections :: int

record HyparviewState =
  hv_me :: PeerID
  hv_meData :: "PeerData option"
  hv_config :: HyparviewConfig
  hv_rand :: rand
  hv_active :: "PeerID list"
  hv_passive :: "PeerID list"
  hv_shuffleScheduled :: bool
  hv_stats :: HyparviewStats
  hv_pendingNeighbor :: "PeerID list"
  hv_peerData :: "(PeerID, PeerData) gomap"
  hv_aliveDisconnect :: "PeerID list"

type_synonym hv = "HyparviewState \<times> HyparviewOutEvent list"

definition effectiveConfig :: "HyparviewConfig \<Rightarrow> HyparviewConfig" where
  "effectiveConfig config = (if config = zeroHyparviewConfig then DefaultHyparviewConfig else config)"

definition NewHyparviewStateWithRand ::
    "PeerID \<Rightarrow> PeerData option \<Rightarrow> HyparviewConfig \<Rightarrow> rand \<Rightarrow> HyparviewState" where
  "NewHyparviewStateWithRand me data config r =
     \<lparr>hv_me = me, hv_meData = data,
      hv_config = effectiveConfig config,
      hv_rand = r, hv_active = [], hv_passive = [], hv_shuffleScheduled = False,
      hv_stats = \<lparr>TotalConnections = 0\<rparr>, hv_pendingNeighbor = [], hv_peerData = [],
      hv_aliveDisconnect = []\<rparr>"

definition ActivePeers :: "HyparviewState \<Rightarrow> PeerID list" where
  "ActivePeers s = hv_active s"

definition PassivePeers :: "HyparviewState \<Rightarrow> PeerID list" where
  "PassivePeers s = hv_passive s"

section \<open>Peer lists\<close>

fun peerList_contains :: "PeerID list \<Rightarrow> PeerID \<Rightarrow> bool" where
  "peerList_contains [] peer = False"
| "peerList_contains (p # l) peer = (if p = peer then True else peerList_contains l peer)"

definition peerList_insert :: "PeerID list \<Rightarrow> PeerID \<Rightarrow> PeerID list \<times> bool" where
  "peerList_insert l peer = (if peerList_contains l peer then (l, False) else (l @ [peer], True))"

fun peerList_remove :: "PeerID list \<Rightarrow> PeerID \<Rightarrow> PeerID list \<times> bool" where
  "peerList_remove [] peer = ([], False)"
| "peerList_remove (p # l) peer =
     (if p = peer then (l, True)
      else let (l', removed) = peerList_remove l peer in (p # l', removed))"

fun peerIn :: "PeerID \<Rightarrow> PeerID list \<Rightarrow> bool" where
  "peerIn peer [] = False"
| "peerIn peer (p # peers) = (if p = peer then True else peerIn peer peers)"

definition peerList_without :: "PeerID list \<Rightarrow> PeerID list \<Rightarrow> PeerID list" where
  "peerList_without l skip = filter (\<lambda>peer. \<not> peerIn peer skip) l"

definition peerList_random :: "PeerID list \<Rightarrow> rand \<Rightarrow> PeerID option \<times> rand" where
  "peerList_random l r =
     (if length l = 0 then (None, r) else let (i, r') = intn r (length l) in (Some (l ! i), r'))"

definition peerList_randomWithout :: "PeerID list \<Rightarrow> rand \<Rightarrow> PeerID list \<Rightarrow> PeerID option \<times> rand" where
  "peerList_randomWithout l r skip =
     (let peers = peerList_without l skip in
      if length peers = 0 then (None, r)
      else let (i, r') = intn r (length peers) in (Some (peers ! i), r'))"

definition peerList_shuffledWithoutN ::
    "PeerID list \<Rightarrow> rand \<Rightarrow> nat \<Rightarrow> PeerID list \<Rightarrow> PeerID list \<times> rand" where
  "peerList_shuffledWithoutN l r n skip =
     (let peers = peerList_without l skip;
          n' = (if n > length peers then length peers else n);
          (peers', r') = shuffle r peers
      in (take n' peers', r'))"

definition peerList_shuffledN :: "PeerID list \<Rightarrow> rand \<Rightarrow> int \<Rightarrow> PeerID list \<times> rand" where
  "peerList_shuffledN l r n = (if n \<le> 0 then ([], r) else peerList_shuffledWithoutN l r (nat n) [])"

section \<open>Sending\<close>

text \<open>\<open>*out = append(*out, ev)\<close>.\<close>

fun emit :: "HyparviewOutEvent \<Rightarrow> hv \<Rightarrow> hv" where
  "emit ev (s, out) = (s, out @ [ev])"

definition isPending :: "HyparviewState \<Rightarrow> PeerID \<Rightarrow> bool" where
  "isPending s peer \<longleftrightarrow> peer \<in> set (hv_pendingNeighbor s)"

fun forgetPending :: "PeerID \<Rightarrow> hv \<Rightarrow> hv" where
  "forgetPending peer (s, out) = (s\<lparr>hv_pendingNeighbor := sdel peer (hv_pendingNeighbor s)\<rparr>, out)"

fun sendNeighbor :: "PeerID \<Rightarrow> Priority \<Rightarrow> hv \<Rightarrow> hv" where
  "sendNeighbor peer priority (s, out) =
     (if isPending s peer then (s, out)
      else (s\<lparr>hv_pendingNeighbor := sadd peer (hv_pendingNeighbor s)\<rparr>,
            out @ [HyparviewSendMessage peer
                     (HyparviewNeighbor \<lparr>nb_Priority = priority, nb_Data = hv_meData s\<rparr>)]))"

fun insertPeerInfo :: "PeerInfo \<Rightarrow> hv \<Rightarrow> hv" where
  "insertPeerInfo info (s, out) =
     (case pi_Data info of
        None \<Rightarrow> (s, out)
      | Some data \<Rightarrow>
          (s\<lparr>hv_peerData := mput (pi_ID info) data (hv_peerData s)\<rparr>,
           (if map_of (hv_peerData s) (pi_ID info) \<noteq> Some data \<and> length data \<noteq> 0
            then out @ [HyparviewPeerData (pi_ID info) data] else out)))"

definition peerInfo :: "HyparviewState \<Rightarrow> PeerID \<Rightarrow> PeerInfo" where
  "peerInfo s i = \<lparr>pi_ID = i, pi_Data = map_of (hv_peerData s) i\<rparr>"

fun sendShuffleReply :: "PeerID \<Rightarrow> int \<Rightarrow> hv \<Rightarrow> hv" where
  "sendShuffleReply to n (s, out) =
     (let (ps, r1) = peerList_shuffledN (hv_passive s) (hv_rand s) n;
          nodes1 = map (peerInfo s) ps;
          (as, r2) = peerList_shuffledN (hv_active s) r1 (n - int (length nodes1));
          nodes = nodes1 @ map (peerInfo s) as
      in (s\<lparr>hv_rand := r2\<rparr>, out @ [HyparviewSendMessage to (HyparviewShuffleReply \<lparr>sr_Nodes = nodes\<rparr>)]))"

fun sendDisconnect :: "PeerID \<Rightarrow> bool \<Rightarrow> hv \<Rightarrow> hv" where
  "sendDisconnect peer alive (s, out) =
     emit (HyparviewDisconnectPeer peer)
       (emit (HyparviewSendMessage peer (HyparviewDisconnect \<lparr>dc_Alive = alive, dc_Respond = False\<rparr>))
         (sendShuffleReply peer
           (int (ShuffleActiveViewCount (hv_config s) + ShufflePassiveViewCount (hv_config s))) (s, out)))"

section \<open>The views\<close>

definition evictPassive :: "HyparviewState \<Rightarrow> HyparviewState" where
  "evictPassive s =
     (if int (length (hv_passive s)) \<ge> PassiveViewCapacity (hv_config s)
      then case peerList_random (hv_passive s) (hv_rand s) of
             (Some old, r) \<Rightarrow> s\<lparr>hv_rand := r, hv_passive := fst (peerList_remove (hv_passive s) old)\<rparr>
           | (None, r) \<Rightarrow> s\<lparr>hv_rand := r\<rparr>
      else s)"

fun addPassive :: "PeerID \<Rightarrow> PeerData option \<Rightarrow> hv \<Rightarrow> hv" where
  "addPassive peer data x =
     (let (s, out) = insertPeerInfo \<lparr>pi_ID = peer, pi_Data = data\<rparr> x in
      if peer = hv_me s \<or> peerList_contains (hv_active s) peer \<or> peerList_contains (hv_passive s) peer
      then (s, out)
      else
        let s' = evictPassive s
        in (s'\<lparr>hv_passive := fst (peerList_insert (hv_passive s') peer)\<rparr>, out))"

fun refillActiveFromPassive :: "PeerID list \<Rightarrow> hv \<Rightarrow> hv" where
  "refillActiveFromPassive skip (s, out) =
     (if int (length (hv_active s) + length (hv_pendingNeighbor s)) \<ge> ActiveViewCapacity (hv_config s)
      then (s, out)
      else
        let allSkip = skip @ hv_pendingNeighbor s;
            (next, r) = peerList_randomWithout (hv_passive s) (hv_rand s) allSkip;
            s' = s\<lparr>hv_rand := r\<rparr>
        in case next of
             None \<Rightarrow> (s', out)
           | Some peer \<Rightarrow>
               emit (HyparviewScheduleTimer (NeighborRequestTimeout (hv_config s))
                       (HyparviewTimerPendingNeighborRequest peer))
                 (sendNeighbor peer (if length (hv_active s) = 0 then PriorityHigh else PriorityLow) (s', out)))"

datatype removalReason = removalConnectionClosed | removalDisconnectReceived | removalRandom

fun keepPassive :: "PeerID \<Rightarrow> removalReason \<Rightarrow> bool \<Rightarrow> HyparviewState \<Rightarrow> bool \<times> HyparviewState" where
  "keepPassive peer removalConnectionClosed alive s =
     (peer \<in> set (hv_aliveDisconnect s), s\<lparr>hv_aliveDisconnect := sdel peer (hv_aliveDisconnect s)\<rparr>)"
| "keepPassive peer removalDisconnectReceived alive s = (alive, s)"
| "keepPassive peer removalRandom alive s = (True, s)"

fun moveToPassive :: "PeerID \<Rightarrow> removalReason \<Rightarrow> hv \<Rightarrow> hv" where
  "moveToPassive peer reason (s, out) =
     (let (s', out') = addPassive peer (map_of (hv_peerData s) peer)
            (s\<lparr>hv_peerData := mdel peer (hv_peerData s)\<rparr>, out)
      in if reason \<noteq> removalConnectionClosed
         then (s'\<lparr>hv_aliveDisconnect := sadd peer (hv_aliveDisconnect s')\<rparr>, out')
         else (s', out'))"

fun removeActive :: "PeerID \<Rightarrow> removalReason \<Rightarrow> bool \<Rightarrow> bool \<Rightarrow> hv \<Rightarrow> hv" where
  "removeActive peer reason alive refill (s, out) =
     (let (active, removed) = peerList_remove (hv_active s) peer in
      if \<not> removed then (s, out)
      else
        let x1 = emit (HyparviewEmitEvent (HyparviewNeighborDown peer))
                   (forgetPending peer (s\<lparr>hv_active := active\<rparr>, out));
            (s2, out2) =
              (if reason = removalRandom then sendDisconnect peer True x1
               else emit (HyparviewDisconnectPeer peer) x1);
            (keep, s3) = keepPassive peer reason alive s2;
            x4 = (if keep then moveToPassive peer reason (s3, out2) else (s3, out2))
        in if refill then refillActiveFromPassive [peer] x4 else x4)"

fun evictActive :: "hv \<Rightarrow> hv" where
  "evictActive (s, out) =
     (if int (length (hv_active s)) \<ge> ActiveViewCapacity (hv_config s)
      then case peerList_random (hv_active s) (hv_rand s) of
             (Some old, r) \<Rightarrow> removeActive old removalRandom False False (s\<lparr>hv_rand := r\<rparr>, out)
           | (None, r) \<Rightarrow> (s\<lparr>hv_rand := r\<rparr>, out)
      else (s, out))"

fun insertActive :: "PeerID \<Rightarrow> Priority \<Rightarrow> bool \<Rightarrow> hv \<Rightarrow> hv" where
  "insertActive peer priority reply (s, out) =
     (let passive = fst (peerList_remove (hv_passive s) peer);
          (active, inserted) = peerList_insert (hv_active s) peer;
          s' = s\<lparr>hv_passive := passive, hv_active := active\<rparr>
      in if inserted
         then let x = emit (HyparviewEmitEvent (HyparviewNeighborUp peer)) (s', out)
              in if reply then sendNeighbor peer priority x else x
         else (s', out))"

fun addActive :: "PeerID \<Rightarrow> PeerData option \<Rightarrow> Priority \<Rightarrow> bool \<Rightarrow> hv \<Rightarrow> bool \<times> hv" where
  "addActive peer data priority reply x0 =
     (if peer = hv_me (fst x0) then (False, x0)
      else
        let (s, out) = insertPeerInfo \<lparr>pi_ID = peer, pi_Data = data\<rparr> x0 in
        if peerList_contains (hv_active s) peer
        then (True, if reply then sendNeighbor peer priority (s, out) else (s, out))
        else if priority = PriorityLow
                \<and> int (length (hv_active s)) \<ge> ActiveViewCapacity (hv_config s)
        then (False, (s, out))
        else (True, insertActive peer priority reply (evictActive (s, out))))"

section \<open>Messages\<close>

fun sendForwardJoins :: "PeerInfo \<Rightarrow> PeerID list \<Rightarrow> hv \<Rightarrow> hv" where
  "sendForwardJoins info nodes (s, out) =
     (s, out @ map (\<lambda>node. HyparviewSendMessage node
       (HyparviewForwardJoin \<lparr>fj_Peer = info, fj_Ttl = ActiveRandomWalkLength (hv_config s)\<rparr>)) nodes)"

fun onJoin :: "PeerID \<Rightarrow> PeerData option \<Rightarrow> hv \<Rightarrow> hv" where
  "onJoin peer data x =
     (let (_, x') = addActive peer data PriorityHigh True (forgetPending peer x) in
      sendForwardJoins \<lparr>pi_ID = peer, pi_Data = data\<rparr>
        (peerList_without (hv_active (fst x')) [peer]) x')"

fun forwardWalk :: "PeerID \<Rightarrow> ForwardJoin \<Rightarrow> hv \<Rightarrow> hv" where
  "forwardWalk sender message (s, out) =
     (let (next, r) = peerList_randomWithout (hv_active s) (hv_rand s) [sender];
          s' = s\<lparr>hv_rand := r\<rparr>
      in case next of
           None \<Rightarrow> (s', out)
         | Some n \<Rightarrow> (s', out @ [HyparviewSendMessage n
             (HyparviewForwardJoin (message\<lparr>fj_Ttl := fj_Ttl message - 1\<rparr>))]))"

fun onForwardJoin :: "PeerID \<Rightarrow> ForwardJoin \<Rightarrow> hv \<Rightarrow> hv" where
  "onForwardJoin sender message x0 =
     (let peer = pi_ID (fj_Peer message);
          x = forgetPending peer x0;
          s = fst x
      in if peerList_contains (hv_active s) peer
         then sendNeighbor peer PriorityHigh (insertPeerInfo (fj_Peer message) x)
         else if fj_Ttl message = 0 \<or> length (hv_active s) \<le> 1
         then sendNeighbor peer PriorityHigh (insertPeerInfo (fj_Peer message) x)
         else forwardWalk sender message
                (if fj_Ttl message = PassiveRandomWalkLength (hv_config s)
                 then addPassive peer (pi_Data (fj_Peer message)) x else x))"

fun onNeighbor :: "PeerID \<Rightarrow> Neighbor \<Rightarrow> hv \<Rightarrow> hv" where
  "onNeighbor sender details x =
     (let isReply = isPending (fst x) sender;
          (added, x') = addActive sender (nb_Data details) (nb_Priority details) (\<not> isReply)
            (forgetPending sender x)
      in if \<not> added then sendDisconnect sender True x' else x')"

fun onDisconnect :: "PeerID \<Rightarrow> Disconnect \<Rightarrow> hv \<Rightarrow> hv" where
  "onDisconnect peer details x =
     (let (s, out) = forgetPending peer x in
      if peerList_contains (hv_active s) peer
      then removeActive peer removalDisconnectReceived (dc_Alive details) True (s, out)
      else if dc_Alive details \<and> peerList_contains (hv_passive s) peer
      then (s\<lparr>hv_aliveDisconnect := sadd peer (hv_aliveDisconnect s)\<rparr>, out)
      else (s, out))"

fun addPassives :: "PeerInfo list \<Rightarrow> hv \<Rightarrow> hv" where
  "addPassives [] x = x"
| "addPassives (node # nodes) x = addPassives nodes (addPassive (pi_ID node) (pi_Data node) x)"

fun onShuffle :: "PeerID \<Rightarrow> Shuffle \<Rightarrow> hv \<Rightarrow> hv" where
  "onShuffle sender m (s, out) =
     (if sh_Ttl m = 0 \<or> length (hv_active s) \<le> 1
      then sendShuffleReply (sh_Origin m) (int (length (sh_Nodes m)))
             (addPassives (sh_Nodes m) (s, out))
      else
        let (next, r) = peerList_randomWithout (hv_active s) (hv_rand s) [sh_Origin m, sender];
            s' = s\<lparr>hv_rand := r\<rparr>
        in case next of
             None \<Rightarrow> (s', out)
           | Some n \<Rightarrow> (s', out @ [HyparviewSendMessage n
               (HyparviewShuffle (m\<lparr>sh_Ttl := sh_Ttl m - 1\<rparr>))]))"

fun onShuffleReply :: "ShuffleReply \<Rightarrow> hv \<Rightarrow> hv" where
  "onShuffleReply reply x = refillActiveFromPassive [] (addPassives (sr_Nodes reply) x)"

fun countConnection :: "PeerID \<Rightarrow> bool \<Rightarrow> hv \<Rightarrow> hv" where
  "countConnection sender isDisconnect (s, out) =
     (if \<not> isDisconnect \<and> \<not> peerList_contains (hv_active s) sender
      then (s\<lparr>hv_stats := \<lparr>TotalConnections = TotalConnections (hv_stats s) + 1\<rparr>\<rparr>, out)
      else (s, out))"

fun isDisconnectMessage :: "HyparviewMessage \<Rightarrow> bool" where
  "isDisconnectMessage (HyparviewDisconnect d) = True"
| "isDisconnectMessage _ = False"

fun dispatchMessage :: "PeerID \<Rightarrow> HyparviewMessage \<Rightarrow> hv \<Rightarrow> hv" where
  "dispatchMessage sender (HyparviewJoin data) x = onJoin sender data x"
| "dispatchMessage sender (HyparviewForwardJoin m) x = onForwardJoin sender m x"
| "dispatchMessage sender (HyparviewShuffle m) x = onShuffle sender m x"
| "dispatchMessage sender (HyparviewShuffleReply m) x = onShuffleReply m x"
| "dispatchMessage sender (HyparviewNeighbor m) x = onNeighbor sender m x"
| "dispatchMessage sender (HyparviewDisconnect m) x = onDisconnect sender m x"
| "dispatchMessage sender (HyparviewUnknown k) x = x"

fun handleMessage :: "PeerID \<Rightarrow> HyparviewMessage \<Rightarrow> hv \<Rightarrow> hv" where
  "handleMessage sender message x =
     (let isDisconnect = isDisconnectMessage message;
          (s, out) = dispatchMessage sender message (countConnection sender isDisconnect x)
      in if \<not> isDisconnect \<and> \<not> peerList_contains (hv_active s) sender
         then (s, out @ [HyparviewDisconnectPeer sender])
         else (s, out))"

section \<open>Timers, joins and quitting\<close>

fun handleJoin :: "PeerID \<Rightarrow> hv \<Rightarrow> hv" where
  "handleJoin peer (s, out) = (s, out @ [HyparviewSendMessage peer (HyparviewJoin (hv_meData s))])"

fun handleConnectionClosed :: "PeerID \<Rightarrow> hv \<Rightarrow> hv" where
  "handleConnectionClosed peer x =
     (let (s, out) = forgetPending peer x in
      if peerList_contains (hv_active s) peer
      then removeActive peer removalConnectionClosed False True (s, out)
      else if peer \<in> set (hv_aliveDisconnect s)
      then (s\<lparr>hv_aliveDisconnect := sdel peer (hv_aliveDisconnect s)\<rparr>, out)
      else (s\<lparr>hv_passive := fst (peerList_remove (hv_passive s) peer),
             hv_peerData := mdel peer (hv_peerData s)\<rparr>, out))"

fun quitPeers :: "PeerID list \<Rightarrow> hv \<Rightarrow> hv" where
  "quitPeers [] x = x"
| "quitPeers (peer # peers) (s, out) =
     quitPeers peers
       (sendDisconnect peer False (s\<lparr>hv_active := fst (peerList_remove (hv_active s) peer)\<rparr>, out))"

fun handleQuit :: "hv \<Rightarrow> hv" where
  "handleQuit x = quitPeers (hv_active (fst x)) x"

fun handleShuffleTimer :: "hv \<Rightarrow> hv" where
  "handleShuffleTimer (s, out) =
     (let (next, r) = peerList_random (hv_active s) (hv_rand s);
          x = (case next of
             None \<Rightarrow> (s\<lparr>hv_rand := r\<rparr>, out)
           | Some node \<Rightarrow>
               let (as, r1) = peerList_shuffledWithoutN (hv_active s) r
                     (ShuffleActiveViewCount (hv_config s)) [node];
                   (ps, r2) = peerList_shuffledWithoutN (hv_passive s) r1
                     (ShufflePassiveViewCount (hv_config s)) [node];
                   nodes = map (peerInfo s) as @ map (peerInfo s) ps
                     @ [\<lparr>pi_ID = hv_me s, pi_Data = hv_meData s\<rparr>]
               in (s\<lparr>hv_rand := r2\<rparr>, out @ [HyparviewSendMessage node (HyparviewShuffle
                    \<lparr>sh_Origin = hv_me s, sh_Nodes = nodes,
                     sh_Ttl = ShuffleRandomWalkLength (hv_config s)\<rparr>)]))
      in emit (HyparviewScheduleTimer (ShuffleInterval (hv_config s)) HyparviewTimerDoShuffle) x)"

fun handlePendingNeighborTimer :: "PeerID \<Rightarrow> hv \<Rightarrow> hv" where
  "handlePendingNeighborTimer peer (s, out) =
     (if \<not> isPending s peer then (s, out)
      else refillActiveFromPassive []
             (s\<lparr>hv_pendingNeighbor := sdel peer (hv_pendingNeighbor s),
                hv_passive := fst (peerList_remove (hv_passive s) peer)\<rparr>, out))"

definition forgetStrangers :: "HyparviewState \<Rightarrow> HyparviewState" where
  "forgetStrangers s = s\<lparr>hv_peerData := mfilter (\<lambda>peer _.
     \<not> (\<not> isPending s peer \<and> \<not> peerList_contains (hv_active s) peer
        \<and> \<not> peerList_contains (hv_passive s) peer)) (hv_peerData s)\<rparr>"

fun dispatchEvent :: "HyparviewInEvent \<Rightarrow> hv \<Rightarrow> hv" where
  "dispatchEvent (HyparviewRecvMessage sender m) x = handleMessage sender m x"
| "dispatchEvent (HyparviewTimerExpired HyparviewTimerDoShuffle) x = handleShuffleTimer x"
| "dispatchEvent (HyparviewTimerExpired (HyparviewTimerPendingNeighborRequest peer)) x =
     handlePendingNeighborTimer peer x"
| "dispatchEvent (HyparviewPeerDisconnected peer) x = handleConnectionClosed peer x"
| "dispatchEvent (HyparviewRequestJoin peer) x = handleJoin peer x"
| "dispatchEvent (HyparviewUpdatePeerData data) (s, out) = (s\<lparr>hv_meData := data\<rparr>, out)"
| "dispatchEvent HyparviewQuit x = handleQuit x"

definition HyparviewState_Handle :: "HyparviewState \<Rightarrow> HyparviewInEvent \<Rightarrow> HyparviewState \<times> HyparviewOutEvent list" where
  "HyparviewState_Handle s0 ev =
     (let (s, out) = dispatchEvent ev (s0, []);
          (s1, out1) =
            (if \<not> hv_shuffleScheduled s
             then (s\<lparr>hv_shuffleScheduled := True\<rparr>,
                   out @ [HyparviewScheduleTimer (ShuffleInterval (hv_config s)) HyparviewTimerDoShuffle])
             else (s, out))
      in (forgetStrangers s1, out1))"

end
