(* ===== verification/Hyparview_Views.thy ===== *)
theory Hyparview_Views
  imports Hyparview
begin

text \<open>
  The views of the HyParView machine.  The invariant \<open>hv_inv\<close> says that the two views are
  duplicate-free, disjoint, do not contain the local peer and respect their capacities.
  \<open>hv_ok V x\<close> adds that the neighbour events emitted so far turn the set \<open>V\<close> into the active view.
  Every operation of the machine keeps \<open>hv_ok\<close>; the machine is an instance of \<open>io_machine\<close>.
\<close>

section \<open>The invariant of the views\<close>

definition hv_inv :: "HyparviewState \<Rightarrow> bool" where
  "hv_inv s \<longleftrightarrow>
     distinct (hv_active s) \<and> distinct (hv_passive s) \<and>
     set (hv_active s) \<inter> set (hv_passive s) = {} \<and>
     hv_me s \<notin> set (hv_active s) \<and> hv_me s \<notin> set (hv_passive s) \<and>
     int (length (hv_active s)) \<le> max 1 (ActiveViewCapacity (hv_config s)) \<and>
     int (length (hv_passive s)) \<le> max 1 (PassiveViewCapacity (hv_config s)) \<and>
     distinct (hv_pendingNeighbor s) \<and> distinct (hv_aliveDisconnect s) \<and> mwf (hv_peerData s)"

text \<open>
  The view a client computes from the neighbour events: \<open>NeighborUp\<close> adds a peer that is not in
  it, \<open>NeighborDown\<close> removes one that is; anything else is not a history of a set.
\<close>

fun neighbours :: "PeerID set \<Rightarrow> HyparviewOutEvent list \<Rightarrow> PeerID set option" where
  "neighbours V [] = Some V"
| "neighbours V (HyparviewEmitEvent (HyparviewNeighborUp p) # es) =
     (if p \<in> V then None else neighbours (insert p V) es)"
| "neighbours V (HyparviewEmitEvent (HyparviewNeighborDown p) # es) =
     (if p \<in> V then neighbours (V - {p}) es else None)"
| "neighbours V (HyparviewSendMessage p m # es) = neighbours V es"
| "neighbours V (HyparviewScheduleTimer d t # es) = neighbours V es"
| "neighbours V (HyparviewDisconnectPeer p # es) = neighbours V es"
| "neighbours V (HyparviewPeerData p d # es) = neighbours V es"

definition hv_ok :: "PeerID set \<Rightarrow> hv \<Rightarrow> bool" where
  "hv_ok V x \<longleftrightarrow> hv_inv (fst x) \<and> neighbours V (snd x) = Some (set (hv_active (fst x)))"

text \<open>The identity and the configuration: no operation changes them.\<close>

definition env :: "HyparviewState \<Rightarrow> PeerID \<times> HyparviewConfig" where
  "env s = (hv_me s, hv_config s)"

definition isQuit :: "HyparviewInEvent \<Rightarrow> bool" where
  "isQuit ev \<longleftrightarrow> ev = HyparviewQuit"

text \<open>A small run for the examples: a peer with the default configuration that two peers join.\<close>

definition demo_new :: HyparviewState where
  "demo_new = NewHyparviewStateWithRand [0] None DefaultHyparviewConfig [3, 1, 4]"

definition demo_joined :: HyparviewState where
  "demo_joined = fst (run_machine HyparviewState_Handle demo_new
     [HyparviewRecvMessage [1] (HyparviewJoin (Some [7])), HyparviewRecvMessage [2] (HyparviewJoin None)])"

section \<open>Facts about peer lists\<close>

lemma peerList_contains_iff [simp]: "peerList_contains l p \<longleftrightarrow> p \<in> set l"
  by (induction l) auto

lemma peerIn_iff [simp]: "peerIn p l \<longleftrightarrow> p \<in> set l"
  by (induction l) auto

lemma peerList_remove_eq [simp]: "peerList_remove l p = (remove1 p l, p \<in> set l)"
  by (induction l) auto

lemma peerList_insert_eq [simp]:
  "peerList_insert l p = (if p \<in> set l then (l, False) else (l @ [p], True))"
  by (simp add: peerList_insert_def)

lemma peerList_without_eq [simp]: "peerList_without l skip = filter (\<lambda>p. p \<notin> set skip) l"
  by (simp add: peerList_without_def)

lemma peerList_random_Some: "peerList_random l r = (Some p, r') \<Longrightarrow> p \<in> set l"
  using intn_less [of "length l" r]
  by (auto simp: peerList_random_def split: if_splits prod.splits)

lemma peerList_random_None: "peerList_random l r = (None, r') \<longleftrightarrow> l = [] \<and> r' = r"
  by (auto simp: peerList_random_def split: if_splits prod.splits)

lemma peerList_randomWithout_Some:
  assumes "peerList_randomWithout l r skip = (Some p, r')"
  shows "p \<in> set l" "p \<notin> set skip"
proof -
  let ?ps = "filter (\<lambda>p. p \<notin> set skip) l"
  have "fst (intn r (length ?ps)) < length ?ps" "p = ?ps ! fst (intn r (length ?ps))"
    using assms intn_less [of "length ?ps" r]
    by (auto simp: peerList_randomWithout_def Let_def split: if_splits prod.splits)
  hence "p \<in> set ?ps" by (metis nth_mem)
  thus "p \<in> set l" "p \<notin> set skip" by auto
qed

lemma fst_peerList_shuffledWithoutN:
  "fst (peerList_shuffledWithoutN l r n skip) =
     take (min n (length (filter (\<lambda>p. p \<notin> set skip) l))) (fst (shuffle r (filter (\<lambda>p. p \<notin> set skip) l)))"
  by (simp add: peerList_shuffledWithoutN_def Let_def case_prod_beta min_def)

lemma peerList_shuffledWithoutN_sub:
  "set (fst (peerList_shuffledWithoutN l r n skip)) \<subseteq> set l - set skip"
  by (auto simp: fst_peerList_shuffledWithoutN dest: in_set_takeD)

lemma peerList_shuffledWithoutN_length:
  "length (fst (peerList_shuffledWithoutN l r n skip)) = min n (length (filter (\<lambda>p. p \<notin> set skip) l))"
  by (simp add: fst_peerList_shuffledWithoutN)

lemma peerList_shuffledWithoutN_distinct:
  "distinct l \<Longrightarrow> distinct (fst (peerList_shuffledWithoutN l r n skip))"
  by (simp add: fst_peerList_shuffledWithoutN)

lemma peerList_shuffledN_sub: "set (fst (peerList_shuffledN l r n)) \<subseteq> set l"
  using peerList_shuffledWithoutN_sub [of l r "nat n" "[]"] by (auto simp: peerList_shuffledN_def)

lemma peerList_shuffledN_length: "length (fst (peerList_shuffledN l r n)) = min (nat n) (length l)"
  by (simp add: peerList_shuffledN_def peerList_shuffledWithoutN_length)

lemma peerList_shuffledN_distinct: "distinct l \<Longrightarrow> distinct (fst (peerList_shuffledN l r n))"
  by (simp add: peerList_shuffledN_def peerList_shuffledWithoutN_distinct)

section \<open>Operations that leave the active view alone\<close>

lemma neighbours_append:
  "neighbours V (es @ es') = Option.bind (neighbours V es) (\<lambda>V'. neighbours V' es')"
  by (induction V es rule: neighbours.induct) auto

lemma neighbours_SendMessages [simp]:
  "neighbours V (map (\<lambda>n. HyparviewSendMessage n (f n)) ns) = Some V"
  by (induction ns) auto

lemma active_emit [simp]: "hv_active (fst (emit ev x)) = hv_active (fst x)"
  by (cases x) simp

lemma active_forgetPending [simp]: "hv_active (fst (forgetPending p x)) = hv_active (fst x)"
  by (cases x) simp

lemma active_sendNeighbor [simp]: "hv_active (fst (sendNeighbor p pr x)) = hv_active (fst x)"
  by (cases x) simp

lemma active_insertPeerInfo [simp]: "hv_active (fst (insertPeerInfo i x)) = hv_active (fst x)"
  by (cases x) (simp split: option.splits)

lemma active_sendShuffleReply [simp]: "hv_active (fst (sendShuffleReply p n x)) = hv_active (fst x)"
  by (cases x) (simp add: Let_def split: prod.splits)

lemma active_sendDisconnect [simp]: "hv_active (fst (sendDisconnect p b x)) = hv_active (fst x)"
  by (cases x) (simp del: sendShuffleReply.simps)

lemma active_evictPassive [simp]: "hv_active (evictPassive s) = hv_active s"
  by (simp add: evictPassive_def split: prod.splits option.splits)

lemma active_addPassive [simp]: "hv_active (fst (addPassive p d x)) = hv_active (fst x)"
  using active_insertPeerInfo [of "\<lparr>pi_ID = p, pi_Data = d\<rparr>" x]
  by (auto simp: Let_def simp del: active_insertPeerInfo split: prod.splits option.splits)

lemma active_refill [simp]: "hv_active (fst (refillActiveFromPassive sk x)) = hv_active (fst x)"
  by (cases x) (auto simp: Let_def simp del: sendNeighbor.simps split: prod.splits option.splits)


lemma env_emit [simp]: "env (fst (emit ev x)) = env (fst x)"
  by (cases x) (simp add: env_def)

lemma env_forgetPending [simp]: "env (fst (forgetPending p x)) = env (fst x)"
  by (cases x) (simp add: env_def)

lemma env_sendNeighbor [simp]: "env (fst (sendNeighbor p pr x)) = env (fst x)"
  by (cases x) (simp add: env_def)

lemma env_insertPeerInfo [simp]: "env (fst (insertPeerInfo i x)) = env (fst x)"
  by (cases x) (simp add: env_def split: option.splits)

lemma env_sendShuffleReply [simp]: "env (fst (sendShuffleReply p n x)) = env (fst x)"
  by (cases x) (simp add: env_def Let_def split: prod.splits)

lemma env_sendDisconnect [simp]: "env (fst (sendDisconnect p b x)) = env (fst x)"
  by (cases x) (simp del: sendShuffleReply.simps)

lemma env_evictPassive [simp]: "env (evictPassive s) = env s"
  by (simp add: evictPassive_def env_def split: prod.splits option.splits)

lemma env_passive [simp]: "env (s\<lparr>hv_passive := l\<rparr>) = env s"
  by (simp add: env_def)

lemma env_rand [simp]: "env (s\<lparr>hv_rand := r\<rparr>) = env s"
  by (simp add: env_def)

lemma env_addPassive [simp]: "env (fst (addPassive p d x)) = env (fst x)"
  using env_insertPeerInfo [of "\<lparr>pi_ID = p, pi_Data = d\<rparr>" x]
  by (auto simp: Let_def simp del: env_insertPeerInfo split: prod.splits option.splits)

lemma env_refill [simp]: "env (fst (refillActiveFromPassive sk x)) = env (fst x)"
  by (cases x) (auto simp: Let_def simp del: sendNeighbor.simps split: prod.splits option.splits)

section \<open>Every operation keeps the invariant\<close>

lemma hv_ok_emit [intro]:
  "hv_ok V x \<Longrightarrow> (\<And>e. ev \<noteq> HyparviewEmitEvent e) \<Longrightarrow> hv_ok V (emit ev x)"
  by (cases x; cases ev) (auto simp: hv_ok_def neighbours_append)

lemma hv_ok_forgetPending [intro]: "hv_ok V x \<Longrightarrow> hv_ok V (forgetPending p x)"
  by (cases x) (auto simp: hv_ok_def hv_inv_def)

lemma hv_ok_sendNeighbor [intro]: "hv_ok V x \<Longrightarrow> hv_ok V (sendNeighbor p pr x)"
  by (cases x) (auto simp: hv_ok_def hv_inv_def neighbours_append)

lemma hv_ok_insertPeerInfo [intro]: "hv_ok V x \<Longrightarrow> hv_ok V (insertPeerInfo i x)"
  by (cases x) (auto simp: hv_ok_def hv_inv_def neighbours_append split: option.splits)

lemma hv_ok_sendShuffleReply [intro]: "hv_ok V x \<Longrightarrow> hv_ok V (sendShuffleReply p n x)"
  by (cases x) (auto simp: hv_ok_def hv_inv_def neighbours_append Let_def split: prod.splits)

lemma hv_ok_rand [intro]: "hv_ok V (s, out) \<Longrightarrow> hv_ok V (s\<lparr>hv_rand := r\<rparr>, out)"
  by (auto simp: hv_ok_def hv_inv_def)

lemma hv_ok_sendDisconnect [intro]: "hv_ok V x \<Longrightarrow> hv_ok V (sendDisconnect p b x)"
  by (cases x) (auto simp del: sendShuffleReply.simps emit.simps)

lemma hv_ok_refill [intro]: "hv_ok V x \<Longrightarrow> hv_ok V (refillActiveFromPassive sk x)"
  by (cases x) (auto simp: Let_def simp del: sendNeighbor.simps emit.simps split: prod.splits option.splits)

lemma evictPassive_room:
  assumes "hv_inv s"
  shows "hv_inv (evictPassive s)" "hv_active (evictPassive s) = hv_active s"
    "hv_me (evictPassive s) = hv_me s" "set (hv_passive (evictPassive s)) \<subseteq> set (hv_passive s)"
    "hv_config (evictPassive s) = hv_config s"
    "int (length (hv_passive (evictPassive s))) < max 1 (PassiveViewCapacity (hv_config s))"
proof -
  obtain q r where qr: "peerList_random (hv_passive s) (hv_rand s) = (q, r)" by fastforce
  have q: "case q of None \<Rightarrow> hv_passive s = [] | Some p \<Rightarrow> p \<in> set (hv_passive s)"
    using qr peerList_random_Some peerList_random_None by (auto split: option.splits)
  have len: "p \<in> set (hv_passive s) \<Longrightarrow> int (length (remove1 p (hv_passive s))) = int (length (hv_passive s)) - 1" for p
    by (auto dest: Suc_length_remove1)
  show "hv_inv (evictPassive s)" "hv_active (evictPassive s) = hv_active s"
    "hv_me (evictPassive s) = hv_me s" "set (hv_passive (evictPassive s)) \<subseteq> set (hv_passive s)"
    "hv_config (evictPassive s) = hv_config s"
    "int (length (hv_passive (evictPassive s))) < max 1 (PassiveViewCapacity (hv_config s))"
    using assms q len
    by (auto simp: evictPassive_def qr hv_inv_def dest: notin_set_remove1 set_remove1_subset [THEN subsetD]
        split: option.splits)
qed

lemma hv_ok_addPassive [intro]:
  assumes "hv_ok V x" shows "hv_ok V (addPassive p d x)"
proof -
  obtain s out where x: "insertPeerInfo \<lparr>pi_ID = p, pi_Data = d\<rparr> x = (s, out)" by fastforce
  have ok: "hv_ok V (s, out)" using assms x by (metis hv_ok_insertPeerInfo)
  show ?thesis
    using ok evictPassive_room [of s] x by (auto simp: hv_ok_def Let_def hv_inv_def)
qed

lemma hv_ok_NeighborDown:
  assumes "hv_ok V (s, out)" "p \<in> set (hv_active s)"
  shows "hv_ok V (emit (HyparviewEmitEvent (HyparviewNeighborDown p))
           (s\<lparr>hv_active := remove1 p (hv_active s)\<rparr>, out))"
  using assms Suc_length_remove1 [of p "hv_active s"]
  by (auto simp: hv_ok_def hv_inv_def neighbours_append dest: notin_set_remove1)

lemma hv_ok_keepPassive:
  "hv_ok V (s, out) \<Longrightarrow> hv_ok V (snd (keepPassive p reason alive s), out)"
  by (cases reason) (auto simp: hv_ok_def hv_inv_def)

lemma hv_ok_aliveDisconnect [intro]:
  "hv_ok V (s, out) \<Longrightarrow> distinct l \<Longrightarrow> hv_ok V (s\<lparr>hv_aliveDisconnect := l\<rparr>, out)"
  by (auto simp: hv_ok_def hv_inv_def)

lemma hv_ok_moveToPassive:
  assumes "hv_ok V x" shows "hv_ok V (moveToPassive p reason x)"
proof -
  obtain s out where x: "x = (s, out)" by fastforce
  let ?y = "(s\<lparr>hv_peerData := mdel p (hv_peerData s)\<rparr>, out)"
  have "hv_ok V ?y" using assms x by (auto simp: hv_ok_def hv_inv_def)
  moreover obtain s' out' where y: "addPassive p (map_of (hv_peerData s) p) ?y = (s', out')" by fastforce
  ultimately have ok: "hv_ok V (s', out')" by (metis hv_ok_addPassive)
  hence "distinct (hv_aliveDisconnect s')" by (simp add: hv_ok_def hv_inv_def)
  thus ?thesis using x y ok by (auto simp: Let_def simp del: addPassive.simps)
qed

lemma active_keepPassive [simp]: "hv_active (snd (keepPassive p reason alive s)) = hv_active s"
  by (cases reason) auto

lemma active_moveToPassive [simp]: "hv_active (fst (moveToPassive p reason x)) = hv_active (fst x)"
proof (cases x)
  case (Pair s out)
  show ?thesis
    using active_addPassive [of p "map_of (hv_peerData s) p" "(s\<lparr>hv_peerData := mdel p (hv_peerData s)\<rparr>, out)"]
    by (auto simp: Pair Let_def simp del: addPassive.simps active_addPassive split: prod.splits)
qed

lemma env_keepPassive [simp]: "env (snd (keepPassive p reason alive s)) = env s"
  by (cases reason) (auto simp: env_def)

lemma env_moveToPassive [simp]: "env (fst (moveToPassive p reason x)) = env (fst x)"
proof (cases x)
  case (Pair s out)
  show ?thesis
    using env_addPassive [of p "map_of (hv_peerData s) p" "(s\<lparr>hv_peerData := mdel p (hv_peerData s)\<rparr>, out)"]
    by (auto simp: Pair Let_def env_def simp del: addPassive.simps env_addPassive split: prod.splits)
qed

declare forgetPending.simps [simp del] sendNeighbor.simps [simp del] insertPeerInfo.simps [simp del]
  sendShuffleReply.simps [simp del] sendDisconnect.simps [simp del] addPassive.simps [simp del]
  refillActiveFromPassive.simps [simp del] keepPassive.simps [simp del] moveToPassive.simps [simp del]
  emit.simps [simp del]

lemma removeActive_stages:
  "removeActive p reason alive refill x =
     (if p \<notin> set (hv_active (fst x)) then x
      else
        let x1 = emit (HyparviewEmitEvent (HyparviewNeighborDown p))
                   (forgetPending p ((fst x)\<lparr>hv_active := remove1 p (hv_active (fst x))\<rparr>, snd x));
            x2 = (if reason = removalRandom then sendDisconnect p True x1
                  else emit (HyparviewDisconnectPeer p) x1);
            k = keepPassive p reason alive (fst x2);
            x3 = (snd k, snd x2);
            x4 = (if fst k then moveToPassive p reason x3 else x3)
        in if refill then refillActiveFromPassive [p] x4 else x4)"
  by (cases x) (simp add: Let_def case_prod_beta)

declare removeActive.simps [simp del]

lemma hv_ok_removeActive [intro]:
  assumes "hv_ok V x" shows "hv_ok V (removeActive p reason alive refill x)"
proof (cases "p \<in> set (hv_active (fst x))")
  case False thus ?thesis using assms by (simp add: removeActive_stages)
next
  case True
  define x1 where "x1 = emit (HyparviewEmitEvent (HyparviewNeighborDown p))
    (forgetPending p ((fst x)\<lparr>hv_active := remove1 p (hv_active (fst x))\<rparr>, snd x))"
  define x2 where "x2 = (if reason = removalRandom then sendDisconnect p True x1
    else emit (HyparviewDisconnectPeer p) x1)"
  define k where "k = keepPassive p reason alive (fst x2)"
  have "hv_ok V x1" unfolding x1_def using assms True hv_ok_NeighborDown [of V "fst x" "snd x" p]
    by (cases x) (auto simp: hv_ok_def hv_inv_def emit.simps forgetPending.simps)
  hence "hv_ok V x2" unfolding x2_def by auto
  hence x3: "hv_ok V (snd k, snd x2)" unfolding k_def
    using hv_ok_keepPassive [of V "fst x2" "snd x2" p reason alive] by simp
  hence "hv_ok V (if fst k then moveToPassive p reason (snd k, snd x2) else (snd k, snd x2))"
    using hv_ok_moveToPassive by simp
  thus ?thesis using True
    by (auto simp: removeActive_stages Let_def simp flip: x1_def x2_def k_def)
qed

lemma active_removeActive:
  "hv_active (fst (removeActive p reason alive refill x)) = remove1 p (hv_active (fst x))"
  by (simp add: removeActive_stages Let_def remove1_idem)

lemma env_removeActive [simp]: "env (fst (removeActive p reason alive refill x)) = env (fst x)"
  by (simp add: removeActive_stages Let_def) (simp add: env_def)

lemma evictActive_cases:
  obtains "hv_active (fst x) = []" "evictActive x = x"
  | "int (length (hv_active (fst x))) < ActiveViewCapacity (hv_config (fst x))" "evictActive x = x"
  | old r where "old \<in> set (hv_active (fst x))"
      "evictActive x = removeActive old removalRandom False False ((fst x)\<lparr>hv_rand := r\<rparr>, snd x)"
proof (cases x)
  case (Pair s out)
  obtain q r where qr: "peerList_random (hv_active s) (hv_rand s) = (q, r)" by fastforce
  show thesis
  proof (cases "int (length (hv_active s)) \<ge> ActiveViewCapacity (hv_config s)")
    case False
    thus thesis using that(2) by (simp add: Pair)
  next
    case full: True
    show thesis
    proof (cases q)
      case None
      thus thesis using that(1) qr peerList_random_None [of "hv_active s" "hv_rand s" r] by (simp add: Pair)
    next
      case (Some old)
      thus thesis using that(3) [of old r] full qr peerList_random_Some [of "hv_active s" "hv_rand s" old r]
        by (simp add: Pair)
    qed
  qed
qed

lemma hv_ok_evictActive [intro]: "hv_ok V x \<Longrightarrow> hv_ok V (evictActive x)"
  using hv_ok_rand [of V "fst x" "snd x"] by (cases x rule: evictActive_cases) auto

lemma evictActive_room:
  assumes "hv_ok V x"
  shows "int (length (hv_active (fst (evictActive x)))) < max 1 (ActiveViewCapacity (hv_config (fst x)))"
    "set (hv_active (fst (evictActive x))) \<subseteq> set (hv_active (fst x))"
    "env (fst (evictActive x)) = env (fst x)"
proof (atomize (full), cases x rule: evictActive_cases)
  case (3 old r)
  thus "int (length (hv_active (fst (evictActive x)))) < max 1 (ActiveViewCapacity (hv_config (fst x))) \<and>
     set (hv_active (fst (evictActive x))) \<subseteq> set (hv_active (fst x)) \<and> env (fst (evictActive x)) = env (fst x)"
    using assms Suc_length_remove1 [OF 3(1)]
    by (auto simp: hv_ok_def hv_inv_def active_removeActive simp del: removeActive.simps
        dest: set_remove1_subset [THEN subsetD])
qed auto

lemma hv_ok_NeighborUp:
  assumes "hv_ok V (s, out)" "p \<notin> set (hv_active s)" "p \<noteq> hv_me s"
    "int (length (hv_active s)) < max 1 (ActiveViewCapacity (hv_config s))"
  shows "hv_ok V (s\<lparr>hv_passive := remove1 p (hv_passive s), hv_active := hv_active s @ [p]\<rparr>,
           out @ [HyparviewEmitEvent (HyparviewNeighborUp p)])"
proof -
  have "length (remove1 p (hv_passive s)) \<le> length (hv_passive s)" by (simp add: length_remove1)
  thus ?thesis using assms
    by (auto simp: hv_ok_def hv_inv_def neighbours_append dest: notin_set_remove1)
qed

lemma hv_ok_insertActive:
  assumes "hv_ok V x" "p \<notin> set (hv_active (fst x))" "p \<noteq> hv_me (fst x)"
    "int (length (hv_active (fst x))) < max 1 (ActiveViewCapacity (hv_config (fst x)))"
  shows "hv_ok V (insertActive p pr reply x)"
  using assms hv_ok_NeighborUp [of V "fst x" "snd x" p]
  by (cases x) (auto simp: Let_def emit.simps)

lemma hv_ok_addActive [intro]:
  assumes "hv_ok V x" shows "hv_ok V (snd (addActive p d pr reply x))"
proof -
  define y where "y = insertPeerInfo \<lparr>pi_ID = p, pi_Data = d\<rparr> x"
  have y: "hv_ok V y" unfolding y_def using assms by blast
  have "env (fst y) = env (fst x)" unfolding y_def by simp
  hence e: "hv_me (fst y) = hv_me (fst x)" by (simp add: env_def)
  have f: "hv_me (fst (evictActive y)) = hv_me (fst y)" "hv_config (fst (evictActive y)) = hv_config (fst y)"
    using evictActive_room(3) [OF y] by (auto simp: env_def)
  have ins: "hv_ok V (insertActive p pr reply (evictActive y))" if "p \<notin> set (hv_active (fst y))" "p \<noteq> hv_me (fst x)"
    using that y e f evictActive_room(1,2) [OF y] by (intro hv_ok_insertActive hv_ok_evictActive) auto
  show ?thesis
    using y e assms ins
    by (auto simp: Let_def case_prod_beta simp flip: y_def simp del: insertActive.simps evictActive.simps)
qed

declare addActive.simps [simp del] insertActive.simps [simp del] evictActive.simps [simp del]

lemma hv_ok_append:
  "hv_ok V (s, out) \<Longrightarrow> (\<And>W. neighbours W es = Some W) \<Longrightarrow> hv_ok V (s, out @ es)"
  by (simp add: hv_ok_def neighbours_append)

lemma hv_ok_addPassives [intro]: "hv_ok V x \<Longrightarrow> hv_ok V (addPassives ns x)"
  by (induction ns x rule: addPassives.induct) auto

lemma hv_ok_sendForwardJoins [intro]: "hv_ok V x \<Longrightarrow> hv_ok V (sendForwardJoins i ns x)"
  by (cases x) (auto intro!: hv_ok_append)

lemma hv_ok_onJoin: "hv_ok V x \<Longrightarrow> hv_ok V (onJoin p d x)"
  by (auto simp: case_prod_beta Let_def)

lemma hv_ok_forwardWalk [intro]: "hv_ok V x \<Longrightarrow> hv_ok V (forwardWalk sender m x)"
  by (cases x) (auto simp: Let_def case_prod_beta intro!: hv_ok_append hv_ok_rand split: option.splits)

lemma hv_ok_onForwardJoin: "hv_ok V x \<Longrightarrow> hv_ok V (onForwardJoin sender m x)"
  by (auto simp: Let_def simp del: forwardWalk.simps)

lemma hv_ok_onNeighbor: "hv_ok V x \<Longrightarrow> hv_ok V (onNeighbor sender m x)"
  by (auto simp: case_prod_beta Let_def)

lemma hv_ok_onDisconnect:
  assumes "hv_ok V x" shows "hv_ok V (onDisconnect p m x)"
proof -
  obtain s out where y: "forgetPending p x = (s, out)" by fastforce
  have ok: "hv_ok V (s, out)" using assms y by (metis hv_ok_forgetPending)
  hence "distinct (hv_aliveDisconnect s)" by (simp add: hv_ok_def hv_inv_def)
  thus ?thesis using ok y by auto
qed

lemma hv_ok_onShuffle:
  assumes "hv_ok V x" shows "hv_ok V (onShuffle sender m x)"
  using assms by (cases x) (auto simp: Let_def case_prod_beta intro!: hv_ok_append hv_ok_rand split: option.splits)

lemma hv_ok_onShuffleReply: "hv_ok V x \<Longrightarrow> hv_ok V (onShuffleReply m x)"
  by auto

lemmas hv_ok_messages = hv_ok_onJoin hv_ok_onForwardJoin hv_ok_onNeighbor hv_ok_onDisconnect
  hv_ok_onShuffle hv_ok_onShuffleReply

declare onJoin.simps [simp del] onForwardJoin.simps [simp del] onNeighbor.simps [simp del]
  onDisconnect.simps [simp del] onShuffle.simps [simp del] onShuffleReply.simps [simp del]

lemma hv_ok_dispatchMessage: "hv_ok V x \<Longrightarrow> hv_ok V (dispatchMessage sender m x)"
  by (cases m) (auto intro: hv_ok_messages)

lemma hv_ok_countConnection: "hv_ok V x \<Longrightarrow> hv_ok V (countConnection sender b x)"
  by (cases x) (auto simp: hv_ok_def hv_inv_def)

lemma hv_ok_handleMessage: "hv_ok V x \<Longrightarrow> hv_ok V (handleMessage sender m x)"
  using hv_ok_dispatchMessage [OF hv_ok_countConnection, of V x sender m sender "isDisconnectMessage m"]
  by (auto simp: Let_def case_prod_beta intro!: hv_ok_append)

lemma hv_ok_handleJoin: "hv_ok V x \<Longrightarrow> hv_ok V (handleJoin p x)"
  by (cases x) (auto intro!: hv_ok_append)

lemma hv_ok_dropPassive:
  assumes "hv_ok V (s, out)" "distinct pn" "mwf pd"
  shows "hv_ok V (s\<lparr>hv_pendingNeighbor := pn, hv_passive := remove1 p (hv_passive s), hv_peerData := pd\<rparr>, out)"
proof -
  have "length (remove1 p (hv_passive s)) \<le> length (hv_passive s)" by (simp add: length_remove1)
  thus ?thesis using assms by (auto simp: hv_ok_def hv_inv_def dest: notin_set_remove1)
qed

lemma hv_ok_handleConnectionClosed:
  assumes "hv_ok V x" shows "hv_ok V (handleConnectionClosed p x)"
proof -
  obtain s out where y: "forgetPending p x = (s, out)" by fastforce
  have ok: "hv_ok V (s, out)" using assms y by (metis hv_ok_forgetPending)
  hence d: "distinct (hv_aliveDisconnect s)" "distinct (hv_pendingNeighbor s)" "mwf (hv_peerData s)"
    by (auto simp: hv_ok_def hv_inv_def)
  show ?thesis using ok y d hv_ok_dropPassive [OF ok d(2), of "mdel p (hv_peerData s)" p] by auto
qed

lemma hv_ok_handleShuffleTimer: "hv_ok V x \<Longrightarrow> hv_ok V (handleShuffleTimer x)"
  by (cases x) (auto simp: Let_def case_prod_beta intro!: hv_ok_append hv_ok_rand split: option.splits)

lemma hv_ok_handlePendingNeighborTimer:
  assumes "hv_ok V x" shows "hv_ok V (handlePendingNeighborTimer p x)"
proof (cases x)
  case (Pair s out)
  hence "distinct (hv_pendingNeighbor s)" "mwf (hv_peerData s)" using assms by (auto simp: hv_ok_def hv_inv_def)
  thus ?thesis using assms Pair hv_ok_dropPassive [of V s out "sdel p (hv_pendingNeighbor s)" "hv_peerData s" p]
    by auto
qed

declare handleMessage.simps [simp del] handleJoin.simps [simp del] handleConnectionClosed.simps [simp del]
  handleShuffleTimer.simps [simp del] handlePendingNeighborTimer.simps [simp del]

lemma hv_ok_meData: "hv_ok V (s, out) \<Longrightarrow> hv_ok V (s\<lparr>hv_meData := d\<rparr>, out)"
  by (simp add: hv_ok_def hv_inv_def)

lemma hv_ok_dispatchEvent: "hv_ok V x \<Longrightarrow> \<not> isQuit ev \<Longrightarrow> hv_ok V (dispatchEvent ev x)"
  by (induction ev x rule: dispatchEvent.induct)
     (auto simp: isQuit_def intro: hv_ok_handleMessage hv_ok_handleShuffleTimer hv_ok_handlePendingNeighborTimer
       hv_ok_handleConnectionClosed hv_ok_handleJoin hv_ok_meData)

section \<open>Quitting\<close>

definition goodbye :: "PeerID \<Rightarrow> HyparviewOutEvent list" where
  "goodbye p = [HyparviewSendMessage p (HyparviewDisconnect \<lparr>dc_Alive = False, dc_Respond = False\<rparr>),
                HyparviewDisconnectPeer p]"

fun isShuffleReplyTo :: "PeerID \<Rightarrow> HyparviewOutEvent \<Rightarrow> bool" where
  "isShuffleReplyTo p (HyparviewSendMessage q (HyparviewShuffleReply m)) = (q = p)"
| "isShuffleReplyTo p _ = False"

lemma sendDisconnect_out:
  "\<exists>r m. sendDisconnect p b (s, out) = (s\<lparr>hv_rand := r\<rparr>,
     out @ [HyparviewSendMessage p (HyparviewShuffleReply m),
            HyparviewSendMessage p (HyparviewDisconnect \<lparr>dc_Alive = b, dc_Respond = False\<rparr>),
            HyparviewDisconnectPeer p])"
  by (auto simp: sendDisconnect.simps sendShuffleReply.simps emit.simps Let_def case_prod_beta)

lemma sendDisconnect_tells:
  "HyparviewSendMessage p (HyparviewDisconnect \<lparr>dc_Alive = b, dc_Respond = False\<rparr>) \<in> set (snd (sendDisconnect p b x))"
  using sendDisconnect_out [of p b "fst x" "snd x"] by auto

lemma quitPeers_result:
  "hv_active s = ps \<Longrightarrow>
   \<exists>r es. quitPeers ps (s, out) = (s\<lparr>hv_active := [], hv_rand := r\<rparr>, out @ es) \<and>
     filter (\<lambda>e. \<not> (\<exists>p. isShuffleReplyTo p e)) es = concat (map goodbye ps)"
proof (induction ps arbitrary: s out)
  case Nil thus ?case by (auto intro: exI [of _ "hv_rand s"])
next
  case (Cons p ps)
  obtain r m where d: "sendDisconnect p False (s\<lparr>hv_active := ps\<rparr>, out) = (s\<lparr>hv_active := ps, hv_rand := r\<rparr>,
     out @ [HyparviewSendMessage p (HyparviewShuffleReply m),
            HyparviewSendMessage p (HyparviewDisconnect \<lparr>dc_Alive = False, dc_Respond = False\<rparr>),
            HyparviewDisconnectPeer p])"
    using sendDisconnect_out [of p False "s\<lparr>hv_active := ps\<rparr>" out] by auto
  let ?x = "sendDisconnect p False (s\<lparr>hv_active := ps\<rparr>, out)"
  obtain r' es where q: "quitPeers ps ?x = (s\<lparr>hv_active := [], hv_rand := r'\<rparr>, snd ?x @ es)"
    and es: "filter (\<lambda>e. \<not> (\<exists>p. isShuffleReplyTo p e)) es = concat (map goodbye ps)"
    using Cons.IH [of "fst ?x" "snd ?x"] by (auto simp: d)
  have "quitPeers (p # ps) (s, out) = (s\<lparr>hv_active := [], hv_rand := r'\<rparr>, snd ?x @ es)"
    using q Cons.prems by simp
  moreover have "snd ?x @ es = out @ HyparviewSendMessage p (HyparviewShuffleReply m) # goodbye p @ es"
    by (simp add: d goodbye_def)
  moreover have "filter (\<lambda>e. \<not> (\<exists>p. isShuffleReplyTo p e)) (goodbye p) = goodbye p"
    by (simp add: goodbye_def)
  ultimately show ?case using es by (intro exI [of _ r'] exI) auto
qed

lemma hv_inv_quit: "hv_inv s \<Longrightarrow> hv_inv (s\<lparr>hv_active := [], hv_rand := r\<rparr>)"
  by (simp add: hv_inv_def)

section \<open>The machine\<close>

lemma forgetStrangers_inv: "hv_inv s \<Longrightarrow> hv_inv (forgetStrangers s)"
  by (simp add: hv_inv_def forgetStrangers_def)

lemma forgetStrangers_views [simp]:
  "hv_active (forgetStrangers s) = hv_active s" "hv_passive (forgetStrangers s) = hv_passive s"
  "hv_pendingNeighbor (forgetStrangers s) = hv_pendingNeighbor s"
  "hv_shuffleScheduled (forgetStrangers s) = hv_shuffleScheduled s"
  by (simp_all add: forgetStrangers_def)

lemma Handle_eq:
  "dispatchEvent ev (s0, []) = (s, out) \<Longrightarrow>
   HyparviewState_Handle s0 ev = (forgetStrangers (s\<lparr>hv_shuffleScheduled := True\<rparr>),
     out @ (if hv_shuffleScheduled s then []
            else [HyparviewScheduleTimer (ShuffleInterval (hv_config s)) HyparviewTimerDoShuffle]))"
  by (cases s) (auto simp: HyparviewState_Handle_def)

lemma hv_inv_scheduled: "hv_inv s \<Longrightarrow> hv_inv (s\<lparr>hv_shuffleScheduled := True\<rparr>)"
  by (simp add: hv_inv_def)

lemma hv_inv_dispatchEvent:
  assumes "hv_inv s" shows "hv_inv (fst (dispatchEvent ev (s, [])))"
proof (cases "isQuit ev")
  case True
  thus ?thesis using assms quitPeers_result [of s "hv_active s" "[]"] hv_inv_quit
    by (auto simp: isQuit_def)
next
  case False
  have "hv_ok (set (hv_active s)) (s, [])" using assms by (simp add: hv_ok_def)
  thus ?thesis using hv_ok_dispatchEvent False by (auto simp: hv_ok_def)
qed

lemma Handle_keeps_inv: "hv_inv s \<Longrightarrow> hv_inv (fst (HyparviewState_Handle s ev))"
  using hv_inv_dispatchEvent [of s ev] Handle_eq [of ev s "fst (dispatchEvent ev (s, []))" "snd (dispatchEvent ev (s, []))"]
  by (simp add: forgetStrangers_inv hv_inv_scheduled)

interpretation hyparview: io_machine HyparviewState_Handle hv_inv
  by unfold_locales (metis Handle_keeps_inv fst_conv)

lemma New_inv: "hv_inv (NewHyparviewStateWithRand me d cfg r)"
  by (simp add: hv_inv_def NewHyparviewStateWithRand_def le_max_iff_disj)

section \<open>Random walks and neighbour requests\<close>

fun isWalk :: "HyparviewOutEvent \<Rightarrow> bool" where
  "isWalk (HyparviewSendMessage p (HyparviewForwardJoin m)) = True"
| "isWalk (HyparviewSendMessage p (HyparviewShuffle m)) = True"
| "isWalk _ = False"

definition walks :: "HyparviewOutEvent list \<Rightarrow> HyparviewOutEvent list" where
  "walks out = filter isWalk out"

lemma walks_append [simp]: "walks (a @ b) = walks a @ walks b"
  by (simp add: walks_def)

lemma walks_Nil [simp]: "walks [] = []"
  by (simp add: walks_def)

lemma walks_Cons [simp]: "walks (e # es) = (if isWalk e then [e] else []) @ walks es"
  by (simp add: walks_def)

lemma walks_forgetPending [simp]: "walks (snd (forgetPending p x)) = walks (snd x)"
  by (cases x) (simp add: forgetPending.simps)

lemma walks_sendNeighbor [simp]: "walks (snd (sendNeighbor p pr x)) = walks (snd x)"
  by (cases x) (simp add: sendNeighbor.simps)

lemma walks_insertPeerInfo [simp]: "walks (snd (insertPeerInfo i x)) = walks (snd x)"
  by (cases x) (simp add: insertPeerInfo.simps split: option.splits)

lemma walks_addPassive [simp]: "walks (snd (addPassive p d x)) = walks (snd x)"
  using walks_insertPeerInfo [of "\<lparr>pi_ID = p, pi_Data = d\<rparr>" x]
  by (auto simp: addPassive.simps Let_def simp del: walks_insertPeerInfo split: prod.splits)

lemma walks_addPassives [simp]: "walks (snd (addPassives ns x)) = walks (snd x)"
  by (induction ns x rule: addPassives.induct) auto

lemma walks_sendShuffleReply [simp]: "walks (snd (sendShuffleReply p n x)) = walks (snd x)"
  by (cases x) (simp add: sendShuffleReply.simps Let_def case_prod_beta)

lemma active_countConnection [simp]: "hv_active (fst (countConnection p b x)) = hv_active (fst x)"
  by (cases x) simp

lemma out_countConnection [simp]: "snd (countConnection p b x) = snd x"
  by (cases x) simp

lemma walks_Handle_message:
  "walks (snd (HyparviewState_Handle s (HyparviewRecvMessage sender m))) =
     walks (snd (dispatchMessage sender m (countConnection sender (isDisconnectMessage m) (s, []))))"
proof -
  let ?x = "handleMessage sender m (s, [])"
  show ?thesis
    by (simp add: Handle_eq [of _ _ "fst ?x" "snd ?x"])
       (simp add: handleMessage.simps Let_def case_prod_beta)
qed

lemma randomWithout_cases:
  obtains r where "peerList_randomWithout l rnd skip = (None, r)"
  | p r where "peerList_randomWithout l rnd skip = (Some p, r)" "p \<in> set l - set skip"
proof (cases "peerList_randomWithout l rnd skip")
  case (Pair q r)
  thus thesis using that peerList_randomWithout_Some [of l rnd skip _ r] by (cases q) auto
qed

lemma walks_forwardWalk:
  "walks (snd (forwardWalk sender m x)) = walks (snd x) \<or>
   (\<exists>n \<in> set (hv_active (fst x)) - {sender}.
      walks (snd (forwardWalk sender m x)) =
        walks (snd x) @ [HyparviewSendMessage n (HyparviewForwardJoin (m\<lparr>fj_Ttl := fj_Ttl m - 1\<rparr>))])"
  by (cases x, cases rule: randomWithout_cases [of "hv_active (fst x)" "hv_rand (fst x)" "[sender]"])
     (auto simp: Let_def)

lemma walks_onForwardJoin:
  "walks (snd (onForwardJoin sender m x)) = walks (snd x) \<or>
   (\<exists>n \<in> set (hv_active (fst x)) - {sender}. fj_Ttl m \<noteq> 0 \<and>
      walks (snd (onForwardJoin sender m x)) =
        walks (snd x) @ [HyparviewSendMessage n (HyparviewForwardJoin (m\<lparr>fj_Ttl := fj_Ttl m - 1\<rparr>))])"
proof -
  let ?y = "forgetPending (pi_ID (fj_Peer m)) x"
  show ?thesis
    using walks_forwardWalk [of sender m ?y]
      walks_forwardWalk [of sender m "addPassive (pi_ID (fj_Peer m)) (pi_Data (fj_Peer m)) ?y"]
    by (auto simp: onForwardJoin.simps Let_def simp del: forwardWalk.simps)
qed

lemma walks_onShuffle:
  "walks (snd (onShuffle sender m x)) = walks (snd x) \<or>
   (\<exists>n \<in> set (hv_active (fst x)) - {sh_Origin m, sender}. sh_Ttl m \<noteq> 0 \<and>
      walks (snd (onShuffle sender m x)) =
        walks (snd x) @ [HyparviewSendMessage n (HyparviewShuffle (m\<lparr>sh_Ttl := sh_Ttl m - 1\<rparr>))])"
  by (cases x, cases rule: randomWithout_cases [of "hv_active (fst x)" "hv_rand (fst x)" "[sh_Origin m, sender]"])
     (auto simp: onShuffle.simps Let_def case_prod_beta)

section \<open>The identity and the configuration never change\<close>

lemma env_updates [simp]:
  "env (s\<lparr>hv_active := l\<rparr>) = env s" "env (s\<lparr>hv_pendingNeighbor := l\<rparr>) = env s"
  "env (s\<lparr>hv_aliveDisconnect := l\<rparr>) = env s" "env (s\<lparr>hv_peerData := m\<rparr>) = env s"
  "env (s\<lparr>hv_meData := d\<rparr>) = env s" "env (s\<lparr>hv_stats := c\<rparr>) = env s"
  "env (s\<lparr>hv_shuffleScheduled := b\<rparr>) = env s" "env (forgetStrangers s) = env s"
  by (simp_all add: env_def forgetStrangers_def)

lemma env_evictActive [simp]: "env (fst (evictActive x)) = env (fst x)"
  by (cases x rule: evictActive_cases) simp_all

lemma env_insertActive [simp]: "env (fst (insertActive p pr reply x)) = env (fst x)"
  by (cases x) (simp add: insertActive.simps Let_def)

lemma env_addActive [simp]: "env (fst (snd (addActive p d pr reply x))) = env (fst x)"
  by (simp add: addActive.simps Let_def case_prod_beta)

lemma env_addPassives [simp]: "env (fst (addPassives ns x)) = env (fst x)"
  by (induction ns x rule: addPassives.induct) auto

lemma env_forwardWalk [simp]: "env (fst (forwardWalk sender m x)) = env (fst x)"
  by (cases x) (simp add: Let_def case_prod_beta split: option.splits)

lemma env_sendForwardJoins [simp]: "env (fst (sendForwardJoins i ns x)) = env (fst x)"
  by (cases x) simp

lemma env_countConnection [simp]: "env (fst (countConnection p b x)) = env (fst x)"
  by (cases x) simp

lemma env_onDisconnect [simp]: "env (fst (onDisconnect p m x)) = env (fst x)"
  by (simp add: onDisconnect.simps Let_def case_prod_beta)

lemma env_onShuffle [simp]: "env (fst (onShuffle sender m x)) = env (fst x)"
  by (cases x) (simp add: onShuffle.simps Let_def case_prod_beta split: option.splits)

lemma env_dispatchMessage [simp]: "env (fst (dispatchMessage sender m x)) = env (fst x)"
  by (cases m) (simp_all add: onJoin.simps onForwardJoin.simps onNeighbor.simps onShuffleReply.simps
      Let_def case_prod_beta del: forwardWalk.simps)

lemma env_handleMessage [simp]: "env (fst (handleMessage sender m x)) = env (fst x)"
  by (simp add: handleMessage.simps Let_def case_prod_beta)

lemma env_handleConnectionClosed [simp]: "env (fst (handleConnectionClosed p x)) = env (fst x)"
  by (simp add: handleConnectionClosed.simps Let_def case_prod_beta)

lemma env_handleShuffleTimer [simp]: "env (fst (handleShuffleTimer x)) = env (fst x)"
  by (cases x) (simp add: handleShuffleTimer.simps Let_def case_prod_beta split: option.splits)

lemma env_handlePendingNeighborTimer [simp]: "env (fst (handlePendingNeighborTimer p x)) = env (fst x)"
  by (cases x) (simp add: handlePendingNeighborTimer.simps)

lemma env_handleJoin [simp]: "env (fst (handleJoin p x)) = env (fst x)"
  by (cases x) (simp add: handleJoin.simps)

lemma env_quitPeers [simp]: "env (fst (quitPeers ps x)) = env (fst x)"
  by (induction ps x rule: quitPeers.induct) auto

lemma env_dispatchEvent [simp]: "env (fst (dispatchEvent ev x)) = env (fst x)"
  by (induction ev x rule: dispatchEvent.induct) simp_all

lemma env_Handle [simp]: "env (fst (HyparviewState_Handle s ev)) = env s"
  using Handle_eq [of ev s "fst (dispatchEvent ev (s, []))" "snd (dispatchEvent ev (s, []))"] by simp

interpretation hyparview_env: io_machine HyparviewState_Handle "\<lambda>s. env s = e"
  by unfold_locales (metis env_Handle fst_conv)

section \<open>Admission to the active view\<close>

lemma active_insertActive [simp]:
  "set (hv_active (fst (insertActive p pr reply x))) = insert p (set (hv_active (fst x)))"
  by (cases x) (auto simp: insertActive.simps Let_def)

lemma addActive_refused:
  "\<not> fst (addActive p d pr reply x) \<longleftrightarrow>
     p = hv_me (fst x) \<or> (p \<notin> set (hv_active (fst x)) \<and> pr = PriorityLow \<and>
       int (length (hv_active (fst x))) \<ge> ActiveViewCapacity (hv_config (fst x)))"
proof -
  have "env (fst (insertPeerInfo i x)) = env (fst x)" for i by simp
  thus ?thesis by (auto simp: addActive.simps Let_def case_prod_beta env_def)
qed

lemma addActive_admitted: "fst (addActive p d pr reply x) \<Longrightarrow> p \<in> set (hv_active (fst (snd (addActive p d pr reply x))))"
  by (auto simp: addActive.simps Let_def case_prod_beta split: if_splits)

lemma addActive_refused_view:
  "\<not> fst (addActive p d pr reply x) \<Longrightarrow> hv_active (fst (snd (addActive p d pr reply x))) = hv_active (fst x)"
  by (auto simp: addActive.simps Let_def case_prod_beta split: if_splits)

lemma Handle_message:
  "HyparviewState_Handle s (HyparviewRecvMessage sender m) =
     (let x = handleMessage sender m (s, []) in
      (forgetStrangers ((fst x)\<lparr>hv_shuffleScheduled := True\<rparr>),
       snd x @ (if hv_shuffleScheduled (fst x) then []
                else [HyparviewScheduleTimer (ShuffleInterval (hv_config (fst x))) HyparviewTimerDoShuffle])))"
  using Handle_eq [of "HyparviewRecvMessage sender m" s "fst (handleMessage sender m (s, []))"] by (simp add: Let_def)

lemma active_Handle_message:
  "hv_active (fst (HyparviewState_Handle s (HyparviewRecvMessage sender m))) =
     hv_active (fst (dispatchMessage sender m (countConnection sender (isDisconnectMessage m) (s, []))))"
  by (simp add: Handle_message Let_def) (simp add: handleMessage.simps Let_def case_prod_beta)

lemma out_Handle_message:
  "set (snd (dispatchMessage sender m (countConnection sender (isDisconnectMessage m) (s, [])))) \<subseteq>
     set (snd (HyparviewState_Handle s (HyparviewRecvMessage sender m)))"
  by (simp add: Handle_message Let_def) (auto simp: handleMessage.simps Let_def case_prod_beta)

lemma onNeighbor_admission:
  fixes x :: hv and p nb
  assumes "hv_me (fst x) \<notin> set (hv_active (fst x))"
  defines "x' \<equiv> onNeighbor p nb x"
  shows "p \<in> set (hv_active (fst x')) \<longleftrightarrow>
      p \<noteq> hv_me (fst x) \<and> (p \<in> set (hv_active (fst x)) \<or> nb_Priority nb \<noteq> PriorityLow \<or>
        int (length (hv_active (fst x))) < ActiveViewCapacity (hv_config (fst x)))"
    and "p \<notin> set (hv_active (fst x')) \<Longrightarrow> hv_active (fst x') = hv_active (fst x) \<and>
      HyparviewSendMessage p (HyparviewDisconnect \<lparr>dc_Alive = True, dc_Respond = False\<rparr>) \<in> set (snd x')"
proof -
  let ?y = "forgetPending p x"
  let ?a = "addActive p (nb_Data nb) (nb_Priority nb) (\<not> isPending (fst x) p) ?y"
  have x': "x' = (if fst ?a then snd ?a else sendDisconnect p True (snd ?a))"
    by (simp add: x'_def onNeighbor.simps Let_def case_prod_beta)
  have e: "hv_me (fst ?y) = hv_me (fst x)" "hv_config (fst ?y) = hv_config (fst x)"
    using env_forgetPending [of p x] by (auto simp: env_def)
  note r = addActive_refused [of p "nb_Data nb" "nb_Priority nb" "\<not> isPending (fst x) p" ?y]
  show "p \<in> set (hv_active (fst x')) \<longleftrightarrow>
      p \<noteq> hv_me (fst x) \<and> (p \<in> set (hv_active (fst x)) \<or> nb_Priority nb \<noteq> PriorityLow \<or>
        int (length (hv_active (fst x))) < ActiveViewCapacity (hv_config (fst x)))"
    using assms(1) r addActive_admitted [of p "nb_Data nb" "nb_Priority nb" "\<not> isPending (fst x) p" ?y]
    by (cases "fst ?a") (auto simp: x' e addActive_refused_view)
  show "p \<notin> set (hv_active (fst x')) \<Longrightarrow> hv_active (fst x') = hv_active (fst x) \<and>
      HyparviewSendMessage p (HyparviewDisconnect \<lparr>dc_Alive = True, dc_Respond = False\<rparr>) \<in> set (snd x')"
    using addActive_admitted [of p "nb_Data nb" "nb_Priority nb" "\<not> isPending (fst x) p" ?y]
      sendDisconnect_tells [of p True "snd ?a"]
    by (cases "fst ?a") (simp_all add: x' addActive_refused_view)
qed

section \<open>Shuffles\<close>

lemma sendShuffleReply_result:
  fixes n :: nat
  assumes "hv_inv s"
  shows "\<exists>r nodes. sendShuffleReply p (int n) (s, out) =
      (s\<lparr>hv_rand := r\<rparr>, out @ [HyparviewSendMessage p (HyparviewShuffleReply \<lparr>sr_Nodes = nodes\<rparr>)]) \<and>
    length nodes = min n (length (hv_passive s) + length (hv_active s)) \<and>
    distinct (map pi_ID nodes) \<and> set (map pi_ID nodes) \<subseteq> set (hv_passive s) \<union> set (hv_active s)"
proof -
  obtain ps r1 where ps: "peerList_shuffledN (hv_passive s) (hv_rand s) (int n) = (ps, r1)" by fastforce
  obtain as r2 where as: "peerList_shuffledN (hv_active s) r1 (int n - int (length ps)) = (as, r2)" by fastforce
  have P: "set ps \<subseteq> set (hv_passive s)" "length ps = min n (length (hv_passive s))"
      "distinct (hv_passive s) \<Longrightarrow> distinct ps"
    using peerList_shuffledN_sub [of "hv_passive s" "hv_rand s" "int n"]
      peerList_shuffledN_length [of "hv_passive s" "hv_rand s" "int n"]
      peerList_shuffledN_distinct [of "hv_passive s" "hv_rand s" "int n"] by (simp_all add: ps)
  have A: "set as \<subseteq> set (hv_active s)" "length as = min (n - length ps) (length (hv_active s))"
      "distinct (hv_active s) \<Longrightarrow> distinct as"
    using peerList_shuffledN_sub [of "hv_active s" r1 "int n - int (length ps)"]
      peerList_shuffledN_length [of "hv_active s" r1 "int n - int (length ps)"]
      peerList_shuffledN_distinct [of "hv_active s" r1 "int n - int (length ps)"] by (simp_all add: as)
  have ids: "map pi_ID (map (peerInfo s) l) = l" for l by (simp add: peerInfo_def comp_def)
  have eq: "sendShuffleReply p (int n) (s, out) = (s\<lparr>hv_rand := r2\<rparr>, out @ [HyparviewSendMessage p
      (HyparviewShuffleReply \<lparr>sr_Nodes = map (peerInfo s) ps @ map (peerInfo s) as\<rparr>)])"
    by (simp add: sendShuffleReply.simps ps as)
  have "distinct (ps @ as)" "set (ps @ as) \<subseteq> set (hv_passive s) \<union> set (hv_active s)"
    using P A assms by (auto simp: hv_inv_def)
  moreover have "length (ps @ as) = min n (length (hv_passive s) + length (hv_active s))"
    using P A by simp
  ultimately show ?thesis unfolding eq
    by (intro exI [of _ r2] exI [of _ "map (peerInfo s) ps @ map (peerInfo s) as"] conjI refl)
       (simp_all only: ids map_append length_append length_map)
qed

lemma onShuffle_reply:
  assumes "hv_ok V x" "sh_Ttl m = 0 \<or> length (hv_active (fst x)) \<le> 1"
  shows "\<exists>nodes. HyparviewSendMessage (sh_Origin m) (HyparviewShuffleReply \<lparr>sr_Nodes = nodes\<rparr>)
        \<in> set (snd (onShuffle sender m x)) \<and>
      length nodes \<le> length (sh_Nodes m) \<and> distinct (map pi_ID nodes) \<and>
      set (map pi_ID nodes) \<subseteq> set (hv_passive (fst (onShuffle sender m x))) \<union> set (hv_active (fst (onShuffle sender m x)))"
proof -
  obtain s out where y: "addPassives (sh_Nodes m) x = (s, out)" by fastforce
  have "hv_ok V (s, out)" using assms(1) y by (metis hv_ok_addPassives)
  hence inv: "hv_inv s" by (simp add: hv_ok_def)
  have eq: "onShuffle sender m x = sendShuffleReply (sh_Origin m) (int (length (sh_Nodes m))) (s, out)"
    using assms(2) y by (cases x) (auto simp: onShuffle.simps)
  obtain r nodes where res: "sendShuffleReply (sh_Origin m) (int (length (sh_Nodes m))) (s, out) =
      (s\<lparr>hv_rand := r\<rparr>, out @ [HyparviewSendMessage (sh_Origin m) (HyparviewShuffleReply \<lparr>sr_Nodes = nodes\<rparr>)])"
    and nodes: "length nodes = min (length (sh_Nodes m)) (length (hv_passive s) + length (hv_active s))"
      "distinct (map pi_ID nodes)" "set (map pi_ID nodes) \<subseteq> set (hv_passive s) \<union> set (hv_active s)"
    using sendShuffleReply_result [OF inv, of "sh_Origin m" "length (sh_Nodes m)" out] by (elim exE conjE) (rule that)
  show ?thesis unfolding eq res using nodes by (intro exI [of _ nodes]) simp
qed

lemma passive_Handle_message:
  "hv_passive (fst (HyparviewState_Handle s (HyparviewRecvMessage sender m))) =
     hv_passive (fst (dispatchMessage sender m (countConnection sender (isDisconnectMessage m) (s, []))))"
  by (simp add: Handle_message Let_def) (simp add: handleMessage.simps Let_def case_prod_beta)

lemma hv_ok_start: "hv_inv s \<Longrightarrow> hv_ok (set (hv_active s)) (s, [])"
  by (simp add: hv_ok_def)

lemma Handle_tracks:
  assumes "hv_inv s" "\<not> isQuit ev"
  shows "neighbours (set (hv_active s)) (snd (HyparviewState_Handle s ev)) =
    Some (set (hv_active (fst (HyparviewState_Handle s ev))))"
proof -
  let ?x = "dispatchEvent ev (s, [])"
  have "hv_ok (set (hv_active s)) ?x" using assms by (intro hv_ok_dispatchEvent hv_ok_start)
  thus ?thesis using Handle_eq [of ev s "fst ?x" "snd ?x"] by (simp add: hv_ok_def neighbours_append)
qed

lemma Handle_disconnected:
  assumes "hv_inv s" shows "p \<notin> set (hv_active (fst (HyparviewState_Handle s (HyparviewPeerDisconnected p))))"
proof -
  let ?x = "handleConnectionClosed p (s, [])"
  have "distinct (hv_active s)" using assms by (simp add: hv_inv_def)
  hence "p \<notin> set (hv_active (fst ?x))"
    by (auto simp: handleConnectionClosed.simps Let_def case_prod_beta active_removeActive)
  thus ?thesis using Handle_eq [of "HyparviewPeerDisconnected p" s "fst ?x" "snd ?x"] by simp
qed

lemma Handle_quit: "hv_active (fst (HyparviewState_Handle s HyparviewQuit)) = []"
proof -
  let ?x = "quitPeers (hv_active s) (s, [])"
  have "hv_active (fst ?x) = []" using quitPeers_result [of s "hv_active s" "[]"] by auto
  thus ?thesis using Handle_eq [of HyparviewQuit s "fst ?x" "snd ?x"] by simp
qed

section \<open>Properties\<close>

lemma demo_joined_inv: "hv_inv demo_joined"
  unfolding demo_joined_def demo_new_def by (rule hyparview.run_inv [OF New_inv])

lemma demo_joined_reachable: "reachable_by HyparviewState_Handle demo_new demo_joined"
  unfolding demo_joined_def by (rule run_machine_reachable [OF reachable_by.start])

lemma demo_joined_views: "hv_active demo_joined = [[1], [2]]" "hv_passive demo_joined = []" "hv_me demo_joined = [0]"
    "ActiveViewCapacity (hv_config demo_joined) = 5"
  by code_simp+

text \<open>
  C9: starting from a new machine, whatever messages, timers and requests arrive and however the random
  source behaves, the active and the passive view are duplicate-free, disjoint, exclude the local peer
  and stay within the capacities of the configuration the machine was made with (a capacity of zero or
  less still admits one peer).
\<close>
theorem hyparview_views_bounded:
  assumes "reachable_by HyparviewState_Handle (NewHyparviewStateWithRand me data config r) s"
  shows "distinct (ActivePeers s) \<and> distinct (PassivePeers s) \<and>
    set (ActivePeers s) \<inter> set (PassivePeers s) = {} \<and>
    me \<notin> set (ActivePeers s) \<union> set (PassivePeers s) \<and>
    int (length (ActivePeers s)) \<le> max 1 (ActiveViewCapacity (effectiveConfig config)) \<and>
    int (length (PassivePeers s)) \<le> max 1 (PassiveViewCapacity (effectiveConfig config))"
proof -
  have "env s = (me, effectiveConfig config)"
    by (rule hyparview_env.reachable_inv [OF assms]) (simp add: env_def NewHyparviewStateWithRand_def)
  thus ?thesis using hyparview.reachable_inv [OF assms New_inv]
    by (simp add: hv_inv_def env_def ActivePeers_def PassivePeers_def)
qed

theorem hyparview_views_bounded_witness:
  "reachable_by HyparviewState_Handle (NewHyparviewStateWithRand [0] None DefaultHyparviewConfig [3, 1, 4]) demo_joined \<and>
   int (length (ActivePeers demo_joined)) \<le> max 1 (ActiveViewCapacity (effectiveConfig DefaultHyparviewConfig))"
  using hyparview_views_bounded [of "[0]" None DefaultHyparviewConfig "[3, 1, 4]" demo_joined] demo_joined_reachable
  by (simp add: demo_new_def)

text \<open>
  C15: the neighbour events a step emits are exactly the changes of the active view: replaying them
  over the old view gives the new one, no peer goes up twice and none goes down that is not up.  Only
  quitting empties the view without events.
\<close>
theorem hyparview_events_track_view:
  assumes "hv_inv s" "ev \<noteq> HyparviewQuit"
  shows "neighbours (set (ActivePeers s)) (snd (HyparviewState_Handle s ev)) = Some (set (ActivePeers (fst (HyparviewState_Handle s ev))))"
  using Handle_tracks [OF assms(1), of ev] assms(2) by (simp add: ActivePeers_def isQuit_def)

theorem hyparview_events_track_view_witness:
  "neighbours {[1], [2]} (snd (HyparviewState_Handle demo_joined (HyparviewPeerDisconnected [1]))) = Some {[2]}"
proof -
  have "set (hv_active (fst (HyparviewState_Handle demo_joined (HyparviewPeerDisconnected [1])))) = {[2]}" by code_simp
  thus ?thesis
    using hyparview_events_track_view [OF demo_joined_inv, of "HyparviewPeerDisconnected [1]"]
    by (simp add: ActivePeers_def demo_joined_views)
qed

text \<open>
  Quitting empties the active view, leaves the passive view alone and tells every active peer, in
  order: besides the shuffle replies the machine sends exactly a \<open>Disconnect\<close> that does not claim to
  stay alive and a request to close the connection, per peer.  When the shuffle timer was never set,
  the step also sets it.
\<close>
theorem hyparview_quit_says_goodbye:
  "hv_active (fst (HyparviewState_Handle s HyparviewQuit)) = [] \<and>
   hv_passive (fst (HyparviewState_Handle s HyparviewQuit)) = hv_passive s \<and>
   filter (\<lambda>e. \<not> (\<exists>p. isShuffleReplyTo p e)) (snd (HyparviewState_Handle s HyparviewQuit)) =
     concat (map goodbye (hv_active s)) @
     (if hv_shuffleScheduled s then []
      else [HyparviewScheduleTimer (ShuffleInterval (hv_config s)) HyparviewTimerDoShuffle])"
proof -
  obtain r es where q: "quitPeers (hv_active s) (s, []) = (s\<lparr>hv_active := [], hv_rand := r\<rparr>, es)"
    and es: "filter (\<lambda>e. \<not> (\<exists>p. isShuffleReplyTo p e)) es = concat (map goodbye (hv_active s))"
    using quitPeers_result [of s "hv_active s" "[]"] by auto
  have "dispatchEvent HyparviewQuit (s, []) = (s\<lparr>hv_active := [], hv_rand := r\<rparr>, es)" using q by simp
  note Handle_eq [OF this]
  thus ?thesis using es by simp
qed



text \<open>
  C26: a random walk is passed on to at most one peer, an active one other than the sender (and than the
  origin of a shuffle), with the time-to-live decreased by exactly one from a non-zero value, so it never
  wraps and the walk ends.
\<close>
theorem hyparview_walk_step:
  "(let ws = walks (snd (HyparviewState_Handle s (HyparviewRecvMessage sender (HyparviewForwardJoin m)))) in
    ws = [] \<or> (\<exists>n \<in> set (ActivePeers s) - {sender}. ws = [HyparviewSendMessage n
       (HyparviewForwardJoin (m\<lparr>fj_Ttl := fj_Ttl m - 1\<rparr>))] \<and> unat (fj_Ttl m - 1) < unat (fj_Ttl m))) \<and>
   (let ws = walks (snd (HyparviewState_Handle s (HyparviewRecvMessage sender (HyparviewShuffle sh)))) in
    ws = [] \<or> (\<exists>n \<in> set (ActivePeers s) - {sender, sh_Origin sh}. ws = [HyparviewSendMessage n
       (HyparviewShuffle (sh\<lparr>sh_Ttl := sh_Ttl sh - 1\<rparr>))] \<and> unat (sh_Ttl sh - 1) < unat (sh_Ttl sh)))"
proof -
  have dec: "t \<noteq> 0 \<Longrightarrow> unat (t - 1) < unat t" for t :: Ttl by (simp add: unat_gt_0 unat_minus_one)
  let ?x = "countConnection sender False (s, [])"
  show ?thesis
    using walks_onForwardJoin [of sender m ?x] walks_onShuffle [of sender sh ?x]
    by (auto simp: walks_Handle_message Let_def ActivePeers_def dec simp del: countConnection.simps)
qed

text \<open>
  C25: which neighbour requests are accepted.  A peer other than the machine itself that sends
  \<open>Neighbor\<close> is in the active view afterwards, unless it asks with low priority while the view is full
  and it is not in it.  A refused peer changes nothing in the active view and is told so by a
  \<open>Disconnect\<close> that keeps it in the other side's passive view, and its connection is closed.
\<close>
theorem hyparview_neighbor_admission:
  assumes "hv_inv s"
  shows "(let (s', out) = HyparviewState_Handle s (HyparviewRecvMessage p (HyparviewNeighbor nb)) in
    (p \<in> set (ActivePeers s') \<longleftrightarrow>
       p \<noteq> hv_me s \<and> (p \<in> set (ActivePeers s) \<or> nb_Priority nb \<noteq> PriorityLow \<or>
         int (length (ActivePeers s)) < ActiveViewCapacity (hv_config s))) \<and>
    (p \<notin> set (ActivePeers s') \<longrightarrow>
       ActivePeers s' = ActivePeers s \<and> HyparviewDisconnectPeer p \<in> set out \<and>
       HyparviewSendMessage p (HyparviewDisconnect \<lparr>dc_Alive = True, dc_Respond = False\<rparr>) \<in> set out))"
proof -
  let ?m = "HyparviewNeighbor nb"
  let ?x = "countConnection p False (s, [])"
  have e: "hv_me (fst ?x) = hv_me s" "hv_config (fst ?x) = hv_config s" by simp_all
  have me: "hv_me (fst ?x) \<notin> set (hv_active (fst ?x))" using assms by (simp add: hv_inv_def)
  note adm = onNeighbor_admission [OF me, of p nb]
  have close: "p \<notin> set (hv_active (fst (onNeighbor p nb ?x))) \<Longrightarrow>
      HyparviewDisconnectPeer p \<in> set (snd (HyparviewState_Handle s (HyparviewRecvMessage p ?m)))"
    by (simp add: Handle_message Let_def) (simp add: handleMessage.simps Let_def case_prod_beta)
  show ?thesis
    using adm close out_Handle_message [of p ?m s] active_Handle_message [of s p ?m]
    by (auto simp: case_prod_beta ActivePeers_def simp del: countConnection.simps simp: e)
qed

theorem hyparview_neighbor_admission_witness:
  "[9] \<in> set (ActivePeers (fst (HyparviewState_Handle demo_joined (HyparviewRecvMessage [9]
      (HyparviewNeighbor \<lparr>nb_Priority = PriorityLow, nb_Data = None\<rparr>)))))"
  using hyparview_neighbor_admission [OF demo_joined_inv, of "[9]" "\<lparr>nb_Priority = PriorityLow, nb_Data = None\<rparr>"]
  by (simp add: case_prod_beta ActivePeers_def demo_joined_views)

text \<open>
  A shuffle walk that ends here is answered to its origin with at most as many peers as it carried,
  each once and each a member of one of the views as they are after the step.
\<close>
theorem hyparview_shuffle_answered:
  assumes "hv_inv s" "sh_Ttl m = 0 \<or> length (ActivePeers s) \<le> 1"
  shows "(let (s', out) = HyparviewState_Handle s (HyparviewRecvMessage sender (HyparviewShuffle m)) in
    \<exists>nodes. HyparviewSendMessage (sh_Origin m) (HyparviewShuffleReply \<lparr>sr_Nodes = nodes\<rparr>) \<in> set out \<and>
      length nodes \<le> length (sh_Nodes m) \<and> distinct (map pi_ID nodes) \<and>
      set (map pi_ID nodes) \<subseteq> set (PassivePeers s') \<union> set (ActivePeers s'))"
proof -
  let ?m = "HyparviewShuffle m"
  let ?x = "countConnection sender False (s, [])"
  have "hv_ok (set (hv_active s)) ?x" using assms(1) by (intro hv_ok_countConnection hv_ok_start)
  moreover have "sh_Ttl m = 0 \<or> length (hv_active (fst ?x)) \<le> 1" using assms(2) by (simp add: ActivePeers_def)
  ultimately obtain nodes where
      "HyparviewSendMessage (sh_Origin m) (HyparviewShuffleReply \<lparr>sr_Nodes = nodes\<rparr>) \<in> set (snd (onShuffle sender m ?x))"
      "length nodes \<le> length (sh_Nodes m)" "distinct (map pi_ID nodes)"
      "set (map pi_ID nodes) \<subseteq> set (hv_passive (fst (onShuffle sender m ?x))) \<union> set (hv_active (fst (onShuffle sender m ?x)))"
    using onShuffle_reply [of _ ?x m sender] by blast
  thus ?thesis
    using out_Handle_message [of sender ?m s] active_Handle_message [of s sender ?m] passive_Handle_message [of s sender ?m]
    by (auto simp: case_prod_beta ActivePeers_def PassivePeers_def simp del: countConnection.simps intro!: exI [of _ nodes])
qed

theorem hyparview_shuffle_answered_witness:
  "\<exists>nodes. HyparviewSendMessage [4] (HyparviewShuffleReply \<lparr>sr_Nodes = nodes\<rparr>)
      \<in> set (snd (HyparviewState_Handle demo_joined (HyparviewRecvMessage [1]
            (HyparviewShuffle \<lparr>sh_Origin = [4], sh_Nodes = [\<lparr>pi_ID = [5], pi_Data = None\<rparr>], sh_Ttl = 0\<rparr>))))
    \<and> length nodes \<le> 1"
  using hyparview_shuffle_answered [OF demo_joined_inv, of "\<lparr>sh_Origin = [4], sh_Nodes = [\<lparr>pi_ID = [5], pi_Data = None\<rparr>], sh_Ttl = 0\<rparr>" "[1]"]
  by (force simp: case_prod_beta)

end
