(* ===== verification/Plumtree.thy ===== *)
theory Plumtree
  imports Gossip_Wire
begin

text \<open>
  \<open>internal/gossipproto/plumtree.go\<close>: the PlumTree broadcast state machine.  Methods are functions on
  the pair of the state and the outputs appended so far.  \<open>blake3.Sum256\<close> is third-party code: the
  parameter \<open>hash\<close> of every operation that computes a message id.  The iteration order of Go maps, where
  it shows in the outputs, is drawn from \<open>pt_order\<close>; the field has no counterpart in the source.
  The retained messages and announcements carry the expiry time as the source computes it.

  The invariant \<open>pt_inv\<close>: the eager and the lazy peers are disjoint, the counters \<open>nmissing\<close> and
  \<open>ntargets\<close> count exactly the announced and undelivered messages and respect their bounds, and every
  cached message is the one its id names.
\<close>

section \<open>Configuration, events and state\<close>

datatype Scope = ScopeSwarm | ScopeNeighbors

record PlumtreeConfig =
  GraftTimeout1 :: duration
  GraftTimeout2 :: duration
  DispatchTimeout :: duration
  OptimizationThreshold :: Round
  MessageCacheRetention :: duration
  MessageIDRetention :: duration
  CacheEvictInterval :: duration
  PlumtreeMaxPayloadSize :: int

definition DefaultPlumtreeConfig :: PlumtreeConfig where
  "DefaultPlumtreeConfig =
     \<lparr>GraftTimeout1 = 80 * millisecond, GraftTimeout2 = 40 * millisecond, DispatchTimeout = 5 * millisecond,
      OptimizationThreshold = 7, MessageCacheRetention = 30 * second, MessageIDRetention = 90 * second,
      CacheEvictInterval = second, PlumtreeMaxPayloadSize = DefaultMaxPayloadSize\<rparr>"

definition zeroPlumtreeConfig :: PlumtreeConfig where
  "zeroPlumtreeConfig =
     \<lparr>GraftTimeout1 = 0, GraftTimeout2 = 0, DispatchTimeout = 0, OptimizationThreshold = 0,
      MessageCacheRetention = 0, MessageIDRetention = 0, CacheEvictInterval = 0, PlumtreeMaxPayloadSize = 0\<rparr>"

record PlumtreeStats =
  PayloadMessagesReceived :: u64
  ControlMessagesReceived :: u64
  MaxLastDeliveryHop :: u16

datatype PlumtreeTimer =
    PlumtreeTimerSendGraft MessageID
  | PlumtreeTimerDispatchLazyPush
  | PlumtreeTimerEvictCache

datatype PlumtreeInKind =
    PlumtreeRecvMessage PeerID PlumtreeMessage
  | PlumtreeBroadcast bytes Scope
  | PlumtreeTimerExpired PlumtreeTimer
  | PlumtreeNeighborUp PeerID
  | PlumtreeNeighborDown PeerID

record PlumtreeInEvent =
  pe_Kind :: PlumtreeInKind
  pe_Now :: gotime

datatype PlumtreeEvent = PlumtreeReceived bytes PeerID DeliveryScope

datatype PlumtreeOutEvent =
    PlumtreeSendMessage PeerID PlumtreeMessage
  | PlumtreeScheduleTimer duration PlumtreeTimer
  | PlumtreeEmitEvent PlumtreeEvent

record graftTarget =
  gt_peer :: PeerID
  gt_round :: Round

record cachedGossip =
  cg_message :: Gossip
  cg_expire :: gotime

record PlumtreeState =
  pt_me :: PeerID
  pt_config :: PlumtreeConfig
  pt_eager :: "PeerID list"
  pt_lazy :: "PeerID list"
  pt_lazyQueue :: "(PeerID, IHave list) gomap"
  pt_missing :: "(MessageID, graftTarget list) gomap"
  pt_nmissing :: "(PeerID, int) gomap"
  pt_ntargets :: int
  pt_received :: "(MessageID, gotime) gomap"
  pt_cache :: "(MessageID, cachedGossip) gomap"
  pt_graftTimerScheduled :: "MessageID list"
  pt_dispatchTimerScheduled :: bool
  pt_init :: bool
  pt_stats :: PlumtreeStats
  pt_maxPayloadSize :: int
  pt_order :: rand

type_synonym pt = "PlumtreeState \<times> PlumtreeOutEvent list"

definition maxMissingPerPeer :: int where "maxMissingPerPeer = 1024"
definition maxMissing :: int where "maxMissing = 16 * maxMissingPerPeer"

definition effectivePlumtreeConfig :: "PlumtreeConfig \<Rightarrow> PlumtreeConfig" where
  "effectivePlumtreeConfig config =
     (let config1 = (if config = zeroPlumtreeConfig then DefaultPlumtreeConfig else config) in
      if PlumtreeMaxPayloadSize config1 \<le> 0
      then config1\<lparr>PlumtreeMaxPayloadSize := DefaultMaxPayloadSize\<rparr> else config1)"

definition NewPlumtreeState :: "PeerID \<Rightarrow> PlumtreeConfig \<Rightarrow> rand \<Rightarrow> PlumtreeState" where
  "NewPlumtreeState me config order =
     (let config' = effectivePlumtreeConfig config in
      \<lparr>pt_me = me, pt_config = config', pt_eager = [], pt_lazy = [], pt_lazyQueue = [], pt_missing = [],
       pt_nmissing = [], pt_ntargets = 0, pt_received = [], pt_cache = [], pt_graftTimerScheduled = [],
       pt_dispatchTimerScheduled = False, pt_init = False,
       pt_stats = \<lparr>PayloadMessagesReceived = 0, ControlMessagesReceived = 0, MaxLastDeliveryHop = 0\<rparr>,
       pt_maxPayloadSize = PlumtreeMaxPayloadSize config', pt_order = order\<rparr>)"

section \<open>The eager and the lazy set\<close>

definition addEager :: "PeerID \<Rightarrow> PlumtreeState \<Rightarrow> PlumtreeState" where
  "addEager peer s = s\<lparr>pt_lazy := sdel peer (pt_lazy s), pt_eager := sadd peer (pt_eager s)\<rparr>"

definition addLazy :: "PeerID \<Rightarrow> PlumtreeState \<Rightarrow> PlumtreeState" where
  "addLazy peer s = s\<lparr>pt_eager := sdel peer (pt_eager s), pt_lazy := sadd peer (pt_lazy s)\<rparr>"

fun eagerPush :: "Gossip \<Rightarrow> PeerID \<Rightarrow> pt \<Rightarrow> pt" where
  "eagerPush message sender (s, out) =
     (let (peers, order) = range_order (pt_order s) (pt_eager s) in
      (s\<lparr>pt_order := order\<rparr>,
       out @ map (\<lambda>peer. PlumtreeSendMessage peer (PlumtreeGossip message))
               (filter (\<lambda>peer. \<not> (peer = pt_me s \<or> peer = sender)) peers)))"

fun isSwarm :: "DeliveryScope \<Rightarrow> bool" where
  "isSwarm (DeliveryScopeSwarm r) = True"
| "isSwarm _ = False"

fun scopeRound :: "DeliveryScope \<Rightarrow> Round" where
  "scopeRound (DeliveryScopeSwarm r) = r"
| "scopeRound _ = 0"

fun queueIHave :: "IHave \<Rightarrow> PeerID \<Rightarrow> PeerID list \<Rightarrow> (PeerID, IHave list) gomap \<Rightarrow> (PeerID, IHave list) gomap" where
  "queueIHave h sender [] q = q"
| "queueIHave h sender (peer # peers) q =
     queueIHave h sender peers
       (if peer = sender then q
        else mput peer ((case map_of q peer of None \<Rightarrow> [] | Some hs \<Rightarrow> hs) @ [h]) q)"

fun lazyPush :: "Gossip \<Rightarrow> PeerID \<Rightarrow> pt \<Rightarrow> pt" where
  "lazyPush message sender (s, out) =
     (if \<not> isSwarm (g_Scope message) then (s, out)
      else
        let s1 = s\<lparr>pt_lazyQueue := queueIHave \<lparr>ih_ID = g_ID message, ih_Round = scopeRound (g_Scope message)\<rparr>
                     sender (pt_lazy s) (pt_lazyQueue s)\<rparr>
        in if \<not> pt_dispatchTimerScheduled s1
           then (s1\<lparr>pt_dispatchTimerScheduled := True\<rparr>,
                 out @ [PlumtreeScheduleTimer (DispatchTimeout (pt_config s)) PlumtreeTimerDispatchLazyPush])
           else (s1, out))"

section \<open>Announced messages\<close>

definition nmissing :: "PlumtreeState \<Rightarrow> PeerID \<Rightarrow> int" where
  "nmissing s peer = (case map_of (pt_nmissing s) peer of None \<Rightarrow> 0 | Some n \<Rightarrow> n)"

definition missing :: "PlumtreeState \<Rightarrow> MessageID \<Rightarrow> graftTarget list" where
  "missing s i = (case map_of (pt_missing s) i of None \<Rightarrow> [] | Some ts \<Rightarrow> ts)"

definition forgetMissing :: "PeerID \<Rightarrow> PlumtreeState \<Rightarrow> PlumtreeState" where
  "forgetMissing peer s =
     (let s1 = s\<lparr>pt_ntargets := pt_ntargets s - 1\<rparr> in
      if nmissing s1 peer \<le> 1 then s1\<lparr>pt_nmissing := mdel peer (pt_nmissing s1)\<rparr>
      else s1\<lparr>pt_nmissing := mput peer (nmissing s1 peer - 1) (pt_nmissing s1)\<rparr>)"

fun hasGraftTarget :: "graftTarget list \<Rightarrow> PeerID \<Rightarrow> bool" where
  "hasGraftTarget [] peer = False"
| "hasGraftTarget (target # targets) peer =
     (if gt_peer target = peer then True else hasGraftTarget targets peer)"

definition removeGraftTargets :: "graftTarget list \<Rightarrow> PeerID \<Rightarrow> graftTarget list" where
  "removeGraftTargets targets peer = filter (\<lambda>target. gt_peer target \<noteq> peer) targets"

fun bestTarget :: "graftTarget \<Rightarrow> graftTarget list \<Rightarrow> graftTarget" where
  "bestTarget best [] = best"
| "bestTarget best (candidate # cs) =
     bestTarget (if gt_round candidate < gt_round best then candidate else best) cs"

fun optimizeTree :: "PeerID \<Rightarrow> Gossip \<Rightarrow> graftTarget list \<Rightarrow> pt \<Rightarrow> pt" where
  "optimizeTree sender message [] x = x"
| "optimizeTree sender message (t # ts) (s, out) =
     (if \<not> isSwarm (g_Scope message) then (s, out)
      else
        let best = bestTarget t ts;
            round = scopeRound (g_Scope message)
        in if gt_round best < round \<and> round - gt_round best \<ge> OptimizationThreshold (pt_config s)
           then
             let (s1, out1) =
                   (if gt_peer best \<notin> set (pt_eager s)
                    then (addEager (gt_peer best) s,
                          out @ [PlumtreeSendMessage (gt_peer best)
                                   (PlumtreeGraft \<lparr>gr_ID = None, gr_Round = gt_round best\<rparr>)])
                    else (s, out))
             in (addLazy sender s1, out1 @ [PlumtreeSendMessage sender PlumtreePrune])
           else (s, out))"

fun forgetAllMissing :: "graftTarget list \<Rightarrow> PlumtreeState \<Rightarrow> PlumtreeState" where
  "forgetAllMissing [] s = s"
| "forgetAllMissing (target # targets) s = forgetAllMissing targets (forgetMissing (gt_peer target) s)"

section \<open>Messages\<close>

fun bumpRound :: "Gossip \<Rightarrow> Gossip" where
  "bumpRound message = message\<lparr>g_Scope :=
     (case g_Scope message of DeliveryScopeSwarm r \<Rightarrow> DeliveryScopeSwarm (r + 1) | sc \<Rightarrow> sc)\<rparr>"

fun settleMissing :: "MessageID \<Rightarrow> PlumtreeState \<Rightarrow> PlumtreeState" where
  "settleMissing i s =
     forgetAllMissing (missing s i)
       (s\<lparr>pt_graftTimerScheduled := sdel i (pt_graftTimerScheduled s), pt_missing := mdel i (pt_missing s)\<rparr>)"

fun noteHop :: "Round \<Rightarrow> PlumtreeState \<Rightarrow> PlumtreeState" where
  "noteHop r s =
     (if r > MaxLastDeliveryHop (pt_stats s)
      then s\<lparr>pt_stats := (pt_stats s)\<lparr>MaxLastDeliveryHop := r\<rparr>\<rparr> else s)"

fun acceptSwarm :: "PeerID \<Rightarrow> Gossip \<Rightarrow> gotime \<Rightarrow> pt \<Rightarrow> pt" where
  "acceptSwarm sender message now (s, out) =
     (let i = g_ID message;
          forward = bumpRound message;
          s1 = s\<lparr>pt_received := mput i (now + MessageIDRetention (pt_config s)) (pt_received s),
                 pt_cache := mput i \<lparr>cg_message = forward,
                   cg_expire = now + MessageCacheRetention (pt_config s)\<rparr> (pt_cache s)\<rparr>;
          (s2, out2) = lazyPush forward sender (eagerPush forward sender (s1, out));
          previous = missing s2 i;
          (s3, out3) = optimizeTree sender forward previous (settleMissing i s2, out2)
      in (noteHop (scopeRound (g_Scope message)) s3, out3))"

fun onGossip :: "(bytes \<Rightarrow> MessageID) \<Rightarrow> PeerID \<Rightarrow> Gossip \<Rightarrow> gotime \<Rightarrow> pt \<Rightarrow> pt" where
  "onGossip hash sender message now (s, out) =
     (if g_ID message \<noteq> hash (g_Content message) then (s, out)
      else if map_of (pt_received s) (g_ID message) \<noteq> None
      then (addLazy sender s, out @ [PlumtreeSendMessage sender PlumtreePrune])
      else
        let (s1, out1) = (if isSwarm (g_Scope message) then acceptSwarm sender message now (s, out) else (s, out))
        in (s1, out1 @ [PlumtreeEmitEvent (PlumtreeReceived (g_Content message) sender (g_Scope message))]))"

definition ihaveRefused :: "PeerID \<Rightarrow> MessageID \<Rightarrow> PlumtreeState \<Rightarrow> bool" where
  "ihaveRefused sender i s \<longleftrightarrow>
     nmissing s sender \<ge> maxMissingPerPeer \<or> pt_ntargets s \<ge> maxMissing \<or>
     int (length (pt_graftTimerScheduled s)) \<ge> maxMissing \<or> hasGraftTarget (missing s i) sender"

fun onIHaveOne :: "PeerID \<Rightarrow> IHave \<Rightarrow> pt \<Rightarrow> pt" where
  "onIHaveOne sender h (s, out) =
     (let i = ih_ID h in
      if map_of (pt_received s) i \<noteq> None then (s, out)
      else if ihaveRefused sender i s then (s, out)
      else
        let s1 = s\<lparr>pt_missing := mput i (missing s i @ [\<lparr>gt_peer = sender, gt_round = ih_Round h\<rparr>]) (pt_missing s),
                   pt_nmissing := mput sender (nmissing s sender + 1) (pt_nmissing s),
                   pt_ntargets := pt_ntargets s + 1\<rparr>
        in if i \<notin> set (pt_graftTimerScheduled s1)
           then (s1\<lparr>pt_graftTimerScheduled := sadd i (pt_graftTimerScheduled s1)\<rparr>,
                 out @ [PlumtreeScheduleTimer (GraftTimeout1 (pt_config s)) (PlumtreeTimerSendGraft i)])
           else (s1, out))"

fun onIHave :: "PeerID \<Rightarrow> IHave list \<Rightarrow> pt \<Rightarrow> pt" where
  "onIHave sender [] x = x"
| "onIHave sender (h # hs) x = onIHave sender hs (onIHaveOne sender h x)"

fun onGraft :: "PeerID \<Rightarrow> Graft \<Rightarrow> pt \<Rightarrow> pt" where
  "onGraft sender graft (s, out) =
     (let s1 = addEager sender s in
      case gr_ID graft of
        None \<Rightarrow> (s1, out)
      | Some i \<Rightarrow>
          (case map_of (pt_cache s1) i of
             Some cached \<Rightarrow> (s1, out @ [PlumtreeSendMessage sender (PlumtreeGossip (cg_message cached))])
           | None \<Rightarrow> (s1, out)))"

fun isGossip :: "PlumtreeMessage \<Rightarrow> bool" where
  "isGossip (PlumtreeGossip g) = True"
| "isGossip _ = False"

fun countMessage :: "PlumtreeMessage \<Rightarrow> PlumtreeStats \<Rightarrow> PlumtreeStats" where
  "countMessage message st =
     (if isGossip message then st\<lparr>PayloadMessagesReceived := PayloadMessagesReceived st + 1\<rparr>
      else st\<lparr>ControlMessagesReceived := ControlMessagesReceived st + 1\<rparr>)"

fun PlumtreeState_dispatch :: "(bytes \<Rightarrow> MessageID) \<Rightarrow> PeerID \<Rightarrow> PlumtreeMessage \<Rightarrow> gotime \<Rightarrow> pt \<Rightarrow> pt" where
  "PlumtreeState_dispatch hash sender (PlumtreeGossip g) now x = onGossip hash sender g now x"
| "PlumtreeState_dispatch hash sender PlumtreePrune now (s, out) = (addLazy sender s, out)"
| "PlumtreeState_dispatch hash sender (PlumtreeIHave hs) now x = onIHave sender hs x"
| "PlumtreeState_dispatch hash sender (PlumtreeGraft g) now x = onGraft sender g x"
| "PlumtreeState_dispatch hash sender (PlumtreeUnknown k) now x = x"

fun PlumtreeState_handleMessage :: "(bytes \<Rightarrow> MessageID) \<Rightarrow> PeerID \<Rightarrow> PlumtreeMessage \<Rightarrow> gotime \<Rightarrow> pt \<Rightarrow> pt" where
  "PlumtreeState_handleMessage hash sender message now (s, out) =
     PlumtreeState_dispatch hash sender message now
       (s\<lparr>pt_stats := countMessage message (pt_stats s)\<rparr>, out)"

fun broadcast :: "(bytes \<Rightarrow> MessageID) \<Rightarrow> bytes \<Rightarrow> Scope \<Rightarrow> gotime \<Rightarrow> pt \<Rightarrow> pt" where
  "broadcast hash content scope now (s, out) =
     (let i = hash content;
          dscope = (if scope = ScopeNeighbors then DeliveryScopeNeighbors else DeliveryScopeSwarm 0);
          message = \<lparr>g_ID = i, g_Content = content, g_Scope = dscope\<rparr>;
          x1 = (if isSwarm dscope
                then lazyPush message (pt_me s)
                  (s\<lparr>pt_received := mput i (now + MessageIDRetention (pt_config s)) (pt_received s),
                     pt_cache := mput i \<lparr>cg_message = message,
                       cg_expire = now + MessageCacheRetention (pt_config s)\<rparr> (pt_cache s)\<rparr>, out)
                else (s, out))
      in eagerPush message (pt_me s) x1)"

section \<open>Timers\<close>

fun onSendGraftTimer :: "MessageID \<Rightarrow> pt \<Rightarrow> pt" where
  "onSendGraftTimer i (s, out) =
     (let s1 = s\<lparr>pt_graftTimerScheduled := sdel i (pt_graftTimerScheduled s)\<rparr> in
      if map_of (pt_received s1) i \<noteq> None then (s1, out)
      else
        case missing s1 i of
          [] \<Rightarrow> (s1, out)
        | target # targets \<Rightarrow>
            let s2 = s1\<lparr>pt_missing := (if length targets = 0 then mdel i (pt_missing s1)
                                       else mput i targets (pt_missing s1))\<rparr>;
                s3 = addEager (gt_peer target) (forgetMissing (gt_peer target) s2)
            in (s3, out @ [PlumtreeSendMessage (gt_peer target)
                             (PlumtreeGraft \<lparr>gr_ID = Some i, gr_Round = gt_round target\<rparr>),
                           PlumtreeScheduleTimer (GraftTimeout2 (pt_config s)) (PlumtreeTimerSendGraft i)]))"

definition chunkLen :: "PlumtreeState \<Rightarrow> nat" where
  "chunkLen s = (let n = (pt_maxPayloadSize s - 3) div iHavePostcardMaxSize in if n < 1 then 1 else nat n)"

text \<open>The inner loop of \<open>onDispatchTimer\<close>; the chunk length is never zero.\<close>

function ihaveChunks :: "nat \<Rightarrow> IHave list \<Rightarrow> IHave list list" where
  "ihaveChunks c ihaves =
     (if ihaves = [] \<or> c = 0 then []
      else let n = min c (length ihaves) in take n ihaves # ihaveChunks c (drop n ihaves))"
  by auto
termination by (relation "measure (\<lambda>(c, ihaves). length ihaves)") auto

fun onDispatchTimer :: "pt \<Rightarrow> pt" where
  "onDispatchTimer (s, out) =
     (let (queues, order) = range_order (pt_order s) (pt_lazyQueue s) in
      (s\<lparr>pt_order := order, pt_lazyQueue := [], pt_dispatchTimerScheduled := False\<rparr>,
       out @ concat (map (\<lambda>(peer, ihaves).
         map (\<lambda>chunk. PlumtreeSendMessage peer (PlumtreeIHave chunk)) (ihaveChunks (chunkLen s) ihaves)) queues)))"

fun onEvictCacheTimer :: "gotime \<Rightarrow> pt \<Rightarrow> pt" where
  "onEvictCacheTimer now (s, out) =
     (s\<lparr>pt_received := mfilter (\<lambda>_ expire. \<not> (\<not> expire > now)) (pt_received s),
        pt_cache := mfilter (\<lambda>_ cached. \<not> (\<not> cg_expire cached > now)) (pt_cache s)\<rparr>,
      out @ [PlumtreeScheduleTimer (CacheEvictInterval (pt_config s)) PlumtreeTimerEvictCache])"

fun onNeighborDown :: "PeerID \<Rightarrow> PlumtreeState \<Rightarrow> PlumtreeState" where
  "onNeighborDown peer s =
     s\<lparr>pt_missing := mfilter (\<lambda>_ targets. length targets \<noteq> 0)
         (map (\<lambda>(i, targets). (i, removeGraftTargets targets peer)) (pt_missing s)),
       pt_ntargets := pt_ntargets s - nmissing s peer,
       pt_nmissing := mdel peer (pt_nmissing s),
       pt_eager := sdel peer (pt_eager s),
       pt_lazy := sdel peer (pt_lazy s)\<rparr>"

fun PlumtreeState_event :: "(bytes \<Rightarrow> MessageID) \<Rightarrow> PlumtreeInKind \<Rightarrow> gotime \<Rightarrow> pt \<Rightarrow> pt" where
  "PlumtreeState_event hash (PlumtreeRecvMessage sender m) now x = PlumtreeState_handleMessage hash sender m now x"
| "PlumtreeState_event hash (PlumtreeBroadcast content scope) now x = broadcast hash content scope now x"
| "PlumtreeState_event hash (PlumtreeTimerExpired PlumtreeTimerDispatchLazyPush) now x = onDispatchTimer x"
| "PlumtreeState_event hash (PlumtreeTimerExpired (PlumtreeTimerSendGraft i)) now x = onSendGraftTimer i x"
| "PlumtreeState_event hash (PlumtreeTimerExpired PlumtreeTimerEvictCache) now x = onEvictCacheTimer now x"
| "PlumtreeState_event hash (PlumtreeNeighborUp peer) now (s, out) = (addEager peer s, out)"
| "PlumtreeState_event hash (PlumtreeNeighborDown peer) now (s, out) = (onNeighborDown peer s, out)"

definition PlumtreeState_Handle :: "(bytes \<Rightarrow> MessageID) \<Rightarrow> PlumtreeState \<Rightarrow> PlumtreeInEvent \<Rightarrow> pt" where
  "PlumtreeState_Handle hash s ev =
     (let x = (if \<not> pt_init s then onEvictCacheTimer (pe_Now ev) (s\<lparr>pt_init := True\<rparr>, []) else (s, []))
      in PlumtreeState_event hash (pe_Kind ev) (pe_Now ev) x)"

end
