(* ===== verification/Plumtree_Inv.thy ===== *)
theory Plumtree_Inv
  imports Plumtree
begin

text \<open>
  The invariant of the PlumTree machine.  \<open>targets\<close> collects the targets of all announced and
  undelivered messages as a multiset; \<open>counts\<close> says that the two counters of the state count it,
  so that each operation's effect on the counters is one equation between multisets.  The machine is an
  instance of \<open>io_machine\<close>.
\<close>

section \<open>The invariant\<close>

definition targets :: "(MessageID, graftTarget list) gomap \<Rightarrow> graftTarget multiset" where
  "targets m = mset (concat (map snd m))"

definition of_peer :: "PeerID \<Rightarrow> graftTarget multiset \<Rightarrow> nat" where
  "of_peer p M = size (filter_mset (\<lambda>t. gt_peer t = p) M)"

definition get0 :: "(PeerID, int) gomap \<Rightarrow> PeerID \<Rightarrow> int" where
  "get0 m p = (case map_of m p of None \<Rightarrow> 0 | Some n \<Rightarrow> n)"

definition positive :: "(PeerID, int) gomap \<Rightarrow> bool" where
  "positive m \<longleftrightarrow> (\<forall>n \<in> snd ` set m. 1 \<le> n)"

definition counts :: "graftTarget multiset \<Rightarrow> (PeerID, int) gomap \<Rightarrow> int \<Rightarrow> bool" where
  "counts M nm nt \<longleftrightarrow> mwf nm \<and> (\<forall>p. get0 nm p = int (of_peer p M)) \<and> nt = int (size M) \<and>
     positive nm"

definition within_bounds :: "graftTarget multiset \<Rightarrow> bool" where
  "within_bounds M \<longleftrightarrow> (\<forall>p. int (of_peer p M) \<le> maxMissingPerPeer) \<and> int (size M) \<le> maxMissing"

definition lists_ok :: "(MessageID, graftTarget list) gomap \<Rightarrow> bool" where
  "lists_ok m \<longleftrightarrow> mwf m \<and> (\<forall>(i, ts) \<in> set m. ts \<noteq> [] \<and> distinct (map gt_peer ts))"

definition miss_inv :: "PlumtreeState \<Rightarrow> bool" where
  "miss_inv s \<longleftrightarrow> lists_ok (pt_missing s) \<and> within_bounds (targets (pt_missing s)) \<and>
     counts (targets (pt_missing s)) (pt_nmissing s) (pt_ntargets s) \<and>
     distinct (pt_graftTimerScheduled s) \<and> int (length (pt_graftTimerScheduled s)) \<le> maxMissing"

definition peers_inv :: "PlumtreeState \<Rightarrow> bool" where
  "peers_inv s \<longleftrightarrow> distinct (pt_eager s) \<and> distinct (pt_lazy s) \<and> set (pt_eager s) \<inter> set (pt_lazy s) = {}"

definition authentic :: "(bytes \<Rightarrow> MessageID) \<Rightarrow> Gossip \<Rightarrow> bool" where
  "authentic hash g \<longleftrightarrow> g_ID g = hash (g_Content g)"

definition cache_inv :: "(bytes \<Rightarrow> MessageID) \<Rightarrow> PlumtreeState \<Rightarrow> bool" where
  "cache_inv hash s \<longleftrightarrow> mwf (pt_received s) \<and> mwf (pt_cache s) \<and> mwf (pt_lazyQueue s) \<and>
     (\<forall>i c. map_of (pt_cache s) i = Some c \<longrightarrow> g_ID (cg_message c) = i \<and> authentic hash (cg_message c))"

definition pt_inv :: "(bytes \<Rightarrow> MessageID) \<Rightarrow> PlumtreeState \<Rightarrow> bool" where
  "pt_inv hash s \<longleftrightarrow> miss_inv s \<and> peers_inv s \<and> cache_inv hash s"

section \<open>Counting targets\<close>

lemma of_peer_add [simp]: "of_peer p (M + N) = of_peer p M + of_peer p N"
  by (simp add: of_peer_def)

lemma of_peer_add_mset [simp]: "of_peer p (add_mset t M) = (if gt_peer t = p then Suc (of_peer p M) else of_peer p M)"
  by (simp add: of_peer_def)

lemma of_peer_empty [simp]: "of_peer p {#} = 0"
  by (simp add: of_peer_def)

lemma of_peer_filter: "of_peer q (filter_mset (\<lambda>t. gt_peer t \<noteq> p) M) = (if q = p then 0 else of_peer q M)"
  by (induction M) (auto simp: of_peer_def)

lemma size_filter_of_peer: "size (filter_mset (\<lambda>t. gt_peer t \<noteq> p) M) + of_peer p M = size M"
  by (induction M) (auto simp: of_peer_def)

lemma within_bounds_sub: "within_bounds M \<Longrightarrow> N \<subseteq># M \<Longrightarrow> within_bounds N"
proof -
  assume M: "within_bounds M" and N: "N \<subseteq># M"
  have "int (of_peer p N) \<le> int (of_peer p M)" for p
    unfolding of_peer_def using N by (intro of_nat_mono size_mset_mono multiset_filter_mono)
  moreover have "int (size N) \<le> int (size M)" using N by (intro of_nat_mono size_mset_mono)
  ultimately show "within_bounds N" using M unfolding within_bounds_def by (meson order_trans)
qed

lemma targets_Nil [simp]: "targets [] = {#}"
  by (simp add: targets_def)

lemma targets_Cons [simp]: "targets ((i, ts) # m) = mset ts + targets m"
  by (simp add: targets_def)

lemma mdel_fresh: "map_of m k = None \<Longrightarrow> mdel k m = m"
  by (metis delete_id domIff dom_map_of_conv_image_fst)

lemma targets_mdel:
  "mwf m \<Longrightarrow> targets m = mset (case map_of m k of None \<Rightarrow> [] | Some ts \<Rightarrow> ts) + targets (mdel k m)"
proof (induction m)
  case (Cons e m)
  obtain i ts where e: "e = (i, ts)" by fastforce
  have "mwf m" "i = k \<Longrightarrow> map_of m k = None" using Cons.prems e
    by (auto simp: mwf_def map_of_eq_None_iff)
  thus ?case using Cons.IH mdel_fresh [of m k] by (cases "i = k") (simp_all add: e ac_simps)
qed simp

lemma targets_mput: "mwf m \<Longrightarrow> targets (mput k v m) = mset v + targets (mdel k m)"
proof (induction m)
  case (Cons e m)
  obtain i ts where e: "e = (i, ts)" by fastforce
  have "mwf m" "i = k \<Longrightarrow> map_of m k = None" using Cons.prems e
    by (auto simp: mwf_def map_of_eq_None_iff)
  thus ?case using Cons.IH mdel_fresh [of m k] by (cases "i = k") (simp_all add: e ac_simps)
qed simp

lemma targets_neighborDown:
  "targets (mfilter (\<lambda>_ ts. length ts \<noteq> 0) (map (\<lambda>(i, ts). (i, removeGraftTargets ts p)) m)) =
     filter_mset (\<lambda>t. gt_peer t \<noteq> p) (targets m)"
proof (induction m)
  case (Cons e m)
  obtain i ts where e: "e = (i, ts)" by fastforce
  show ?case using Cons.IH
    by (cases "filter (\<lambda>t. gt_peer t \<noteq> p) ts = []")
       (simp_all add: e mfilter_def removeGraftTargets_def flip: mset_filter)
qed (simp add: mfilter_def)

lemma hasGraftTarget_iff [simp]: "hasGraftTarget ts p \<longleftrightarrow> p \<in> gt_peer ` set ts"
  by (induction ts) auto

lemma get0_mput: "get0 (mput k v m) p = (if p = k then v else get0 m p)"
  by (simp add: get0_def mget_mput)

lemma get0_mdel: "get0 (mdel k m) p = (if p = k then 0 else get0 m p)"
  by (simp add: get0_def mget_mdel)

lemma nmissing_get0: "nmissing s p = get0 (pt_nmissing s) p"
  by (simp add: nmissing_def get0_def)

lemma positive_mput: "positive m \<Longrightarrow> 1 \<le> v \<Longrightarrow> positive (mput k v m)"
  by (induction m) (auto simp: positive_def)

lemma positive_mdel: "positive m \<Longrightarrow> positive (mdel k m)"
  by (induction m) (auto simp: positive_def)

lemma counts_forget:
  assumes "counts (add_mset t M) (pt_nmissing s) (pt_ntargets s)"
  shows "counts M (pt_nmissing (forgetMissing (gt_peer t) s)) (pt_ntargets (forgetMissing (gt_peer t) s))"
  using assms
  by (auto simp: counts_def forgetMissing_def nmissing_get0 get0_mput get0_mdel Let_def positive_mput positive_mdel)

lemma forgetMissing_frame:
  "\<exists>nm nt. forgetMissing p s = s\<lparr>pt_ntargets := nt, pt_nmissing := nm\<rparr>"
  by (simp add: forgetMissing_def Let_def) blast

lemma forgetAllMissing_counts:
  "\<exists>nm nt. forgetAllMissing ts s = s\<lparr>pt_ntargets := nt, pt_nmissing := nm\<rparr> \<and>
     (counts (mset ts + M) (pt_nmissing s) (pt_ntargets s) \<longrightarrow> counts M nm nt)"
proof (induction ts arbitrary: s)
  case Nil
  show ?case by (intro exI [of _ "pt_nmissing s"] exI [of _ "pt_ntargets s"]) simp
next
  case (Cons t ts)
  let ?s = "forgetMissing (gt_peer t) s"
  obtain nm nt where f: "?s = s\<lparr>pt_ntargets := nt, pt_nmissing := nm\<rparr>" using forgetMissing_frame by blast
  have c: "counts (mset (t # ts) + M) (pt_nmissing s) (pt_ntargets s) \<longrightarrow>
      counts (mset ts + M) (pt_nmissing ?s) (pt_ntargets ?s)"
    using counts_forget [of t "mset ts + M" s] by simp
  obtain nm' nt' where g: "forgetAllMissing ts ?s = ?s\<lparr>pt_ntargets := nt', pt_nmissing := nm'\<rparr>"
    "counts (mset ts + M) (pt_nmissing ?s) (pt_ntargets ?s) \<longrightarrow> counts M nm' nt'" using Cons.IH by blast
  show ?case by (rule exI [of _ nm'], rule exI [of _ nt']) (use c f g in auto)
qed

lemma lists_ok_mdel: "lists_ok m \<Longrightarrow> lists_ok (mdel i m)"
proof -
  have "set (mdel i m) \<subseteq> set m" by (simp add: AList.delete_eq)
  thus "lists_ok m \<Longrightarrow> lists_ok (mdel i m)" unfolding lists_ok_def using mwf_mdel [of m i] by blast
qed

lemma lists_ok_mput: "lists_ok m \<Longrightarrow> ts \<noteq> [] \<Longrightarrow> distinct (map gt_peer ts) \<Longrightarrow> lists_ok (mput i ts m)"
proof -
  have "set (mput i ts m) \<subseteq> insert (i, ts) (set m)" by (induction m) auto
  thus "lists_ok m \<Longrightarrow> ts \<noteq> [] \<Longrightarrow> distinct (map gt_peer ts) \<Longrightarrow> lists_ok (mput i ts m)"
    unfolding lists_ok_def using mwf_mput [of m i ts] by blast
qed

lemma missing_distinct: "lists_ok (pt_missing s) \<Longrightarrow> distinct (map gt_peer (missing s i))"
  by (auto simp: missing_def lists_ok_def split: option.splits dest!: map_of_SomeD)

lemma missing_targets:
  "lists_ok (pt_missing s) \<Longrightarrow> targets (pt_missing s) = mset (missing s i) + targets (mdel i (pt_missing s))"
  using targets_mdel [of "pt_missing s" i] by (simp add: missing_def lists_ok_def)

lemma length_sdel_le: "int (length xs) \<le> n \<Longrightarrow> int (length (sdel i xs)) \<le> n"
proof -
  have "length (sdel i xs) \<le> length xs" by (simp add: removeAll_filter_not_eq)
  thus "int (length xs) \<le> n \<Longrightarrow> int (length (sdel i xs)) \<le> n" by linarith
qed

lemma settleMissing_frame:
  "\<exists>nm nt g m. settleMissing i s =
     s\<lparr>pt_graftTimerScheduled := g, pt_missing := m, pt_ntargets := nt, pt_nmissing := nm\<rparr>"
  using forgetAllMissing_counts [of "missing s i"
    "s\<lparr>pt_graftTimerScheduled := sdel i (pt_graftTimerScheduled s), pt_missing := mdel i (pt_missing s)\<rparr>" "{#}"]
  by (simp only: settleMissing.simps) blast

lemma miss_inv_settleMissing:
  assumes "miss_inv s" shows "miss_inv (settleMissing i s)"
proof -
  let ?s = "s\<lparr>pt_graftTimerScheduled := sdel i (pt_graftTimerScheduled s), pt_missing := mdel i (pt_missing s)\<rparr>"
  let ?M = "targets (mdel i (pt_missing s))"
  have T: "targets (pt_missing s) = mset (missing s i) + ?M"
    using assms by (intro missing_targets) (simp add: miss_inv_def)
  obtain nm nt where f: "forgetAllMissing (missing s i) ?s = ?s\<lparr>pt_ntargets := nt, pt_nmissing := nm\<rparr>"
    and c: "counts (mset (missing s i) + ?M) (pt_nmissing ?s) (pt_ntargets ?s) \<longrightarrow> counts ?M nm nt"
    using forgetAllMissing_counts by blast
  have "counts ?M nm nt" using c assms T by (simp add: miss_inv_def)
  moreover have "within_bounds ?M"
    using assms T by (auto simp: miss_inv_def intro: within_bounds_sub)
  moreover have "int (length (sdel i (pt_graftTimerScheduled s))) \<le> maxMissing"
    using assms by (intro length_sdel_le) (simp add: miss_inv_def)
  ultimately show ?thesis using assms f by (simp add: miss_inv_def lists_ok_mdel)
qed

section \<open>Every operation keeps the invariant\<close>

definition honest :: "(bytes \<Rightarrow> MessageID) \<Rightarrow> PlumtreeOutEvent list \<Rightarrow> bool" where
  "honest hash out \<longleftrightarrow> (\<forall>p g. PlumtreeSendMessage p (PlumtreeGossip g) \<in> set out \<longrightarrow> authentic hash g)"

definition pt_ok :: "(bytes \<Rightarrow> MessageID) \<Rightarrow> pt \<Rightarrow> bool" where
  "pt_ok hash x \<longleftrightarrow> pt_inv hash (fst x) \<and> honest hash (snd x)"

lemma pt_ok_pair: "pt_ok hash (s, out) \<longleftrightarrow> pt_inv hash s \<and> honest hash out"
  by (simp add: pt_ok_def)

lemma honest_append [simp]: "honest hash (a @ b) \<longleftrightarrow> honest hash a \<and> honest hash b"
  by (auto simp: honest_def)

lemma honest_Nil [simp]: "honest hash []"
  by (simp add: honest_def)

lemma honest_Cons [simp]:
  "honest hash (e # es) \<longleftrightarrow> (\<forall>p g. e = PlumtreeSendMessage p (PlumtreeGossip g) \<longrightarrow> authentic hash g) \<and> honest hash es"
  by (auto simp: honest_def)

lemma pt_inv_addEager [intro]: "pt_inv hash s \<Longrightarrow> pt_inv hash (addEager p s)"
  by (auto simp: pt_inv_def miss_inv_def peers_inv_def cache_inv_def addEager_def)

lemma pt_inv_addLazy [intro]: "pt_inv hash s \<Longrightarrow> pt_inv hash (addLazy p s)"
  by (auto simp: pt_inv_def miss_inv_def peers_inv_def cache_inv_def addLazy_def)

lemma pt_ok_eagerPush [intro]: "pt_ok hash x \<Longrightarrow> authentic hash g \<Longrightarrow> pt_ok hash (eagerPush g sender x)"
  by (cases x) (auto simp: pt_ok_def pt_inv_def miss_inv_def peers_inv_def cache_inv_def honest_def
      case_prod_beta)

lemma mwf_queueIHave [intro]: "mwf q \<Longrightarrow> mwf (queueIHave h sender ps q)"
  by (induction h sender ps q rule: queueIHave.induct) auto

lemma pt_ok_lazyPush [intro]: "pt_ok hash x \<Longrightarrow> pt_ok hash (lazyPush g sender x)"
  by (cases x) (auto simp: pt_ok_def pt_inv_def miss_inv_def peers_inv_def cache_inv_def Let_def)

lemma pt_ok_optimizeTree [intro]: "pt_ok hash x \<Longrightarrow> pt_ok hash (optimizeTree sender g ts x)"
  by (induction sender g ts x rule: optimizeTree.induct) (auto simp: pt_ok_def Let_def)

lemma pt_inv_settleMissing [intro]:
  assumes "pt_inv hash s" shows "pt_inv hash (settleMissing i s)"
proof -
  obtain nm nt g m where f: "settleMissing i s =
     s\<lparr>pt_graftTimerScheduled := g, pt_missing := m, pt_ntargets := nt, pt_nmissing := nm\<rparr>"
    using settleMissing_frame by blast
  have "miss_inv (settleMissing i s)" using assms by (intro miss_inv_settleMissing) (simp add: pt_inv_def)
  moreover have "peers_inv (settleMissing i s)" "cache_inv hash (settleMissing i s)"
    using assms by (simp_all only: f) (simp_all add: pt_inv_def peers_inv_def cache_inv_def)
  ultimately show ?thesis by (simp add: pt_inv_def)
qed

lemma pt_inv_noteHop [intro]: "pt_inv hash s \<Longrightarrow> pt_inv hash (noteHop r s)"
  by (auto simp: pt_inv_def miss_inv_def peers_inv_def cache_inv_def)

lemma authentic_bumpRound [simp]: "authentic hash (bumpRound g) \<longleftrightarrow> authentic hash g"
  by (simp add: authentic_def)

lemma bumpRound_id [simp]: "g_ID (bumpRound g) = g_ID g" "g_Content (bumpRound g) = g_Content g"
  by simp_all

lemma pt_inv_store:
  assumes "pt_inv hash s" "authentic hash g" "g_ID g = i"
  shows "pt_inv hash (s\<lparr>pt_received := mput i t (pt_received s),
           pt_cache := mput i \<lparr>cg_message = g, cg_expire = e\<rparr> (pt_cache s)\<rparr>)"
  using assms by (auto simp: pt_inv_def miss_inv_def peers_inv_def cache_inv_def mget_mput)

declare eagerPush.simps [simp del] lazyPush.simps [simp del] optimizeTree.simps [simp del]
  settleMissing.simps [simp del] noteHop.simps [simp del] bumpRound.simps [simp del]

lemma pt_ok_acceptSwarm [intro]:
  assumes "pt_ok hash x" "authentic hash g" shows "pt_ok hash (acceptSwarm sender g now x)"
proof -
  obtain s out where x: "x = (s, out)" by fastforce
  define y where "y = lazyPush (bumpRound g) sender (eagerPush (bumpRound g) sender
    (s\<lparr>pt_received := mput (g_ID g) (now + MessageIDRetention (pt_config s)) (pt_received s),
       pt_cache := mput (g_ID g) \<lparr>cg_message = bumpRound g,
         cg_expire = now + MessageCacheRetention (pt_config s)\<rparr> (pt_cache s)\<rparr>, out))"
  have "pt_ok hash y" unfolding y_def using assms x
    by (intro pt_ok_lazyPush pt_ok_eagerPush) (auto simp: pt_ok_def intro!: pt_inv_store)
  hence "pt_ok hash (optimizeTree sender (bumpRound g) (missing (fst y) (g_ID g)) (settleMissing (g_ID g) (fst y), snd y))"
    by (intro pt_ok_optimizeTree) (auto simp: pt_ok_def)
  thus ?thesis using x by (auto simp: Let_def case_prod_beta pt_ok_def simp flip: y_def)
qed

lemma pt_ok_onGossip: "pt_ok hash x \<Longrightarrow> pt_ok hash (onGossip hash sender g now x)"
  using pt_ok_acceptSwarm [of hash x g sender now]
  by (cases x) (auto simp: Let_def pt_ok_def authentic_def case_prod_beta simp del: acceptSwarm.simps)

lemma miss_inv_announce:
  assumes "miss_inv s" "\<not> ihaveRefused p i s"
  shows "miss_inv (s\<lparr>pt_missing := mput i (missing s i @ [\<lparr>gt_peer = p, gt_round = r\<rparr>]) (pt_missing s),
           pt_nmissing := mput p (nmissing s p + 1) (pt_nmissing s), pt_ntargets := pt_ntargets s + 1\<rparr>)"
proof -
  let ?t = "\<lparr>gt_peer = p, gt_round = r\<rparr>"
  let ?m = "mput i (missing s i @ [?t]) (pt_missing s)"
  have L: "lists_ok (pt_missing s)" using assms by (simp add: miss_inv_def)
  have T: "targets ?m = add_mset ?t (targets (pt_missing s))"
    using L missing_targets [OF L, of i] by (simp add: targets_mput lists_ok_def)
  have "lists_ok ?m" using L missing_distinct [OF L, of i] assms(2)
    by (intro lists_ok_mput) (auto simp: ihaveRefused_def)
  moreover have "within_bounds (targets ?m)" "counts (targets ?m) (mput p (nmissing s p + 1) (pt_nmissing s)) (pt_ntargets s + 1)"
    using assms unfolding T
    by (auto simp: miss_inv_def within_bounds_def counts_def ihaveRefused_def nmissing_get0 get0_mput intro!: positive_mput)
  ultimately show ?thesis using assms(1) by (simp add: miss_inv_def)
qed

lemma pt_ok_onIHaveOne:
  assumes "pt_ok hash x" shows "pt_ok hash (onIHaveOne sender h x)"
proof (cases x)
  case (Pair s out)
  let ?i = "ih_ID h"
  let ?s = "s\<lparr>pt_missing := mput ?i (missing s ?i @ [\<lparr>gt_peer = sender, gt_round = ih_Round h\<rparr>]) (pt_missing s),
      pt_nmissing := mput sender (nmissing s sender + 1) (pt_nmissing s), pt_ntargets := pt_ntargets s + 1\<rparr>"
  have inv: "pt_inv hash s" "honest hash out" using assms Pair by (auto simp: pt_ok_def)
  have a: "pt_inv hash ?s" if "\<not> ihaveRefused sender ?i s"
    using inv miss_inv_announce [OF _ that, of "ih_Round h"] by (simp add: pt_inv_def peers_inv_def cache_inv_def)
  have "pt_inv hash (?s\<lparr>pt_graftTimerScheduled := sadd ?i (pt_graftTimerScheduled s)\<rparr>)"
    if "\<not> ihaveRefused sender ?i s"
    using a [OF that] that by (auto simp: pt_inv_def miss_inv_def peers_inv_def cache_inv_def ihaveRefused_def length_sadd)
  thus ?thesis using Pair a inv by (auto simp: Let_def pt_ok_def)
qed

lemma pt_ok_onIHave: "pt_ok hash x \<Longrightarrow> pt_ok hash (onIHave sender hs x)"
  by (induction sender hs x rule: onIHave.induct) (auto intro: pt_ok_onIHaveOne simp del: onIHaveOne.simps)

lemma pt_ok_onGraft:
  assumes "pt_ok hash x" shows "pt_ok hash (onGraft sender g x)"
proof (cases x)
  case (Pair s out)
  have "pt_inv hash (addEager sender s)" using assms Pair by (auto simp: pt_ok_def)
  thus ?thesis using assms Pair
    by (auto simp: Let_def pt_ok_def pt_inv_def cache_inv_def split: option.splits)
qed

lemma pt_ok_dispatch: "pt_ok hash x \<Longrightarrow> pt_ok hash (PlumtreeState_dispatch hash sender m now x)"
  by (induction hash sender m now x rule: PlumtreeState_dispatch.induct)
     (simp_all add: pt_ok_onGossip pt_ok_onIHave pt_ok_onGraft pt_ok_pair pt_inv_addLazy
       del: onGossip.simps onGraft.simps)

lemma pt_ok_handleMessage: "pt_ok hash x \<Longrightarrow> pt_ok hash (PlumtreeState_handleMessage hash sender m now x)"
proof (cases x)
  case (Pair s out)
  assume "pt_ok hash x"
  hence "pt_ok hash (s\<lparr>pt_stats := countMessage m (pt_stats s)\<rparr>, out)"
    using Pair by (simp add: pt_ok_def pt_inv_def miss_inv_def peers_inv_def cache_inv_def)
  thus ?thesis using Pair pt_ok_dispatch by simp
qed

lemma pt_ok_broadcast:
  assumes "pt_ok hash x" shows "pt_ok hash (broadcast hash content scope now x)"
proof (cases x)
  case (Pair s out)
  thus ?thesis using assms
    by (auto simp: Let_def authentic_def pt_ok_pair intro!: pt_ok_eagerPush pt_ok_lazyPush pt_inv_store)
qed

lemma pt_inv_takeTarget:
  assumes "pt_inv hash s" "missing s i = t # ts"
  shows "pt_inv hash (forgetMissing (gt_peer t)
    (s\<lparr>pt_missing := (if length ts = 0 then mdel i (pt_missing s) else mput i ts (pt_missing s))\<rparr>))"
proof -
  let ?m = "if length ts = 0 then mdel i (pt_missing s) else mput i ts (pt_missing s)"
  let ?s = "s\<lparr>pt_missing := ?m\<rparr>"
  have L: "lists_ok (pt_missing s)" using assms by (simp add: pt_inv_def miss_inv_def)
  have T: "targets (pt_missing s) = add_mset t (targets ?m)"
    using missing_targets [OF L, of i] assms(2) L by (auto simp: targets_mput lists_ok_def)
  have "lists_ok ?m" using L missing_distinct [OF L, of i] assms(2)
    by (auto intro!: lists_ok_mdel lists_ok_mput)
  moreover have "within_bounds (targets ?m)"
    by (rule within_bounds_sub [of "targets (pt_missing s)"]) (use assms T in \<open>auto simp: pt_inv_def miss_inv_def\<close>)
  moreover have "counts (targets ?m) (pt_nmissing (forgetMissing (gt_peer t) ?s)) (pt_ntargets (forgetMissing (gt_peer t) ?s))"
    by (rule counts_forget) (use assms T in \<open>simp add: pt_inv_def miss_inv_def\<close>)
  moreover obtain nt nm where "forgetMissing (gt_peer t) ?s = ?s\<lparr>pt_ntargets := nt, pt_nmissing := nm\<rparr>"
    using forgetMissing_frame by blast
  ultimately show ?thesis using assms(1)
    by (simp add: pt_inv_def miss_inv_def peers_inv_def cache_inv_def)
qed

lemma pt_inv_dropTimer:
  "pt_inv hash s \<Longrightarrow> pt_inv hash (s\<lparr>pt_graftTimerScheduled := sdel i (pt_graftTimerScheduled s)\<rparr>)"
  by (simp add: pt_inv_def miss_inv_def peers_inv_def cache_inv_def length_sdel_le)

lemma pt_ok_onSendGraftTimer:
  assumes "pt_ok hash x" shows "pt_ok hash (onSendGraftTimer i x)"
proof (cases x)
  case (Pair s out)
  let ?s = "s\<lparr>pt_graftTimerScheduled := sdel i (pt_graftTimerScheduled s)\<rparr>"
  have "pt_inv hash ?s" "honest hash out" using assms Pair pt_inv_dropTimer by (auto simp: pt_ok_def)
  thus ?thesis using Pair pt_inv_takeTarget [of hash ?s i]
    by (auto simp: Let_def pt_ok_def split: list.splits)
qed

lemma pt_ok_onDispatchTimer: "pt_ok hash x \<Longrightarrow> pt_ok hash (onDispatchTimer x)"
  by (cases x) (auto simp: pt_ok_def pt_inv_def miss_inv_def peers_inv_def cache_inv_def honest_def case_prod_beta)

lemma pt_ok_onEvictCacheTimer: "pt_ok hash x \<Longrightarrow> pt_ok hash (onEvictCacheTimer now x)"
  by (cases x) (auto simp: pt_ok_def pt_inv_def miss_inv_def peers_inv_def cache_inv_def mget_mfilter split: if_splits option.splits)

lemma lists_ok_neighborDown:
  assumes "lists_ok m"
  shows "lists_ok (mfilter (\<lambda>_ ts. length ts \<noteq> 0) (map (\<lambda>(i, ts). (i, removeGraftTargets ts p)) m))"
proof -
  let ?m = "map (\<lambda>(i, ts). (i, removeGraftTargets ts p)) m"
  have "map fst ?m = map fst m" by auto
  hence "mwf ?m" using assms by (simp only: lists_ok_def mwf_def)
  hence "mwf (mfilter (\<lambda>_ ts. length ts \<noteq> 0) ?m)" by (rule mwf_mfilter)
  thus ?thesis using assms
    by (auto simp: lists_ok_def mfilter_def removeGraftTargets_def distinct_map_filter)
qed

lemma pt_inv_onNeighborDown:
  assumes "pt_inv hash s" shows "pt_inv hash (onNeighborDown p s)"
proof -
  let ?M = "targets (pt_missing s)"
  let ?F = "filter_mset (\<lambda>t. gt_peer t \<noteq> p) ?M"
  have m: "miss_inv s" using assms by (simp add: pt_inv_def)
  have "counts ?F (mdel p (pt_nmissing s)) (pt_ntargets s - nmissing s p)"
    using m size_filter_of_peer [of p ?M]
    by (auto simp: miss_inv_def counts_def nmissing_get0 get0_mdel of_peer_filter positive_mdel)
  moreover have "within_bounds ?F"
    using m by (auto simp: miss_inv_def intro: within_bounds_sub)
  moreover have "lists_ok (pt_missing (onNeighborDown p s))"
    using m lists_ok_neighborDown by (simp add: miss_inv_def)
  ultimately have "miss_inv (onNeighborDown p s)"
    using m targets_neighborDown [of p "pt_missing s"] by (simp add: miss_inv_def)
  thus ?thesis using assms by (auto simp: pt_inv_def peers_inv_def cache_inv_def)
qed

lemma pt_ok_event: "pt_ok hash x \<Longrightarrow> pt_ok hash (PlumtreeState_event hash k now x)"
  by (induction hash k now x rule: PlumtreeState_event.induct)
     (simp_all add: pt_ok_handleMessage pt_ok_broadcast pt_ok_onDispatchTimer pt_ok_onSendGraftTimer
       pt_ok_onEvictCacheTimer pt_inv_addEager pt_inv_onNeighborDown pt_ok_pair
       del: PlumtreeState_handleMessage.simps broadcast.simps onDispatchTimer.simps onSendGraftTimer.simps
         onEvictCacheTimer.simps onNeighborDown.simps)

lemma pt_ok_Handle: "pt_inv hash s \<Longrightarrow> pt_ok hash (PlumtreeState_Handle hash s ev)"
proof -
  assume "pt_inv hash s"
  moreover from this have "pt_inv hash (s\<lparr>pt_init := True\<rparr>)"
    by (simp add: pt_inv_def miss_inv_def peers_inv_def cache_inv_def)
  ultimately show "pt_ok hash (PlumtreeState_Handle hash s ev)"
    unfolding PlumtreeState_Handle_def Let_def
    by (intro pt_ok_event) (simp add: pt_ok_onEvictCacheTimer pt_ok_pair del: onEvictCacheTimer.simps)
qed

interpretation plumtree: io_machine "PlumtreeState_Handle hash" "pt_inv hash" for hash
  by unfold_locales (metis pt_ok_Handle pt_ok_pair)

lemma NewPlumtreeState_inv: "pt_inv hash (NewPlumtreeState me config order)"
  by (simp add: NewPlumtreeState_def Let_def pt_inv_def miss_inv_def peers_inv_def cache_inv_def lists_ok_def
      counts_def within_bounds_def positive_def get0_def maxMissing_def maxMissingPerPeer_def)

end
