(* ===== verification/Plumtree_Delivery.thy ===== *)
theory Plumtree_Delivery
  imports Plumtree_Inv
begin

text \<open>
  What a PlumTree step delivers, forwards and announces: the outputs of each operation seen through
  \<open>deliveries\<close>, \<open>gossips\<close> and \<open>ihaves_to\<close>, and the retention of message ids over a run.
\<close>

section \<open>Views of the outputs\<close>

fun deliveryOf :: "PlumtreeOutEvent \<Rightarrow> PlumtreeEvent list" where
  "deliveryOf (PlumtreeEmitEvent e) = [e]"
| "deliveryOf _ = []"

definition deliveries :: "PlumtreeOutEvent list \<Rightarrow> PlumtreeEvent list" where
  "deliveries out = concat (map deliveryOf out)"

fun gossipOf :: "PlumtreeOutEvent \<Rightarrow> (PeerID \<times> Gossip) list" where
  "gossipOf (PlumtreeSendMessage p (PlumtreeGossip g)) = [(p, g)]"
| "gossipOf _ = []"

definition gossips :: "PlumtreeOutEvent list \<Rightarrow> (PeerID \<times> Gossip) list" where
  "gossips out = concat (map gossipOf out)"

fun ihaveOf :: "PeerID \<Rightarrow> PlumtreeOutEvent \<Rightarrow> IHave list list" where
  "ihaveOf p (PlumtreeSendMessage q (PlumtreeIHave hs)) = (if q = p then [hs] else [])"
| "ihaveOf p _ = []"

definition ihaves_to :: "PeerID \<Rightarrow> PlumtreeOutEvent list \<Rightarrow> IHave list list" where
  "ihaves_to p out = concat (map (ihaveOf p) out)"

definition queued :: "PlumtreeState \<Rightarrow> PeerID \<Rightarrow> IHave list" where
  "queued s p = (case map_of (pt_lazyQueue s) p of None \<Rightarrow> [] | Some hs \<Rightarrow> hs)"

text \<open>The part of the state that only storing, evicting and construction change.\<close>

definition kept :: "PlumtreeState \<Rightarrow> PeerID \<times> PlumtreeConfig \<times> (MessageID, gotime) gomap \<times> (MessageID, cachedGossip) gomap \<times> bool" where
  "kept s = (pt_me s, pt_config s, pt_received s, pt_cache s, pt_init s)"

text \<open>
  A run for the examples: a peer with two neighbours, of which one has pruned it; \<open>toy_hash\<close> stands for
  the hash, any function will do.
\<close>

definition toy_hash :: "bytes \<Rightarrow> MessageID" where
  "toy_hash content = [of_nat (length content), sum_list content]"

definition demo_tree :: PlumtreeState where
  "demo_tree = fst (run_machine (PlumtreeState_Handle toy_hash) (NewPlumtreeState [0] DefaultPlumtreeConfig [])
     [\<lparr>pe_Kind = PlumtreeNeighborUp [1], pe_Now = 5\<rparr>, \<lparr>pe_Kind = PlumtreeNeighborUp [2], pe_Now = 6\<rparr>,
      \<lparr>pe_Kind = PlumtreeRecvMessage [2] PlumtreePrune, pe_Now = 7\<rparr>])"

definition demo_gossip :: Gossip where
  "demo_gossip = \<lparr>g_ID = toy_hash [42, 43], g_Content = [42, 43], g_Scope = DeliveryScopeSwarm 3\<rparr>"

lemma deliveries_simps [simp]:
  "deliveries [] = []" "deliveries (a @ b) = deliveries a @ deliveries b" "deliveries (e # es) = deliveryOf e @ deliveries es"
  by (simp_all add: deliveries_def)

lemma gossips_simps [simp]:
  "gossips [] = []" "gossips (a @ b) = gossips a @ gossips b" "gossips (e # es) = gossipOf e @ gossips es"
  by (simp_all add: gossips_def)

lemma ihaves_to_simps [simp]:
  "ihaves_to p [] = []" "ihaves_to p (a @ b) = ihaves_to p a @ ihaves_to p b"
  "ihaves_to p (e # es) = ihaveOf p e @ ihaves_to p es"
  by (simp_all add: ihaves_to_def)

lemma deliveries_sends [simp]: "deliveries (map (\<lambda>p. PlumtreeSendMessage p (f p)) ps) = []"
  by (induction ps) auto

lemma gossips_sends [simp]: "gossips (map (\<lambda>p. PlumtreeSendMessage p (PlumtreeGossip g)) ps) = map (\<lambda>p. (p, g)) ps"
  by (induction ps) auto

section \<open>Frame facts\<close>

lemma eagerPush_frame [simp]:
  "kept (fst (eagerPush g sender x)) = kept (fst x)" "pt_lazy (fst (eagerPush g sender x)) = pt_lazy (fst x)"
  "pt_lazyQueue (fst (eagerPush g sender x)) = pt_lazyQueue (fst x)"
  "pt_dispatchTimerScheduled (fst (eagerPush g sender x)) = pt_dispatchTimerScheduled (fst x)"
  "deliveries (snd (eagerPush g sender x)) = deliveries (snd x)"
  by (cases x; simp add: eagerPush.simps kept_def case_prod_beta)+

lemma eagerPush_gossips:
  "mset (gossips (snd (eagerPush g sender x))) = mset (gossips (snd x)) +
     image_mset (\<lambda>p. (p, g)) (mset (filter (\<lambda>p. p \<noteq> pt_me (fst x) \<and> p \<noteq> sender) (pt_eager (fst x))))"
  by (cases x) (simp add: eagerPush.simps case_prod_beta)

lemma lazyPush_frame [simp]:
  "kept (fst (lazyPush g sender x)) = kept (fst x)" "deliveries (snd (lazyPush g sender x)) = deliveries (snd x)"
  "gossips (snd (lazyPush g sender x)) = gossips (snd x)"
  by (cases x; simp add: lazyPush.simps kept_def Let_def)+

lemma queueIHave_get:
  "distinct ps \<Longrightarrow>
   (case map_of (queueIHave h sender ps q) p of None \<Rightarrow> [] | Some hs \<Rightarrow> hs) =
     (case map_of q p of None \<Rightarrow> [] | Some hs \<Rightarrow> hs) @ (if p \<in> set ps \<and> p \<noteq> sender then [h] else [])"
  by (induction ps arbitrary: q) (auto simp: mget_mput split: option.splits)

lemma lazyPush_queued:
  assumes "isSwarm (g_Scope g)" "distinct (pt_lazy (fst x))"
  shows "queued (fst (lazyPush g sender x)) p = queued (fst x) p @
      (if p \<in> set (pt_lazy (fst x)) \<and> p \<noteq> sender then [\<lparr>ih_ID = g_ID g, ih_Round = scopeRound (g_Scope g)\<rparr>] else [])"
    and "pt_dispatchTimerScheduled (fst (lazyPush g sender x))"
  using assms by (cases x; auto simp: lazyPush.simps queued_def Let_def queueIHave_get)+

lemma addEager_frame [simp]: "kept (addEager p s) = kept s" "pt_lazyQueue (addEager p s) = pt_lazyQueue s"
    "pt_dispatchTimerScheduled (addEager p s) = pt_dispatchTimerScheduled s"
  by (simp_all add: addEager_def kept_def)

lemma addLazy_frame [simp]: "kept (addLazy p s) = kept s" "pt_lazyQueue (addLazy p s) = pt_lazyQueue s"
    "pt_dispatchTimerScheduled (addLazy p s) = pt_dispatchTimerScheduled s"
  by (simp_all add: addLazy_def kept_def)

lemma optimizeTree_frame [simp]:
  "kept (fst (optimizeTree sender g ts x)) = kept (fst x)"
  "pt_lazyQueue (fst (optimizeTree sender g ts x)) = pt_lazyQueue (fst x)"
  "pt_dispatchTimerScheduled (fst (optimizeTree sender g ts x)) = pt_dispatchTimerScheduled (fst x)"
  "deliveries (snd (optimizeTree sender g ts x)) = deliveries (snd x)"
  "gossips (snd (optimizeTree sender g ts x)) = gossips (snd x)"
  by (induction sender g ts x rule: optimizeTree.induct; simp add: optimizeTree.simps Let_def)+

lemma settleMissing_kept [simp]:
  "kept (settleMissing i s) = kept s" "pt_lazyQueue (settleMissing i s) = pt_lazyQueue s"
  "pt_dispatchTimerScheduled (settleMissing i s) = pt_dispatchTimerScheduled s"
  using settleMissing_frame [of i s] by (auto simp: kept_def)

lemma noteHop_kept [simp]:
  "kept (noteHop r s) = kept s" "pt_lazyQueue (noteHop r s) = pt_lazyQueue s"
  "pt_dispatchTimerScheduled (noteHop r s) = pt_dispatchTimerScheduled s"
  by (simp_all add: noteHop.simps kept_def)

lemma isSwarm_bumpRound [simp]: "isSwarm (g_Scope (bumpRound g)) = isSwarm (g_Scope g)"
  by (cases "g_Scope g") (simp_all add: bumpRound.simps)

section \<open>Accepting a message\<close>

definition stored :: "Gossip \<Rightarrow> gotime \<Rightarrow> PlumtreeState \<Rightarrow> PlumtreeState" where
  "stored g now s = s\<lparr>pt_received := mput (g_ID g) (now + MessageIDRetention (pt_config s)) (pt_received s),
     pt_cache := mput (g_ID g) \<lparr>cg_message = bumpRound g,
       cg_expire = now + MessageCacheRetention (pt_config s)\<rparr> (pt_cache s)\<rparr>"

lemma acceptSwarm_eq:
  "acceptSwarm sender g now (s, out) =
     (let y = lazyPush (bumpRound g) sender (eagerPush (bumpRound g) sender (stored g now s, out));
          z = optimizeTree sender (bumpRound g) (missing (fst y) (g_ID g)) (settleMissing (g_ID g) (fst y), snd y)
      in (noteHop (scopeRound (g_Scope g)) (fst z), snd z))"
  by (simp add: stored_def Let_def case_prod_beta)

declare acceptSwarm.simps [simp del]

lemma acceptSwarm_frame:
  "kept (fst (acceptSwarm sender g now (s, out))) = kept (stored g now s)"
  "deliveries (snd (acceptSwarm sender g now (s, out))) = deliveries out"
  by (simp_all add: acceptSwarm_eq Let_def)

lemma acceptSwarm_gossips:
  "mset (gossips (snd (acceptSwarm sender g now (s, out)))) = mset (gossips out) +
     image_mset (\<lambda>p. (p, bumpRound g)) (mset (filter (\<lambda>p. p \<noteq> pt_me s \<and> p \<noteq> sender) (pt_eager s)))"
  by (simp add: acceptSwarm_eq Let_def eagerPush_gossips) (simp add: stored_def)

lemma acceptSwarm_queued:
  assumes "isSwarm (g_Scope g)" "distinct (pt_lazy s)"
  shows "queued (fst (acceptSwarm sender g now (s, out))) p = queued s p @
      (if p \<in> set (pt_lazy s) \<and> p \<noteq> sender
       then [\<lparr>ih_ID = g_ID g, ih_Round = scopeRound (g_Scope (bumpRound g))\<rparr>] else [])"
    and "pt_dispatchTimerScheduled (fst (acceptSwarm sender g now (s, out)))"
proof -
  let ?x = "eagerPush (bumpRound g) sender (stored g now s, out)"
  have l: "pt_lazy (fst ?x) = pt_lazy s" "queued (fst ?x) p = queued s p"
    by (simp_all add: queued_def stored_def)
  note q = lazyPush_queued [of "bumpRound g" ?x sender]
  show "queued (fst (acceptSwarm sender g now (s, out))) p = queued s p @
      (if p \<in> set (pt_lazy s) \<and> p \<noteq> sender
       then [\<lparr>ih_ID = g_ID g, ih_Round = scopeRound (g_Scope (bumpRound g))\<rparr>] else [])"
    using q(1) [of p] assms l by (simp add: acceptSwarm_eq Let_def queued_def)
  show "pt_dispatchTimerScheduled (fst (acceptSwarm sender g now (s, out)))"
    using q(2) assms l by (simp add: acceptSwarm_eq Let_def)
qed

section \<open>Dispatching announcements\<close>

declare ihaveChunks.simps [simp del]

lemma ihaveChunks_concat: "0 < c \<Longrightarrow> concat (ihaveChunks c hs) = hs"
proof (induction c hs rule: ihaveChunks.induct)
  case (1 c hs)
  show ?case
  proof (cases "hs = []")
    case False
    thus ?thesis using "1.IH" [OF _ refl] "1.prems" by (subst ihaveChunks.simps) (simp add: Let_def)
  qed (simp add: ihaveChunks.simps [of c "[]"])
qed

lemma ihaveChunks_lengths: "ch \<in> set (ihaveChunks c hs) \<Longrightarrow> ch \<noteq> [] \<and> length ch \<le> c"
proof (induction c hs rule: ihaveChunks.induct)
  case (1 c hs)
  show ?case
  proof (cases "hs = [] \<or> c = 0")
    case True
    hence "ihaveChunks c hs = []" by (subst ihaveChunks.simps) simp
    thus ?thesis using "1.prems" by simp
  next
    case False
    have "ihaveChunks c hs = take (min c (length hs)) hs # ihaveChunks c (drop (min c (length hs)) hs)"
      using False by (subst ihaveChunks.simps) (simp add: Let_def)
    thus ?thesis using "1.IH" [OF False refl] "1.prems" False by auto
  qed
qed

lemma ihaves_to_chunks [simp]:
  "ihaves_to p (map (\<lambda>ch. PlumtreeSendMessage q (PlumtreeIHave ch)) cs) = (if q = p then cs else [])"
  by (induction cs) auto

lemma ihaves_to_queues:
  "mwf q \<Longrightarrow> ihaves_to p (concat (map (\<lambda>(peer, hs). map (\<lambda>ch. PlumtreeSendMessage peer (PlumtreeIHave ch)) (f hs)) q)) =
     (case map_of q p of None \<Rightarrow> [] | Some hs \<Rightarrow> f hs)"
proof (induction q)
  case (Cons e q)
  obtain k v where e: "e = (k, v)" by fastforce
  have "mwf q" "k = p \<Longrightarrow> map_of q p = None" using Cons.prems e by (auto simp: mwf_def map_of_eq_None_iff)
  thus ?case using Cons.IH by (auto simp: e)
qed simp

lemma map_of_range_order:
  assumes "mwf q" shows "map_of (fst (range_order r q)) = map_of q" "mwf (fst (range_order r q))"
proof -
  have "distinct (map fst q)" using assms by (simp add: mwf_def)
  moreover have "mset (map fst (fst (range_order r q))) = mset (map fst q)" by simp
  ultimately have d: "distinct (map fst (fst (range_order r q)))" by (metis mset_eq_imp_distinct_iff)
  thus "mwf (fst (range_order r q))" by (simp add: mwf_def)
  show "map_of (fst (range_order r q)) = map_of q"
    using d assms by (auto simp: mwf_def intro!: map_of_inject_set [THEN iffD2])
qed

lemma chunkLen_pos: "0 < chunkLen s"
  by (simp add: chunkLen_def Let_def)

section \<open>Retention of message ids over a run\<close>

lemma kept_simps:
  "kept s = kept s' \<Longrightarrow> pt_received s = pt_received s'" "kept s = kept s' \<Longrightarrow> pt_config s = pt_config s'"
  "kept s = kept s' \<Longrightarrow> pt_cache s = pt_cache s'" "kept s = kept s' \<Longrightarrow> pt_init s = pt_init s'"
  by (simp_all add: kept_def)

lemma onIHave_kept [simp]: "kept (fst (onIHave sender hs x)) = kept (fst x)"
proof (induction sender hs x rule: onIHave.induct)
  case (2 sender h hs x)
  have "kept (fst (onIHaveOne sender h x)) = kept (fst x)"
    by (cases x) (simp add: Let_def kept_def)
  thus ?case using 2 by simp
qed simp

lemma onGraft_kept [simp]: "kept (fst (onGraft sender g x)) = kept (fst x)"
  by (cases x) (simp add: Let_def split: option.splits)

lemma forgetMissing_kept [simp]: "kept (forgetMissing p s) = kept s"
  using forgetMissing_frame [of p s] by (auto simp: kept_def)

lemma kept_updates [simp]:
  "kept (s\<lparr>pt_graftTimerScheduled := g\<rparr>) = kept s" "kept (s\<lparr>pt_missing := m\<rparr>) = kept s"
  "kept (s\<lparr>pt_stats := st\<rparr>) = kept s" "kept (onNeighborDown p s) = kept s"
  by (simp_all add: kept_def)

lemma onSendGraftTimer_kept [simp]: "kept (fst (onSendGraftTimer i x)) = kept (fst x)"
  by (cases x) (simp add: Let_def split: list.splits)

lemma onDispatchTimer_kept [simp]: "kept (fst (onDispatchTimer x)) = kept (fst x)"
  by (cases x) (simp add: kept_def case_prod_beta)

lemma onGossip_received:
  assumes "map_of (pt_received (fst x)) i = Some e" "t \<le> e"
  shows "\<exists>e'. map_of (pt_received (fst (onGossip hash sender g now x))) i = Some e' \<and> t \<le> e'"
    and "pt_config (fst (onGossip hash sender g now x)) = pt_config (fst x)"
proof -
  obtain s out where x: "x = (s, out)" by fastforce
  have r: "pt_received (addLazy sender s) = pt_received s" "pt_config (addLazy sender s) = pt_config s"
    by (simp_all add: addLazy_def)
  have a: "pt_received (fst (acceptSwarm sender g now (s, out))) = pt_received (stored g now s)"
    "pt_config (fst (acceptSwarm sender g now (s, out))) = pt_config s"
    using kept_simps(1,2) [OF acceptSwarm_frame(1)] by (auto simp: stored_def)
  show "\<exists>e'. map_of (pt_received (fst (onGossip hash sender g now x))) i = Some e' \<and> t \<le> e'"
    using assms x r a by (cases "g_ID g = i") (auto simp: Let_def case_prod_beta stored_def mget_mput)
  show "pt_config (fst (onGossip hash sender g now x)) = pt_config (fst x)"
    using x r a by (auto simp: Let_def case_prod_beta)
qed

definition retains :: "MessageID \<Rightarrow> gotime \<Rightarrow> PlumtreeState \<Rightarrow> bool" where
  "retains i t s \<longleftrightarrow> (\<exists>e. map_of (pt_received s) i = Some e \<and> t \<le> e)"

lemma retains_kept: "kept s' = kept s \<Longrightarrow> retains i t s \<Longrightarrow> retains i t s' \<and> pt_config s' = pt_config s"
  by (simp add: retains_def kept_def)

lemma retains_evict:
  assumes "retains i t (fst x)" "now < t" "cache_inv hash (fst x)"
  shows "retains i t (fst (onEvictCacheTimer now x))"
  using assms by (cases x) (auto simp: retains_def mget_mfilter cache_inv_def)

lemma broadcast_kept:
  "kept (fst (broadcast hash content scope now (s, out))) = kept s \<or>
   kept (fst (broadcast hash content scope now (s, out))) =
     kept (s\<lparr>pt_received := mput (hash content) (now + MessageIDRetention (pt_config s)) (pt_received s),
       pt_cache := mput (hash content) \<lparr>cg_message = \<lparr>g_ID = hash content, g_Content = content, g_Scope = DeliveryScopeSwarm 0\<rparr>,
         cg_expire = now + MessageCacheRetention (pt_config s)\<rparr> (pt_cache s)\<rparr>)"
  by (simp add: Let_def)

lemma retains_broadcast:
  assumes "retains i t (fst x)" "t \<le> now + MessageIDRetention (pt_config (fst x))"
  shows "retains i t (fst (broadcast hash content scope now x))"
proof -
  obtain s out where x: "x = (s, out)" by fastforce
  show ?thesis
    using broadcast_kept [of hash content scope now s out] assms
    by (auto simp: x kept_def retains_def mget_mput)
qed

lemma config_broadcast: "pt_config (fst (broadcast hash content scope now x)) = pt_config (fst x)"
  using broadcast_kept [of hash content scope now "fst x" "snd x"] by (auto simp: kept_def)

lemma retains_dispatch:
  assumes "retains i t (fst x)"
  shows "retains i t (fst (PlumtreeState_dispatch hash sender m now x)) \<and>
    pt_config (fst (PlumtreeState_dispatch hash sender m now x)) = pt_config (fst x)"
proof (cases m)
  case (PlumtreeGossip g)
  thus ?thesis using assms onGossip_received [of x i _ t hash sender g now]
    by (auto simp: retains_def simp del: onGossip.simps)
next
  case PlumtreePrune
  show ?thesis by (rule retains_kept [OF _ assms], cases x) (simp add: PlumtreePrune)
qed (rule retains_kept [OF _ assms], simp del: onGraft.simps)+

lemma retains_handleMessage:
  assumes "retains i t (fst x)"
  shows "retains i t (fst (PlumtreeState_handleMessage hash sender m now x)) \<and>
    pt_config (fst (PlumtreeState_handleMessage hash sender m now x)) = pt_config (fst x)"
proof (cases x)
  case (Pair s out)
  let ?s = "s\<lparr>pt_stats := countMessage m (pt_stats s)\<rparr>"
  have "retains i t (fst (?s, out))" using assms Pair by (simp add: retains_def)
  thus ?thesis using retains_dispatch [of i t "(?s, out)" hash sender m now] Pair by simp
qed

lemma retains_event:
  assumes r: "retains i t (fst x)" and "now < t" "t \<le> now + MessageIDRetention (pt_config (fst x))" "cache_inv hash (fst x)"
  shows "retains i t (fst (PlumtreeState_event hash k now x)) \<and>
    pt_config (fst (PlumtreeState_event hash k now x)) = pt_config (fst x)"
proof (cases k)
  case (PlumtreeRecvMessage sender m)
  thus ?thesis using retains_handleMessage [OF r] by (simp del: PlumtreeState_handleMessage.simps)
next
  case (PlumtreeBroadcast content scope)
  thus ?thesis using retains_broadcast [OF r assms(3)] config_broadcast by (simp del: broadcast.simps)
next
  case (PlumtreeTimerExpired tm)
  show ?thesis
  proof (cases tm)
    case PlumtreeTimerEvictCache
    have "pt_config (fst (onEvictCacheTimer now x)) = pt_config (fst x)" by (cases x) simp
    thus ?thesis using retains_evict [OF r assms(2,4)] PlumtreeTimerExpired PlumtreeTimerEvictCache
      by (simp del: onEvictCacheTimer.simps)
  qed (rule retains_kept [OF _ r], simp add: PlumtreeTimerExpired del: onSendGraftTimer.simps onDispatchTimer.simps)+
next
  case (PlumtreeNeighborUp p)
  show ?thesis by (rule retains_kept [OF _ r], cases x) (simp add: PlumtreeNeighborUp)
next
  case (PlumtreeNeighborDown p)
  show ?thesis by (rule retains_kept [OF _ r], cases x) (simp add: PlumtreeNeighborDown del: onNeighborDown.simps)
qed

lemma retains_Handle:
  assumes "retains i t s" "pe_Now ev < t" "t \<le> pe_Now ev + MessageIDRetention (pt_config s)" "pt_inv hash s"
  shows "retains i t (fst (PlumtreeState_Handle hash s ev)) \<and>
    pt_config (fst (PlumtreeState_Handle hash s ev)) = pt_config s"
proof -
  define x where "x = (if \<not> pt_init s then onEvictCacheTimer (pe_Now ev) (s\<lparr>pt_init := True\<rparr>, []) else (s, []))"
  have ok: "pt_ok hash x" unfolding x_def using assms(4) 
    by (auto simp: pt_ok_pair pt_inv_def miss_inv_def peers_inv_def cache_inv_def
        intro!: pt_ok_onEvictCacheTimer simp del: onEvictCacheTimer.simps)
  have c: "pt_config (fst x) = pt_config s" by (simp add: x_def)
  have "retains i t (fst x)" unfolding x_def using assms retains_evict [of i t "(s\<lparr>pt_init := True\<rparr>, [])" "pe_Now ev" hash]
    by (auto simp: retains_def pt_inv_def cache_inv_def)
  hence "retains i t (fst (PlumtreeState_event hash (pe_Kind ev) (pe_Now ev) x)) \<and>
      pt_config (fst (PlumtreeState_event hash (pe_Kind ev) (pe_Now ev) x)) = pt_config (fst x)"
    using assms ok c by (intro retains_event) (auto simp: pt_ok_def pt_inv_def)
  thus ?thesis using c by (simp add: PlumtreeState_Handle_def Let_def flip: x_def)
qed

lemma retains_run:
  "retains i t s \<Longrightarrow> pt_inv hash s \<Longrightarrow>
   (\<And>ev. ev \<in> set evs \<Longrightarrow> pe_Now ev < t \<and> t \<le> pe_Now ev + MessageIDRetention (pt_config s)) \<Longrightarrow>
   retains i t (fst (run_machine (PlumtreeState_Handle hash) s evs))"
proof (induction evs arbitrary: s)
  case (Cons ev evs)
  let ?s = "fst (PlumtreeState_Handle hash s ev)"
  have "retains i t ?s \<and> pt_config ?s = pt_config s"
    using Cons.prems by (intro retains_Handle) auto
  moreover have "pt_inv hash ?s" using pt_ok_Handle [OF Cons.prems(2), of ev] by (simp add: pt_ok_def)
  ultimately have "retains i t (fst (run_machine (PlumtreeState_Handle hash) ?s evs))"
    using Cons.prems by (intro Cons.IH) auto
  thus ?case by (simp add: case_prod_beta)
qed simp

section \<open>Properties\<close>

lemma Handle_init:
  "pt_init s \<Longrightarrow> PlumtreeState_Handle hash s ev = PlumtreeState_event hash (pe_Kind ev) (pe_Now ev) (s, [])"
  by (simp add: PlumtreeState_Handle_def)

lemma recv_gossip:
  "pt_init s \<Longrightarrow> PlumtreeState_Handle hash s \<lparr>pe_Kind = PlumtreeRecvMessage sender (PlumtreeGossip g), pe_Now = now\<rparr> =
     onGossip hash sender g now (s\<lparr>pt_stats := countMessage (PlumtreeGossip g) (pt_stats s)\<rparr>, [])"
  by (simp add: Handle_init del: onGossip.simps)

lemma onGossip_fresh:
  assumes "authentic hash g" "map_of (pt_received s) (g_ID g) = None" "isSwarm (g_Scope g)"
  shows "onGossip hash sender g now (s, out) =
     (fst (acceptSwarm sender g now (s, out)),
      snd (acceptSwarm sender g now (s, out)) @
        [PlumtreeEmitEvent (PlumtreeReceived (g_Content g) sender (g_Scope g))])"
  using assms by (simp add: authentic_def Let_def case_prod_beta)

lemma onGossip_deliveries:
  "deliveries (snd (onGossip hash sender g now (s, out))) = deliveries out @
     (if authentic hash g \<and> map_of (pt_received s) (g_ID g) = None
      then [PlumtreeReceived (g_Content g) sender (g_Scope g)] else [])"
  by (simp add: authentic_def Let_def case_prod_beta acceptSwarm_frame)

lemma demo_tree_inv: "pt_inv toy_hash demo_tree"
  unfolding demo_tree_def by (rule plumtree.run_inv [OF NewPlumtreeState_inv])

lemma demo_tree_reachable:
  "reachable_by (PlumtreeState_Handle toy_hash) (NewPlumtreeState [0] DefaultPlumtreeConfig []) demo_tree"
  unfolding demo_tree_def by (rule run_machine_reachable [OF reachable_by.start])

lemma demo_tree_facts: "pt_init demo_tree" "pt_eager demo_tree = [[1]]" "pt_lazy demo_tree = [[2]]" "pt_me demo_tree = [0]"
    "pt_received demo_tree = []" "pt_lazyQueue demo_tree = []" "MessageIDRetention (pt_config demo_tree) = 90 * second"
  by code_simp+

lemma demo_gossip_facts: "authentic toy_hash demo_gossip" "isSwarm (g_Scope demo_gossip)"
  by (simp_all add: authentic_def demo_gossip_def)

lemma of_peer_targets:
  "lists_ok m \<Longrightarrow> of_peer p (targets m) = length (filter (\<lambda>(i, ts). hasGraftTarget ts p) m)"
proof (induction m)
  case (Cons e m)
  obtain i ts where e: "e = (i, ts)" by fastforce
  have d: "lists_ok m" "distinct (map gt_peer ts)" using Cons.prems e by (auto simp: lists_ok_def mwf_def)
  have "of_peer p (mset ts) = (if p \<in> gt_peer ` set ts then 1 else 0)"
    using d(2) by (induction ts) (auto simp: image_iff)
  thus ?case using Cons.IH [OF d(1)] by (simp add: e)
qed simp

text \<open>
  C14: the bookkeeping of announced messages.  In every reachable state the counters equal what they
  count: \<open>ntargets\<close> the targets in \<open>missing\<close>, \<open>nmissing\<close> the messages a peer has announced and nobody has
  delivered, and the bounds on them and on the graft timers hold, whatever the peers send.  No message
  is kept with an empty target list, and no peer is both eager and lazy.
\<close>
theorem plumtree_bookkeeping:
  assumes "reachable_by (PlumtreeState_Handle hash) (NewPlumtreeState me config order) s"
  shows "pt_ntargets s = int (length (concat (map snd (pt_missing s)))) \<and> pt_ntargets s \<le> maxMissing \<and>
    nmissing s p = int (length (filter (\<lambda>(i, ts). hasGraftTarget ts p) (pt_missing s))) \<and>
    nmissing s p \<le> maxMissingPerPeer \<and>
    int (length (pt_graftTimerScheduled s)) \<le> maxMissing \<and>
    [] \<notin> snd ` set (pt_missing s) \<and> set (pt_eager s) \<inter> set (pt_lazy s) = {}"
proof -
  have inv: "pt_inv hash s" by (rule plumtree.reachable_inv [OF assms NewPlumtreeState_inv])
  hence L: "lists_ok (pt_missing s)" by (simp add: pt_inv_def miss_inv_def)
  have "size (targets (pt_missing s)) = length (concat (map snd (pt_missing s)))" by (simp add: targets_def)
  moreover have "nmissing s p = int (of_peer p (targets (pt_missing s)))"
    using inv by (simp add: pt_inv_def miss_inv_def counts_def nmissing_get0)
  moreover have "[] \<notin> snd ` set (pt_missing s)" using L by (auto simp: lists_ok_def)
  ultimately show ?thesis using inv of_peer_targets [OF L, of p]
    by (simp add: pt_inv_def miss_inv_def counts_def within_bounds_def peers_inv_def del: hasGraftTarget_iff)
       (metis of_nat_le_iff)
qed

theorem plumtree_bookkeeping_witness:
  "nmissing demo_tree [1] \<le> maxMissingPerPeer \<and> set (pt_eager demo_tree) \<inter> set (pt_lazy demo_tree) = {}"
  using plumtree_bookkeeping [of toy_hash "[0]" DefaultPlumtreeConfig "[]" demo_tree "[1]"]
    demo_tree_reachable by simp



text \<open>
  C7: no duplicates.  Once a swarm message has been delivered at time \<open>now\<close>, no message with the same id
  is delivered again while the id is retained: after any further events that happen within
  \<open>MessageIDRetention\<close> of \<open>now\<close>, another copy from any peer is swallowed.
\<close>
theorem plumtree_no_duplicates:
  assumes inv: "pt_inv hash s" and init: "pt_init s"
    and fresh: "map_of (pt_received s) (g_ID g) = None" "g_ID g = hash (g_Content g)" "isSwarm (g_Scope g)"
    and window: "\<And>ev. ev \<in> set evs \<Longrightarrow> now \<le> pe_Now ev \<and> pe_Now ev < now + MessageIDRetention (pt_config s)"
    and s1: "s1 = fst (PlumtreeState_Handle hash s \<lparr>pe_Kind = PlumtreeRecvMessage sender (PlumtreeGossip g), pe_Now = now\<rparr>)"
    and s2: "s2 = fst (run_machine (PlumtreeState_Handle hash) s1 evs)"
    and init2: "pt_init s2" and copy: "g_ID g' = g_ID g"
  shows "deliveries (snd (PlumtreeState_Handle hash s2
      \<lparr>pe_Kind = PlumtreeRecvMessage sender' (PlumtreeGossip g'), pe_Now = now'\<rparr>)) = []"
proof -
  let ?s = "s\<lparr>pt_stats := countMessage (PlumtreeGossip g) (pt_stats s)\<rparr>"
  have "s1 = fst (acceptSwarm sender g now (?s, []))"
    unfolding s1 recv_gossip [OF init] using fresh by (subst onGossip_fresh) (simp_all add: authentic_def)
  hence k: "kept s1 = kept (stored g now ?s)" using acceptSwarm_frame(1) by simp
  hence r: "retains (g_ID g) (now + MessageIDRetention (pt_config s)) s1" "pt_config s1 = pt_config s"
    by (auto simp: kept_def retains_def stored_def mget_mput)
  have "pt_inv hash s1" unfolding s1 using pt_ok_Handle [OF inv] by (auto simp: pt_ok_def)
  hence "retains (g_ID g) (now + MessageIDRetention (pt_config s)) s2"
    unfolding s2 using r window by (intro retains_run) auto
  thus ?thesis using copy
    by (auto simp: recv_gossip [OF init2] onGossip_deliveries retains_def simp del: onGossip.simps)
qed

theorem plumtree_no_duplicates_witness:
  "let s1 = fst (PlumtreeState_Handle toy_hash demo_tree
              \<lparr>pe_Kind = PlumtreeRecvMessage [1] (PlumtreeGossip demo_gossip), pe_Now = 9\<rparr>);
       s2 = fst (run_machine (PlumtreeState_Handle toy_hash) s1
              [\<lparr>pe_Kind = PlumtreeTimerExpired PlumtreeTimerEvictCache, pe_Now = 10\<rparr>])
   in deliveries (snd (PlumtreeState_Handle toy_hash s2
        \<lparr>pe_Kind = PlumtreeRecvMessage [2] (PlumtreeGossip demo_gossip), pe_Now = 11\<rparr>)) = []"
proof -
  let ?s1 = "fst (PlumtreeState_Handle toy_hash demo_tree
              \<lparr>pe_Kind = PlumtreeRecvMessage [1] (PlumtreeGossip demo_gossip), pe_Now = 9\<rparr>)"
  let ?evs = "[\<lparr>pe_Kind = PlumtreeTimerExpired PlumtreeTimerEvictCache, pe_Now = 10\<rparr>]"
  have i: "pt_init (fst (run_machine (PlumtreeState_Handle toy_hash) ?s1 ?evs))" by code_simp
  have f: "map_of (pt_received demo_tree) (g_ID demo_gossip) = None" "g_ID demo_gossip = toy_hash (g_Content demo_gossip)"
    by (simp_all add: demo_tree_facts demo_gossip_def)
  have w: "ev \<in> set ?evs \<Longrightarrow> 9 \<le> pe_Now ev \<and> pe_Now ev < 9 + MessageIDRetention (pt_config demo_tree)" for ev
    by (simp add: demo_tree_facts second_def millisecond_def)
  show ?thesis unfolding Let_def
    by (rule plumtree_no_duplicates [OF demo_tree_inv demo_tree_facts(1) f demo_gossip_facts(2) w refl refl i refl])
qed

text \<open>
  C13: how a fresh swarm message spreads.  It is sent with its round increased by one to every eager peer
  but the machine itself and the sender, to each once and to nobody else; its announcement is queued for
  every lazy peer but the sender and for nobody else; and the timer that sends the announcements is set.
\<close>
theorem plumtree_spread:
  assumes "pt_inv hash s" "pt_init s" "map_of (pt_received s) (g_ID g) = None" "g_ID g = hash (g_Content g)"
    and swarm: "isSwarm (g_Scope g)"
    and h: "PlumtreeState_Handle hash s \<lparr>pe_Kind = PlumtreeRecvMessage sender (PlumtreeGossip g), pe_Now = now\<rparr> = (s', out)"
  shows "mset (gossips out) =
      image_mset (\<lambda>p. (p, bumpRound g)) (mset (filter (\<lambda>p. p \<noteq> pt_me s \<and> p \<noteq> sender) (pt_eager s))) \<and>
    queued s' p = queued s p @ (if p \<in> set (pt_lazy s) \<and> p \<noteq> sender
      then [\<lparr>ih_ID = g_ID g, ih_Round = scopeRound (g_Scope (bumpRound g))\<rparr>] else []) \<and>
    pt_dispatchTimerScheduled s'"
proof -
  let ?s = "s\<lparr>pt_stats := countMessage (PlumtreeGossip g) (pt_stats s)\<rparr>"
  have x: "(s', out) = (fst (acceptSwarm sender g now (?s, [])),
      snd (acceptSwarm sender g now (?s, [])) @ [PlumtreeEmitEvent (PlumtreeReceived (g_Content g) sender (g_Scope g))])"
    using assms(3,4) swarm unfolding h [symmetric] recv_gossip [OF assms(2)]
    by (subst onGossip_fresh) (simp_all add: authentic_def)
  have d: "distinct (pt_lazy ?s)" using assms(1) by (simp add: pt_inv_def peers_inv_def)
  have "queued ?s p = queued s p" by (simp add: queued_def)
  thus ?thesis using x acceptSwarm_gossips [of sender g now ?s "[]"] acceptSwarm_queued [OF swarm d, of sender now "[]"]
    by simp
qed

theorem plumtree_spread_witness:
  "let (s', out) = PlumtreeState_Handle toy_hash demo_tree
          \<lparr>pe_Kind = PlumtreeRecvMessage [7] (PlumtreeGossip demo_gossip), pe_Now = 9\<rparr>
   in mset (gossips out) = {#([1], bumpRound demo_gossip)#} \<and>
      queued s' [2] = [\<lparr>ih_ID = g_ID demo_gossip, ih_Round = 4\<rparr>]"
proof -
  obtain s' out where h: "PlumtreeState_Handle toy_hash demo_tree
          \<lparr>pe_Kind = PlumtreeRecvMessage [7] (PlumtreeGossip demo_gossip), pe_Now = 9\<rparr> = (s', out)" by fastforce
  have f: "map_of (pt_received demo_tree) (g_ID demo_gossip) = None" "g_ID demo_gossip = toy_hash (g_Content demo_gossip)"
    by (simp_all add: demo_tree_facts demo_gossip_def)
  have r: "scopeRound (g_Scope (bumpRound demo_gossip)) = 4" by code_simp
  show ?thesis
    using plumtree_spread [OF demo_tree_inv demo_tree_facts(1) f demo_gossip_facts(2) h, of "[2]"]
    by (simp add: h demo_tree_facts queued_def r)
qed

text \<open>
  C21: the dispatch timer sends every peer exactly the announcements queued for it, in order, cut into
  non-empty chunks of at most \<open>chunkLen\<close> announcements, and leaves no queue behind.
\<close>
theorem plumtree_dispatch:
  assumes "pt_inv hash s" "pt_init s"
    and h: "PlumtreeState_Handle hash s \<lparr>pe_Kind = PlumtreeTimerExpired PlumtreeTimerDispatchLazyPush, pe_Now = now\<rparr> = (s', out)"
  shows "concat (ihaves_to p out) = queued s p \<and>
    (\<forall>ch \<in> set (ihaves_to p out). ch \<noteq> [] \<and> length ch \<le> chunkLen s) \<and>
    pt_lazyQueue s' = [] \<and> \<not> pt_dispatchTimerScheduled s'"
proof -
  have m: "mwf (pt_lazyQueue s)" using assms(1) by (simp add: pt_inv_def cache_inv_def)
  let ?q = "fst (range_order (pt_order s) (pt_lazyQueue s))"
  have "(s', out) = onDispatchTimer (s, [])" using h assms(2) by (simp add: Handle_init del: onDispatchTimer.simps)
  hence o: "out = concat (map (\<lambda>(peer, hs). map (\<lambda>ch. PlumtreeSendMessage peer (PlumtreeIHave ch)) (ihaveChunks (chunkLen s) hs)) ?q)"
    and s': "pt_lazyQueue s' = []" "\<not> pt_dispatchTimerScheduled s'" by (auto simp: case_prod_beta)
  have i: "ihaves_to p out = (case map_of (pt_lazyQueue s) p of None \<Rightarrow> [] | Some hs \<Rightarrow> ihaveChunks (chunkLen s) hs)"
    unfolding o using ihaves_to_queues [OF map_of_range_order(2) [OF m], of p] map_of_range_order(1) [OF m] by simp
  show ?thesis using s' ihaveChunks_concat [OF chunkLen_pos] ihaveChunks_lengths
    by (auto simp: i queued_def split: option.splits)
qed

theorem plumtree_dispatch_witness:
  "let s = fst (PlumtreeState_Handle toy_hash demo_tree
             \<lparr>pe_Kind = PlumtreeRecvMessage [7] (PlumtreeGossip demo_gossip), pe_Now = 9\<rparr>)
   in concat (ihaves_to [2] (snd (PlumtreeState_Handle toy_hash s
        \<lparr>pe_Kind = PlumtreeTimerExpired PlumtreeTimerDispatchLazyPush, pe_Now = 10\<rparr>))) =
      [\<lparr>ih_ID = [2, 85], ih_Round = 4\<rparr>]"
proof -
  let ?s = "fst (PlumtreeState_Handle toy_hash demo_tree
             \<lparr>pe_Kind = PlumtreeRecvMessage [7] (PlumtreeGossip demo_gossip), pe_Now = 9\<rparr>)"
  have inv: "pt_inv toy_hash ?s" using pt_ok_Handle [OF demo_tree_inv] by (simp add: pt_ok_def)
  have i: "pt_init ?s" "queued ?s [2] = [\<lparr>ih_ID = [2, 85], ih_Round = 4\<rparr>]" by code_simp+
  show ?thesis
    using plumtree_dispatch [OF inv i(1) prod.collapse [symmetric], where now = 10 and p = "[2]"] by (simp add: i(2))
qed

text \<open>
  C20: authenticity.  In every reachable state, whatever a step sends as gossip, a forwarded message, a
  broadcast or the answer to a graft, carries the id that is the hash of its content, although peers may
  send anything.
\<close>
theorem plumtree_sends_authentic:
  assumes "reachable_by (PlumtreeState_Handle hash) (NewPlumtreeState me config order) s"
    and "PlumtreeSendMessage p (PlumtreeGossip g) \<in> set (snd (PlumtreeState_Handle hash s ev))"
  shows "g_ID g = hash (g_Content g)"
  using pt_ok_Handle [OF plumtree.reachable_inv [OF assms(1) NewPlumtreeState_inv], of ev] assms(2)
  by (auto simp: pt_ok_def honest_def authentic_def)

theorem plumtree_sends_authentic_witness:
  "PlumtreeSendMessage [1] (PlumtreeGossip (bumpRound demo_gossip)) \<in> set (snd (PlumtreeState_Handle toy_hash demo_tree
      \<lparr>pe_Kind = PlumtreeRecvMessage [7] (PlumtreeGossip demo_gossip), pe_Now = 9\<rparr>)) \<and>
   g_ID (bumpRound demo_gossip) = toy_hash (g_Content (bumpRound demo_gossip))"
proof -
  have "PlumtreeSendMessage [1] (PlumtreeGossip (bumpRound demo_gossip)) \<in> set (snd (PlumtreeState_Handle toy_hash demo_tree
      \<lparr>pe_Kind = PlumtreeRecvMessage [7] (PlumtreeGossip demo_gossip), pe_Now = 9\<rparr>))" by code_simp
  thus ?thesis using plumtree_sends_authentic [OF demo_tree_reachable] by blast
qed



end
