(* ===== verification/Gossip_Topic.thy ===== *)
theory Gossip_Topic
  imports Hyparview_Views Plumtree_Delivery
begin

text \<open>
  \<open>internal/gossipproto/topic.go\<close> and \<open>state.go\<close>: one topic couples a HyParView machine (who the
  neighbours are) with a PlumTree machine (how messages spread); the top-level machine keeps one topic
  state per joined topic and routes messages, timers and disconnects.  The zero \<open>time.Time\<close> is 0.
  The random source a new topic gets is the parameter \<open>newRand\<close> of the seed drawn for it, together with
  the iteration order of its PlumTree maps.

  The invariant \<open>topic_inv\<close>: both machines keep theirs, and every active neighbour is an eager or a lazy
  peer of the broadcast tree.
\<close>

section \<open>One topic\<close>

record TopicConfig =
  Membership :: HyparviewConfig
  Broadcast :: PlumtreeConfig

definition DefaultTopicConfig :: TopicConfig where
  "DefaultTopicConfig = \<lparr>Membership = DefaultHyparviewConfig, Broadcast = DefaultPlumtreeConfig\<rparr>"

definition zeroTopicConfig :: TopicConfig where
  "zeroTopicConfig = \<lparr>Membership = zeroHyparviewConfig, Broadcast = zeroPlumtreeConfig\<rparr>"

datatype TopicCommand =
    TopicCommandJoin "PeerID list"
  | TopicCommandBroadcast bytes Scope
  | TopicCommandQuit

datatype TopicTimer =
    TopicTimerHyparview HyparviewTimer
  | TopicTimerPlumtree PlumtreeTimer

datatype TopicInKind =
    TopicRecvMessage PeerID TopicMessage
  | TopicCommandEvent TopicCommand
  | TopicTimerExpired TopicTimer
  | TopicPeerDisconnected PeerID
  | TopicUpdatePeerData PeerData

record TopicInEvent =
  te_Kind :: TopicInKind
  te_Now :: gotime

datatype TopicEvent =
    TopicNeighborUp PeerID
  | TopicNeighborDown PeerID
  | TopicReceived bytes PeerID DeliveryScope

datatype TopicOutEvent =
    TopicSendMessage PeerID TopicMessage
  | TopicEmitEvent TopicEvent
  | TopicScheduleTimer duration TopicTimer
  | TopicDisconnectPeer PeerID
  | TopicPeerData PeerID PeerData

record TopicStats =
  MessagesSent :: int
  MessagesReceived :: int

record TopicState =
  ts_me :: PeerID
  ts_swarm :: HyparviewState
  ts_gossip :: PlumtreeState
  ts_stats :: TopicStats

type_synonym ts = "TopicState \<times> TopicOutEvent list"

definition NewTopicStateWithRand ::
    "PeerID \<Rightarrow> PeerData option \<Rightarrow> TopicConfig \<Rightarrow> rand \<times> rand \<Rightarrow> TopicState" where
  "NewTopicStateWithRand me data config0 r =
     (let config = (if config0 = zeroTopicConfig then DefaultTopicConfig else config0) in
      \<lparr>ts_me = me, ts_swarm = NewHyparviewStateWithRand me data (Membership config) (fst r),
       ts_gossip = NewPlumtreeState me (Broadcast config) (snd r),
       ts_stats = \<lparr>MessagesSent = 0, MessagesReceived = 0\<rparr>\<rparr>)"

definition TopicState_HasActivePeers :: "TopicState \<Rightarrow> bool" where
  "TopicState_HasActivePeers s \<longleftrightarrow> length (ActivePeers (ts_swarm s)) > 0"

fun fromPlumtreeOne :: "PlumtreeOutEvent \<Rightarrow> TopicOutEvent" where
  "fromPlumtreeOne (PlumtreeSendMessage p m) = TopicSendMessage p (TopicMessageGossip m)"
| "fromPlumtreeOne (PlumtreeScheduleTimer d t) = TopicScheduleTimer d (TopicTimerPlumtree t)"
| "fromPlumtreeOne (PlumtreeEmitEvent (PlumtreeReceived c p sc)) = TopicEmitEvent (TopicReceived c p sc)"

definition fromPlumtree :: "PlumtreeOutEvent list \<Rightarrow> TopicOutEvent list" where
  "fromPlumtree events = map fromPlumtreeOne events"

fun gossipStep :: "(bytes \<Rightarrow> MessageID) \<Rightarrow> PlumtreeInKind \<Rightarrow> gotime \<Rightarrow> ts \<Rightarrow> ts" where
  "gossipStep hash k now (s, out) =
     (let (g, evs) = PlumtreeState_Handle hash (ts_gossip s) \<lparr>pe_Kind = k, pe_Now = now\<rparr> in
      (s\<lparr>ts_gossip := g\<rparr>, out @ fromPlumtree evs))"

fun fromHyparviewOne :: "(bytes \<Rightarrow> MessageID) \<Rightarrow> HyparviewOutEvent \<Rightarrow> ts \<Rightarrow> ts" where
  "fromHyparviewOne hash (HyparviewSendMessage p m) (s, out) = (s, out @ [TopicSendMessage p (TopicMessageSwarm m)])"
| "fromHyparviewOne hash (HyparviewScheduleTimer d t) (s, out) = (s, out @ [TopicScheduleTimer d (TopicTimerHyparview t)])"
| "fromHyparviewOne hash (HyparviewDisconnectPeer p) (s, out) = (s, out @ [TopicDisconnectPeer p])"
| "fromHyparviewOne hash (HyparviewEmitEvent (HyparviewNeighborUp p)) (s, out) =
     gossipStep hash (PlumtreeNeighborUp p) 0 (s, out @ [TopicEmitEvent (TopicNeighborUp p)])"
| "fromHyparviewOne hash (HyparviewEmitEvent (HyparviewNeighborDown p)) (s, out) =
     gossipStep hash (PlumtreeNeighborDown p) 0 (s, out @ [TopicEmitEvent (TopicNeighborDown p)])"
| "fromHyparviewOne hash (HyparviewPeerData p d) (s, out) = (s, out @ [TopicPeerData p d])"

fun fromHyparview :: "(bytes \<Rightarrow> MessageID) \<Rightarrow> HyparviewOutEvent list \<Rightarrow> ts \<Rightarrow> ts" where
  "fromHyparview hash [] x = x"
| "fromHyparview hash (ev # evs) x = fromHyparview hash evs (fromHyparviewOne hash ev x)"

fun swarmStep :: "(bytes \<Rightarrow> MessageID) \<Rightarrow> HyparviewInEvent \<Rightarrow> ts \<Rightarrow> ts" where
  "swarmStep hash ev (s, out) =
     (let (sw, evs) = HyparviewState_Handle (ts_swarm s) ev in fromHyparview hash evs (s\<lparr>ts_swarm := sw\<rparr>, out))"

fun joinPeers :: "(bytes \<Rightarrow> MessageID) \<Rightarrow> PeerID list \<Rightarrow> ts \<Rightarrow> ts" where
  "joinPeers hash [] x = x"
| "joinPeers hash (peer # peers) x = joinPeers hash peers (swarmStep hash (HyparviewRequestJoin peer) x)"

fun topicEvent :: "(bytes \<Rightarrow> MessageID) \<Rightarrow> TopicInKind \<Rightarrow> gotime \<Rightarrow> ts \<Rightarrow> ts" where
  "topicEvent hash (TopicCommandEvent (TopicCommandJoin peers)) now x = joinPeers hash peers x"
| "topicEvent hash (TopicCommandEvent (TopicCommandBroadcast content scope)) now x =
     gossipStep hash (PlumtreeBroadcast content scope) now x"
| "topicEvent hash (TopicCommandEvent TopicCommandQuit) now x = swarmStep hash HyparviewQuit x"
| "topicEvent hash (TopicRecvMessage sender m) now (s, out) =
     (let x = (s\<lparr>ts_stats := (ts_stats s)\<lparr>MessagesReceived := MessagesReceived (ts_stats s) + 1\<rparr>\<rparr>, out) in
      case m of
        TopicMessageSwarm sm \<Rightarrow> swarmStep hash (HyparviewRecvMessage sender sm) x
      | TopicMessageGossip gm \<Rightarrow> gossipStep hash (PlumtreeRecvMessage sender gm) now x
      | TopicMessageUnknown k \<Rightarrow> x)"
| "topicEvent hash (TopicTimerExpired (TopicTimerHyparview t)) now x = swarmStep hash (HyparviewTimerExpired t) x"
| "topicEvent hash (TopicTimerExpired (TopicTimerPlumtree t)) now x = gossipStep hash (PlumtreeTimerExpired t) now x"
| "topicEvent hash (TopicPeerDisconnected peer) now x =
     gossipStep hash (PlumtreeNeighborDown peer) now (swarmStep hash (HyparviewPeerDisconnected peer) x)"
| "topicEvent hash (TopicUpdatePeerData data) now x = swarmStep hash (HyparviewUpdatePeerData (Some data)) x"

fun isTopicSend :: "TopicOutEvent \<Rightarrow> bool" where
  "isTopicSend (TopicSendMessage p m) = True"
| "isTopicSend _ = False"

definition TopicState_Handle :: "(bytes \<Rightarrow> MessageID) \<Rightarrow> TopicState \<Rightarrow> TopicInEvent \<Rightarrow> ts" where
  "TopicState_Handle hash s ev =
     (let (s', out) = topicEvent hash (te_Kind ev) (te_Now ev) (s, []) in
      (s'\<lparr>ts_stats := (ts_stats s')\<lparr>MessagesSent := MessagesSent (ts_stats s') + int (length (filter isTopicSend out))\<rparr>\<rparr>,
       out))"

section \<open>All topics\<close>

record Config =
  cfg_Topic :: TopicConfig
  cfg_MaxMessageSize :: int

definition DefaultConfig :: Config where
  "DefaultConfig = \<lparr>cfg_Topic = DefaultTopicConfig, cfg_MaxMessageSize = DefaultMaxMessageSize\<rparr>"

definition zeroConfig :: Config where
  "zeroConfig = \<lparr>cfg_Topic = zeroTopicConfig, cfg_MaxMessageSize = 0\<rparr>"

record Timer =
  tm_Topic :: TopicID
  tm_Timer :: TopicTimer

datatype InKind =
    RecvMessage PeerID TopicID TopicMessage
  | CommandEvent TopicID TopicCommand
  | TimerExpired Timer
  | PeerDisconnected PeerID
  | UpdatePeerData PeerData

record InEvent =
  ie_Kind :: InKind
  ie_Now :: gotime

datatype OutEvent =
    SendMessage PeerID TopicID TopicMessage
  | EmitEvent TopicID TopicEvent
  | ScheduleTimer TopicID duration Timer
  | DisconnectPeer PeerID
  | PeerDataEvent TopicID PeerID PeerData

record State =
  st_me :: PeerID
  st_meData :: PeerData
  st_config :: Config
  st_rand :: rand
  st_topics :: "(TopicID, TopicState) gomap"
  st_peerTopics :: "(PeerID, TopicID list) gomap"

type_synonym st = "State \<times> OutEvent list"

definition NewStateWithRand :: "PeerID \<Rightarrow> PeerData \<Rightarrow> Config \<Rightarrow> rand \<Rightarrow> State" where
  "NewStateWithRand me data config0 r =
     (let config1 = (if config0 = zeroConfig then DefaultConfig else config0);
          n = NormalizeMaxMessageSize (cfg_MaxMessageSize config1);
          topic = cfg_Topic config1;
          config = \<lparr>cfg_Topic = topic\<lparr>Broadcast := (Broadcast topic)\<lparr>PlumtreeMaxPayloadSize := MaxPayloadSize n\<rparr>\<rparr>,
                    cfg_MaxMessageSize = n\<rparr>
      in \<lparr>st_me = me, st_meData = data, st_config = config, st_rand = r, st_topics = [], st_peerTopics = []\<rparr>)"

definition Topics :: "State \<Rightarrow> TopicID list" where
  "Topics s = sort (mkeys (st_topics s))"

definition HasActivePeers :: "State \<Rightarrow> TopicID \<Rightarrow> bool" where
  "HasActivePeers s topic = (case map_of (st_topics s) topic of None \<Rightarrow> False | Some t \<Rightarrow> TopicState_HasActivePeers t)"

definition peerTopics :: "State \<Rightarrow> PeerID \<Rightarrow> TopicID list" where
  "peerTopics s peer = (case map_of (st_peerTopics s) peer of None \<Rightarrow> [] | Some ts \<Rightarrow> ts)"

definition dropPeerTopic :: "PeerID \<Rightarrow> TopicID \<Rightarrow> State \<Rightarrow> bool \<times> State" where
  "dropPeerTopic peer topic s =
     (let topics = peerTopics s peer in
      if length topics = 0 then (False, s)
      else
        let topics' = sdel topic topics;
            s' = s\<lparr>st_peerTopics := mput peer topics' (st_peerTopics s)\<rparr>
        in if length topics' \<noteq> 0 then (False, s')
           else (True, s'\<lparr>st_peerTopics := mdel peer (st_peerTopics s')\<rparr>))"

fun handleTopicOut :: "TopicID \<Rightarrow> TopicOutEvent \<Rightarrow> st \<Rightarrow> st" where
  "handleTopicOut topic (TopicSendMessage p m) (s, out) = (s, out @ [SendMessage p topic m])"
| "handleTopicOut topic (TopicEmitEvent e) (s, out) = (s, out @ [EmitEvent topic e])"
| "handleTopicOut topic (TopicScheduleTimer d t) (s, out) =
     (s, out @ [ScheduleTimer topic d \<lparr>tm_Topic = topic, tm_Timer = t\<rparr>])"
| "handleTopicOut topic (TopicDisconnectPeer p) (s, out) =
     (let (last, s') = dropPeerTopic p topic s in (s', if last then out @ [DisconnectPeer p] else out))"
| "handleTopicOut topic (TopicPeerData p d) (s, out) = (s, out @ [PeerDataEvent topic p d])"

fun handleTopicOuts :: "TopicID \<Rightarrow> TopicOutEvent list \<Rightarrow> st \<Rightarrow> st" where
  "handleTopicOuts topic [] x = x"
| "handleTopicOuts topic (ev # evs) x = handleTopicOuts topic evs (handleTopicOut topic ev x)"

fun stepTopic :: "(bytes \<Rightarrow> MessageID) \<Rightarrow> TopicID \<Rightarrow> TopicState \<Rightarrow> TopicInEvent \<Rightarrow> st \<Rightarrow> st" where
  "stepTopic hash topic t ev (s, out) =
     (let (t', evs) = TopicState_Handle hash t ev in
      handleTopicOuts topic evs (s\<lparr>st_topics := mput topic t' (st_topics s)\<rparr>, out))"

fun receivedFrom :: "TopicInKind \<Rightarrow> PeerID" where
  "receivedFrom (TopicRecvMessage p m) = p"
| "receivedFrom _ = replicate 32 0"

definition handleTopicEvent :: "(bytes \<Rightarrow> MessageID) \<Rightarrow> TopicID \<Rightarrow> TopicInEvent \<Rightarrow> bool \<Rightarrow> State \<Rightarrow> st" where
  "handleTopicEvent hash topic ev received s =
     (case map_of (st_topics s) topic of
        None \<Rightarrow> (s, [])
      | Some t \<Rightarrow>
          let p = receivedFrom (te_Kind ev);
              s' = (if received then s\<lparr>st_peerTopics := mput p (sadd topic (peerTopics s p)) (st_peerTopics s)\<rparr> else s)
          in stepTopic hash topic t ev (s', []))"

fun eachTopic :: "(bytes \<Rightarrow> MessageID) \<Rightarrow> TopicInEvent \<Rightarrow> TopicID list \<Rightarrow> st \<Rightarrow> st" where
  "eachTopic hash ev [] x = x"
| "eachTopic hash ev (topic # topics) x =
     eachTopic hash ev topics
       (case map_of (st_topics (fst x)) topic of
          None \<Rightarrow> x
        | Some t \<Rightarrow> stepTopic hash topic t ev x)"

fun joinTopic :: "(nat \<Rightarrow> rand \<times> rand) \<Rightarrow> TopicID \<Rightarrow> TopicCommand \<Rightarrow> State \<Rightarrow> State" where
  "joinTopic newRand topic (TopicCommandJoin peers) s =
     (if map_of (st_topics s) topic = None
      then let (seed, r) = (case st_rand s of [] \<Rightarrow> (0, []) | x # xs \<Rightarrow> (x, xs)) in
           s\<lparr>st_rand := r,
             st_topics := mput topic (NewTopicStateWithRand (st_me s) (Some (st_meData s)) (cfg_Topic (st_config s))
                            (newRand seed)) (st_topics s)\<rparr>
      else s)"
| "joinTopic newRand topic _ s = s"

fun State_event :: "(nat \<Rightarrow> rand \<times> rand) \<Rightarrow> (bytes \<Rightarrow> MessageID) \<Rightarrow> InKind \<Rightarrow> gotime \<Rightarrow> State \<Rightarrow> st" where
  "State_event newRand hash (RecvMessage sender topic m) now s =
     handleTopicEvent hash topic \<lparr>te_Kind = TopicRecvMessage sender m, te_Now = now\<rparr> True s"
| "State_event newRand hash (CommandEvent topic c) now s =
     (let s1 = joinTopic newRand topic c s;
          (s2, out) = handleTopicEvent hash topic \<lparr>te_Kind = TopicCommandEvent c, te_Now = now\<rparr> False s1
      in if c = TopicCommandQuit then (s2\<lparr>st_topics := mdel topic (st_topics s2)\<rparr>, out) else (s2, out))"
| "State_event newRand hash (TimerExpired t) now s =
     handleTopicEvent hash (tm_Topic t) \<lparr>te_Kind = TopicTimerExpired (tm_Timer t), te_Now = now\<rparr> False s"
| "State_event newRand hash (PeerDisconnected peer) now s =
     (let (s1, out) = eachTopic hash \<lparr>te_Kind = TopicPeerDisconnected peer, te_Now = now\<rparr> (Topics s) (s, []) in
      (s1\<lparr>st_peerTopics := mdel peer (st_peerTopics s1)\<rparr>, out))"
| "State_event newRand hash (UpdatePeerData data) now s =
     (let s1 = s\<lparr>st_meData := data\<rparr> in
      eachTopic hash \<lparr>te_Kind = TopicUpdatePeerData data, te_Now = now\<rparr> (Topics s1) (s1, []))"

definition State_Handle :: "(nat \<Rightarrow> rand \<times> rand) \<Rightarrow> (bytes \<Rightarrow> MessageID) \<Rightarrow> State \<Rightarrow> InEvent \<Rightarrow> st" where
  "State_Handle newRand hash s ev = State_event newRand hash (ie_Kind ev) (ie_Now ev) s"

end
