(* ===== verification/Gossip_Topic_Inv.thy ===== *)
theory Gossip_Topic_Inv
  imports Gossip_Topic
begin

text \<open>
  The topic machine keeps \<open>topic_inv\<close>; the top-level machine keeps it for every topic, keeps topics
  apart and closes a connection only when no topic uses it any more.
\<close>

section \<open>The invariant\<close>

definition tree_peers :: "PlumtreeState \<Rightarrow> PeerID set" where
  "tree_peers g = set (pt_eager g) \<union> set (pt_lazy g)"

definition topic_inv :: "(bytes \<Rightarrow> MessageID) \<Rightarrow> TopicState \<Rightarrow> bool" where
  "topic_inv hash s \<longleftrightarrow> hv_inv (ts_swarm s) \<and> pt_inv hash (ts_gossip s) \<and>
     pt_me (ts_gossip s) = hv_me (ts_swarm s) \<and>
     set (hv_active (ts_swarm s)) \<subseteq> tree_peers (ts_gossip s)"

text \<open>During a step the swarm has moved on to its new view while the tree still has the peers \<open>V\<close>.\<close>

definition mid_inv :: "(bytes \<Rightarrow> MessageID) \<Rightarrow> PeerID set \<Rightarrow> TopicState \<Rightarrow> bool" where
  "mid_inv hash V s \<longleftrightarrow> hv_inv (ts_swarm s) \<and> pt_inv hash (ts_gossip s) \<and>
     pt_me (ts_gossip s) = hv_me (ts_swarm s) \<and> V \<subseteq> tree_peers (ts_gossip s)"

definition hears :: "TopicState \<Rightarrow> TopicOutEvent list \<Rightarrow> Gossip \<Rightarrow> PeerID \<Rightarrow> bool" where
  "hears s out g p \<longleftrightarrow> TopicSendMessage p (TopicMessageGossip (PlumtreeGossip g)) \<in> set out \<or>
     \<lparr>ih_ID = g_ID g, ih_Round = scopeRound (g_Scope g)\<rparr> \<in> set (queued (ts_gossip s) p)"


definition closed_unused :: "st \<Rightarrow> bool" where
  "closed_unused x \<longleftrightarrow> (\<forall>p. DisconnectPeer p \<in> set (snd x) \<longrightarrow> map_of (st_peerTopics (fst x)) p = None)"

definition topics_inv :: "(bytes \<Rightarrow> MessageID) \<Rightarrow> State \<Rightarrow> bool" where
  "topics_inv hash s \<longleftrightarrow> (\<forall>t ts. map_of (st_topics s) t = Some ts \<longrightarrow> topic_inv hash ts)"

definition demo_topic :: TopicState where
  "demo_topic = fst (run_machine (TopicState_Handle toy_hash) (NewTopicStateWithRand [0] None DefaultTopicConfig ([], []))
     [\<lparr>te_Kind = TopicRecvMessage [1] (TopicMessageSwarm (HyparviewJoin None)), te_Now = 5\<rparr>,
      \<lparr>te_Kind = TopicRecvMessage [2] (TopicMessageSwarm (HyparviewJoin None)), te_Now = 6\<rparr>,
      \<lparr>te_Kind = TopicRecvMessage [2] (TopicMessageGossip PlumtreePrune), te_Now = 7\<rparr>])"

definition demo_state :: State where
  "demo_state = fst (run_machine (State_Handle (\<lambda>_. ([], [])) toy_hash) (NewStateWithRand [0] [] DefaultConfig [1, 2])
     [\<lparr>ie_Kind = CommandEvent [7] (TopicCommandJoin []), ie_Now = 5\<rparr>,
      \<lparr>ie_Kind = RecvMessage [1] [7] (TopicMessageSwarm (HyparviewJoin None)), ie_Now = 6\<rparr>])"

section \<open>The peers of the tree\<close>

lemma tree_peers_addEager [simp]: "tree_peers (addEager p s) = insert p (tree_peers s)"
  by (auto simp: tree_peers_def addEager_def)

lemma tree_peers_addLazy [simp]: "tree_peers (addLazy p s) = insert p (tree_peers s)"
  by (auto simp: tree_peers_def addLazy_def)

lemma tree_peers_eagerPush [simp]: "tree_peers (fst (eagerPush g p x)) = tree_peers (fst x)"
  by (cases x) (simp add: eagerPush.simps tree_peers_def case_prod_beta)

lemma tree_peers_lazyPush [simp]: "tree_peers (fst (lazyPush g p x)) = tree_peers (fst x)"
  by (cases x) (simp add: lazyPush.simps tree_peers_def Let_def)

lemma tree_peers_settleMissing [simp]: "tree_peers (settleMissing i s) = tree_peers s"
  using settleMissing_frame [of i s] by (auto simp: tree_peers_def)

lemma tree_peers_noteHop [simp]: "tree_peers (noteHop r s) = tree_peers s"
  by (simp add: noteHop.simps tree_peers_def)

lemma tree_peers_forgetMissing [simp]: "tree_peers (forgetMissing p s) = tree_peers s"
  using forgetMissing_frame [of p s] by (auto simp: tree_peers_def)

lemma tree_peers_updates [simp]:
  "tree_peers (s\<lparr>pt_missing := m\<rparr>) = tree_peers s" "tree_peers (s\<lparr>pt_graftTimerScheduled := l\<rparr>) = tree_peers s"
  "tree_peers (s\<lparr>pt_stats := st\<rparr>) = tree_peers s" "tree_peers (stored g now s) = tree_peers s"
  "tree_peers (s\<lparr>pt_received := r\<rparr>) = tree_peers s" "tree_peers (s\<lparr>pt_cache := c\<rparr>) = tree_peers s"
  "tree_peers (s\<lparr>pt_init := b\<rparr>) = tree_peers s"
  by (simp_all add: tree_peers_def stored_def)

lemma tree_peers_optimizeTree: "tree_peers (fst x) \<subseteq> tree_peers (fst (optimizeTree p g ts x))"
  by (induction p g ts x rule: optimizeTree.induct) (auto simp: optimizeTree.simps Let_def)

lemma tree_peers_onGossip: "tree_peers (fst x) \<subseteq> tree_peers (fst (onGossip hash p g now x))"
proof (cases x)
  case (Pair s out)
  let ?y = "lazyPush (bumpRound g) p (eagerPush (bumpRound g) p (stored g now s, out))"
  have "tree_peers s \<subseteq> tree_peers (fst (acceptSwarm p g now (s, out)))"
    using tree_peers_optimizeTree [of "(settleMissing (g_ID g) (fst ?y), snd ?y)" p "bumpRound g" "missing (fst ?y) (g_ID g)"]
    by (simp add: acceptSwarm_eq Let_def)
  thus ?thesis by (auto simp: Pair Let_def case_prod_beta)
qed

lemma tree_peers_onIHave [simp]: "tree_peers (fst (onIHave p hs x)) = tree_peers (fst x)"
proof (induction p hs x rule: onIHave.induct)
  case (2 p h hs x)
  have "tree_peers (fst (onIHaveOne p h x)) = tree_peers (fst x)"
    by (cases x) (simp add: Let_def tree_peers_def)
  thus ?case using 2 by simp
qed simp

lemma tree_peers_dispatch: "tree_peers (fst x) \<subseteq> tree_peers (fst (PlumtreeState_dispatch hash p m now x))"
  using tree_peers_onGossip [of x hash p _ now]
  by (cases m; cases x) (auto simp: Let_def simp del: onGossip.simps split: option.splits)

lemma tree_peers_onSendGraftTimer: "tree_peers (fst x) \<subseteq> tree_peers (fst (onSendGraftTimer i x))"
  by (cases x) (auto simp: Let_def split: list.splits)

lemma tree_peers_onDispatchTimer [simp]: "tree_peers (fst (onDispatchTimer x)) = tree_peers (fst x)"
  by (cases x) (simp add: tree_peers_def case_prod_beta)

lemma evict_peers [simp]: "tree_peers (fst (onEvictCacheTimer now x)) = tree_peers (fst x)"
  by (cases x) (simp add: tree_peers_def)

lemma tree_peers_event:
  assumes "\<And>p. k \<noteq> PlumtreeNeighborDown p"
  shows "tree_peers (fst x) \<subseteq> tree_peers (fst (PlumtreeState_event hash k now x))"
proof (cases k)
  case (PlumtreeRecvMessage p m)
  show ?thesis
    using tree_peers_dispatch [of "((fst x)\<lparr>pt_stats := countMessage m (pt_stats (fst x))\<rparr>, snd x)" hash p m now]
    by (cases x) (simp add: PlumtreeRecvMessage)
next
  case (PlumtreeBroadcast content scope)
  show ?thesis by (cases x) (auto simp: PlumtreeBroadcast Let_def)
next
  case (PlumtreeTimerExpired t)
  show ?thesis
    using tree_peers_onSendGraftTimer [of x]
    by (cases t) (simp_all add: PlumtreeTimerExpired evict_peers del: onSendGraftTimer.simps onDispatchTimer.simps onEvictCacheTimer.simps)
qed (use assms in \<open>cases x; auto\<close>)+

lemma tree_peers_Handle:
  "(\<And>p. k \<noteq> PlumtreeNeighborDown p) \<Longrightarrow>
   tree_peers s \<subseteq> tree_peers (fst (PlumtreeState_Handle hash s \<lparr>pe_Kind = k, pe_Now = now\<rparr>))"
  using tree_peers_event [of k "if \<not> pt_init s then onEvictCacheTimer now (s\<lparr>pt_init := True\<rparr>, []) else (s, [])" hash now]
  by (auto simp: PlumtreeState_Handle_def Let_def simp del: onEvictCacheTimer.simps split: if_splits)

lemma tree_peers_NeighborUp:
  "tree_peers (fst (PlumtreeState_Handle hash s \<lparr>pe_Kind = PlumtreeNeighborUp p, pe_Now = now\<rparr>)) = insert p (tree_peers s)"
  by (simp add: PlumtreeState_Handle_def Let_def)

lemma tree_peers_NeighborDown:
  "tree_peers (fst (PlumtreeState_Handle hash s \<lparr>pe_Kind = PlumtreeNeighborDown p, pe_Now = now\<rparr>)) = tree_peers s - {p}"
  by (auto simp: PlumtreeState_Handle_def Let_def tree_peers_def)

section \<open>The identity of the tree\<close>

lemma kept_me: "kept s = kept s' \<Longrightarrow> pt_me s = pt_me s'"
  by (simp add: kept_def)

lemma me_dispatch: "pt_me (fst (PlumtreeState_dispatch hash p m now x)) = pt_me (fst x)"
proof (cases m)
  case (PlumtreeGossip g)
  obtain s out where x: "x = (s, out)" by fastforce
  have "pt_me (fst (acceptSwarm p g now (s, out))) = pt_me s"
    using kept_me [OF acceptSwarm_frame(1)] by (auto simp: stored_def)
  thus ?thesis using PlumtreeGossip x by (auto simp: Let_def case_prod_beta addLazy_def)
next
  case PlumtreePrune
  thus ?thesis by (cases x) (simp add: addLazy_def)
qed (rule kept_me; simp del: onGraft.simps)+

lemma me_event: "pt_me (fst (PlumtreeState_event hash k now x)) = pt_me (fst x)"
proof (cases k)
  case (PlumtreeRecvMessage p m)
  thus ?thesis by (cases x) (simp add: me_dispatch)
next
  case (PlumtreeBroadcast content scope)
  thus ?thesis using broadcast_kept [of hash content scope now "fst x" "snd x"] by (auto simp: kept_def)
next
  case (PlumtreeTimerExpired t)
  show ?thesis
  proof (cases t)
    case PlumtreeTimerEvictCache
    thus ?thesis using PlumtreeTimerExpired by (cases x) simp
  qed (rule kept_me; simp add: PlumtreeTimerExpired del: onSendGraftTimer.simps onDispatchTimer.simps)+
qed (cases x; simp add: addEager_def)+

lemma me_Handle: "pt_me (fst (PlumtreeState_Handle hash s ev)) = pt_me s"
  by (simp add: PlumtreeState_Handle_def Let_def me_event)

section \<open>The topic machine keeps the invariant\<close>

lemma mid_gossipStep:
  assumes "mid_inv hash V (fst x)" "\<And>p. k \<noteq> PlumtreeNeighborDown p"
  shows "mid_inv hash V (fst (gossipStep hash k now x))"
proof (cases x)
  case (Pair s out)
  let ?h = "PlumtreeState_Handle hash (ts_gossip s) \<lparr>pe_Kind = k, pe_Now = now\<rparr>"
  have "pt_inv hash (fst ?h)" using pt_ok_Handle [of hash "ts_gossip s"] assms(1) Pair
    by (simp add: mid_inv_def pt_ok_def)
  moreover have "tree_peers (ts_gossip s) \<subseteq> tree_peers (fst ?h)" by (rule tree_peers_Handle [OF assms(2)])
  ultimately show ?thesis using assms(1) me_Handle [of hash "ts_gossip s"]
    by (auto simp: Pair mid_inv_def case_prod_beta)
qed

lemma mid_NeighborUp:
  assumes "mid_inv hash V (fst x)"
  shows "mid_inv hash (insert p V) (fst (gossipStep hash (PlumtreeNeighborUp p) now x))"
  using mid_gossipStep [OF assms, of "PlumtreeNeighborUp p" now]
  by (cases x) (auto simp: mid_inv_def case_prod_beta tree_peers_NeighborUp)

lemma mid_NeighborDown:
  assumes "mid_inv hash V (fst x)"
  shows "mid_inv hash (V - {p}) (fst (gossipStep hash (PlumtreeNeighborDown p) now x))"
  using assms pt_ok_Handle [of hash "ts_gossip (fst x)"] me_Handle [of hash "ts_gossip (fst x)"]
  by (cases x) (auto simp: mid_inv_def case_prod_beta tree_peers_NeighborDown pt_ok_def)

lemma swarm_gossipStep [simp]: "ts_swarm (fst (gossipStep hash k now x)) = ts_swarm (fst x)"
  by (cases x) (simp add: case_prod_beta)

lemma swarm_fromHyparview [simp]: "ts_swarm (fst (fromHyparview hash evs x)) = ts_swarm (fst x)"
proof (induction hash evs x rule: fromHyparview.induct)
  case (2 hash ev evs x)
  have "ts_swarm (fst (fromHyparviewOne hash ev x)) = ts_swarm (fst x)"
    by (induction hash ev x rule: fromHyparviewOne.induct) (simp_all del: gossipStep.simps)
  thus ?case using 2 by simp
qed simp

lemma fromHyparviewOne_frame [simp]:
  "fst (fromHyparviewOne hash (HyparviewSendMessage p m) x) = fst x"
  "fst (fromHyparviewOne hash (HyparviewScheduleTimer d t) x) = fst x"
  "fst (fromHyparviewOne hash (HyparviewDisconnectPeer p) x) = fst x"
  "fst (fromHyparviewOne hash (HyparviewPeerData p pd) x) = fst x"
  by (cases x; simp)+

lemma mid_Up:
  "mid_inv hash V (fst x) \<Longrightarrow>
   mid_inv hash (insert p V) (fst (fromHyparviewOne hash (HyparviewEmitEvent (HyparviewNeighborUp p)) x))"
  using mid_NeighborUp [of hash V "(fst x, snd x @ [TopicEmitEvent (TopicNeighborUp p)])" p 0]
  by (cases x) (simp del: gossipStep.simps)

lemma mid_Down:
  "mid_inv hash V (fst x) \<Longrightarrow>
   mid_inv hash (V - {p}) (fst (fromHyparviewOne hash (HyparviewEmitEvent (HyparviewNeighborDown p)) x))"
  using mid_NeighborDown [of hash V "(fst x, snd x @ [TopicEmitEvent (TopicNeighborDown p)])" p 0]
  by (cases x) (simp del: gossipStep.simps)

lemma mid_fromHyparview:
  "mid_inv hash V (fst x) \<Longrightarrow> neighbours V evs = Some V' \<Longrightarrow> mid_inv hash V' (fst (fromHyparview hash evs x))"
proof (induction V evs arbitrary: x rule: neighbours.induct)
  case (2 V p es)
  thus ?case using mid_Up [of hash V x p] by (simp split: if_splits)
next
  case (3 V p es)
  thus ?case using mid_Down [of hash V x p] by (simp split: if_splits)
qed simp_all

lemma mid_fromHyparview_empty:
  "mid_inv hash {} (fst x) \<Longrightarrow> mid_inv hash {} (fst (fromHyparview hash evs x))"
proof (induction evs arbitrary: x)
  case (Cons ev evs)
  have "mid_inv hash {} (fst (fromHyparviewOne hash ev x))"
  proof (cases ev)
    case (HyparviewEmitEvent e)
    thus ?thesis using Cons.prems mid_Up [of hash "{}" x] mid_Down [of hash "{}" x]
      by (cases e) (auto simp: mid_inv_def)
  qed (use Cons.prems in simp_all)
  thus ?case using Cons.IH by simp
qed simp

lemma mid_start: "topic_inv hash s \<Longrightarrow> mid_inv hash (set (hv_active (ts_swarm s))) s"
  by (simp add: topic_inv_def mid_inv_def)

lemma mid_end: "mid_inv hash V s \<Longrightarrow> set (hv_active (ts_swarm s)) \<subseteq> V \<Longrightarrow> topic_inv hash s"
  by (auto simp: topic_inv_def mid_inv_def)

lemma mid_swarm:
  assumes "mid_inv hash V s" "HyparviewState_Handle (ts_swarm s) ev = (sw, evs)"
  shows "mid_inv hash V (s\<lparr>ts_swarm := sw\<rparr>)"
proof -
  have "hv_inv sw" using Handle_keeps_inv [of "ts_swarm s" ev] assms by (simp add: mid_inv_def)
  moreover have "hv_me sw = hv_me (ts_swarm s)" using env_Handle [of "ts_swarm s" ev] assms(2) by (simp add: env_def)
  ultimately show ?thesis using assms by (simp add: mid_inv_def)
qed

lemma topic_inv_swarmStep:
  assumes "topic_inv hash (fst x)" shows "topic_inv hash (fst (swarmStep hash ev x))"
proof -
  obtain s out where x: "x = (s, out)" by fastforce
  obtain sw evs where h: "HyparviewState_Handle (ts_swarm s) ev = (sw, evs)" by fastforce
  let ?x = "(s\<lparr>ts_swarm := sw\<rparr>, out)" and ?V = "set (hv_active (ts_swarm s))"
  have m: "mid_inv hash ?V (fst ?x)" using mid_swarm [OF mid_start h] assms x by simp
  have inv: "hv_inv (ts_swarm s)" using assms x by (simp add: topic_inv_def)
  have "topic_inv hash (fst (fromHyparview hash evs ?x))"
  proof (cases "isQuit ev")
    case True
    hence "hv_active sw = []" using Handle_quit [of "ts_swarm s"] h by (simp add: isQuit_def)
    moreover have "mid_inv hash {} (fst (fromHyparview hash evs ?x))"
      using m by (intro mid_fromHyparview_empty) (simp add: mid_inv_def)
    ultimately show ?thesis by (intro mid_end) auto
  next
    case False
    thus ?thesis using Handle_tracks [OF inv False] mid_fromHyparview [OF m] h by (intro mid_end) auto
  qed
  thus ?thesis using x h by simp
qed

lemma topic_inv_gossipStep:
  assumes "topic_inv hash (fst x)" "\<And>p. k \<noteq> PlumtreeNeighborDown p"
  shows "topic_inv hash (fst (gossipStep hash k now x))"
  using mid_gossipStep [OF mid_start [OF assms(1)] assms(2)] by (intro mid_end) auto

lemma swarm_swarmStep: "ts_swarm (fst (swarmStep hash ev x)) = fst (HyparviewState_Handle (ts_swarm (fst x)) ev)"
  by (cases x) (simp add: case_prod_beta)

lemma topic_inv_disconnect:
  assumes "topic_inv hash (fst x)"
  shows "topic_inv hash (fst (gossipStep hash (PlumtreeNeighborDown p) now (swarmStep hash (HyparviewPeerDisconnected p) x)))"
proof -
  let ?y = "swarmStep hash (HyparviewPeerDisconnected p) x"
  have "hv_inv (ts_swarm (fst x))" using assms by (simp add: topic_inv_def)
  hence "p \<notin> set (hv_active (ts_swarm (fst ?y)))" unfolding swarm_swarmStep by (rule Handle_disconnected)
  thus ?thesis using mid_NeighborDown [OF mid_start [OF topic_inv_swarmStep [OF assms]]]
    by (intro mid_end) (auto simp del: swarmStep.simps gossipStep.simps)
qed

lemma topic_inv_joinPeers: "topic_inv hash (fst x) \<Longrightarrow> topic_inv hash (fst (joinPeers hash ps x))"
  by (induction hash ps x rule: joinPeers.induct) (simp_all add: topic_inv_swarmStep del: swarmStep.simps)

lemma topic_inv_event: "topic_inv hash (fst x) \<Longrightarrow> topic_inv hash (fst (topicEvent hash k now x))"
proof (induction hash k now x rule: topicEvent.induct)
  case (4 hash sender m now s out)
  let ?x = "(s\<lparr>ts_stats := (ts_stats s)\<lparr>MessagesReceived := MessagesReceived (ts_stats s) + 1\<rparr>\<rparr>, out)"
  have "topic_inv hash (fst ?x)" using 4 by (simp add: topic_inv_def)
  thus ?case using topic_inv_swarmStep [of hash ?x] topic_inv_gossipStep [of hash ?x]
    by (cases m) (simp_all add: Let_def del: swarmStep.simps gossipStep.simps)
qed (simp_all add: topic_inv_swarmStep topic_inv_gossipStep topic_inv_joinPeers topic_inv_disconnect
  del: swarmStep.simps gossipStep.simps)

lemma TopicState_Handle_inv: "topic_inv hash s \<Longrightarrow> topic_inv hash (fst (TopicState_Handle hash s ev))"
  using topic_inv_event [of hash "(s, [])" "te_Kind ev" "te_Now ev"]
  by (simp add: TopicState_Handle_def case_prod_beta topic_inv_def)

interpretation topic: io_machine "TopicState_Handle hash" "topic_inv hash" for hash
  by unfold_locales (metis TopicState_Handle_inv fst_conv)

lemma NewTopicState_inv: "topic_inv hash (NewTopicStateWithRand me data config r)"
  by (simp add: topic_inv_def NewTopicStateWithRand_def Let_def New_inv NewPlumtreeState_inv)
     (simp add: NewHyparviewStateWithRand_def NewPlumtreeState_def Let_def)

section \<open>All topics\<close>

lemma topics_handleTopicOut [simp]: "st_topics (fst (handleTopicOut t ev x)) = st_topics (fst x)"
  by (cases x; cases ev) (simp_all add: dropPeerTopic_def Let_def)

lemma topics_handleTopicOuts [simp]: "st_topics (fst (handleTopicOuts t evs x)) = st_topics (fst x)"
  by (induction t evs x rule: handleTopicOuts.induct) simp_all

lemma topics_stepTopic:
  "st_topics (fst (stepTopic hash t ts ev x)) = mput t (fst (TopicState_Handle hash ts ev)) (st_topics (fst x))"
  by (cases x) (simp add: case_prod_beta)



lemma closed_unused_handleTopicOut: "closed_unused x \<Longrightarrow> closed_unused (handleTopicOut t ev x)"
  by (cases x; cases ev)
     (auto simp: closed_unused_def dropPeerTopic_def peerTopics_def Let_def mget_mput mget_mdel split: option.splits)

lemma closed_unused_handleTopicOuts: "closed_unused x \<Longrightarrow> closed_unused (handleTopicOuts t evs x)"
  by (induction t evs x rule: handleTopicOuts.induct) (simp_all add: closed_unused_handleTopicOut)

lemma closed_unused_stepTopic: "closed_unused x \<Longrightarrow> closed_unused (stepTopic hash t ts ev x)"
  using closed_unused_handleTopicOuts
    [of "((fst x)\<lparr>st_topics := mput t (fst (TopicState_Handle hash ts ev)) (st_topics (fst x))\<rparr>, snd x)"]
  by (cases x) (auto simp: closed_unused_def case_prod_beta)

lemma closed_unused_eachTopic: "closed_unused x \<Longrightarrow> closed_unused (eachTopic hash ev ts x)"
  by (induction hash ev ts x rule: eachTopic.induct)
     (simp_all add: closed_unused_stepTopic del: stepTopic.simps split: option.splits)

lemma closed_unused_handleTopicEvent: "closed_unused (handleTopicEvent hash t ev received s)"
  by (auto simp: handleTopicEvent_def Let_def simp del: stepTopic.simps intro!: closed_unused_stepTopic split: option.splits)
     (simp_all add: closed_unused_def)

lemma closed_unused_State_Handle: "closed_unused (State_Handle newRand hash s ev)"
proof (cases "ie_Kind ev")
  case (CommandEvent t c)
  show ?thesis
    using closed_unused_handleTopicEvent [of hash t "\<lparr>te_Kind = TopicCommandEvent c, te_Now = ie_Now ev\<rparr>" False "joinTopic newRand t c s"]
    by (auto simp: State_Handle_def CommandEvent Let_def case_prod_beta closed_unused_def)
next
  case (PeerDisconnected p)
  have "closed_unused (eachTopic hash \<lparr>te_Kind = TopicPeerDisconnected p, te_Now = ie_Now ev\<rparr> (Topics s) (s, []))"
    by (rule closed_unused_eachTopic) (simp add: closed_unused_def)
  thus ?thesis by (auto simp: State_Handle_def PeerDisconnected case_prod_beta closed_unused_def mget_mdel)
next
  case (UpdatePeerData d)
  show ?thesis unfolding State_Handle_def UpdatePeerData State_event.simps Let_def
    by (rule closed_unused_eachTopic) (simp add: closed_unused_def)
qed (simp_all add: State_Handle_def closed_unused_handleTopicEvent)

lemma topics_inv_stepTopic:
  "topics_inv hash (fst x) \<Longrightarrow> topic_inv hash ts \<Longrightarrow> topics_inv hash (fst (stepTopic hash t ts ev x))"
  by (auto simp: topics_inv_def topics_stepTopic mget_mput TopicState_Handle_inv simp del: stepTopic.simps split: if_splits)

lemma topics_inv_eachTopic: "topics_inv hash (fst x) \<Longrightarrow> topics_inv hash (fst (eachTopic hash ev ts x))"
proof (induction hash ev ts x rule: eachTopic.induct)
  case (2 hash ev t ts x)
  show ?case
  proof (cases "map_of (st_topics (fst x)) t")
    case (Some a)
    hence "topic_inv hash a" using 2 by (simp add: topics_inv_def)
    thus ?thesis using 2 Some topics_inv_stepTopic by (simp del: stepTopic.simps)
  qed (use 2 in simp)
qed simp

lemma topics_inv_handleTopicEvent:
  assumes "topics_inv hash s" shows "topics_inv hash (fst (handleTopicEvent hash t ev received s))"
proof (cases "map_of (st_topics s) t")
  case None
  thus ?thesis using assms by (simp add: handleTopicEvent_def)
next
  case (Some a)
  hence "topic_inv hash a" using assms by (simp add: topics_inv_def)
  thus ?thesis using assms Some
    by (auto simp: handleTopicEvent_def Let_def simp del: stepTopic.simps intro!: topics_inv_stepTopic)
       (simp add: topics_inv_def)
qed

lemma topics_inv_joinTopic: "topics_inv hash s \<Longrightarrow> topics_inv hash (joinTopic newRand t c s)"
  by (cases c) (auto simp: topics_inv_def mget_mput case_prod_beta NewTopicState_inv)

lemma topics_inv_State_Handle: "topics_inv hash s \<Longrightarrow> topics_inv hash (fst (State_Handle newRand hash s ev))"
proof (cases "ie_Kind ev")
  case (CommandEvent t c)
  assume "topics_inv hash s"
  hence "topics_inv hash (fst (handleTopicEvent hash t \<lparr>te_Kind = TopicCommandEvent c, te_Now = ie_Now ev\<rparr> False
      (joinTopic newRand t c s)))" by (intro topics_inv_handleTopicEvent topics_inv_joinTopic)
  thus ?thesis by (auto simp: State_Handle_def CommandEvent Let_def case_prod_beta topics_inv_def mget_mdel split: if_splits)
next
  case (PeerDisconnected p)
  assume "topics_inv hash s"
  hence "topics_inv hash (fst (eachTopic hash \<lparr>te_Kind = TopicPeerDisconnected p, te_Now = ie_Now ev\<rparr> (Topics s) (s, [])))"
    by (intro topics_inv_eachTopic) simp
  thus ?thesis by (simp add: State_Handle_def PeerDisconnected case_prod_beta topics_inv_def)
next
  case (UpdatePeerData d)
  assume "topics_inv hash s"
  thus ?thesis unfolding State_Handle_def UpdatePeerData State_event.simps Let_def
    by (intro topics_inv_eachTopic) (simp add: topics_inv_def)
qed (simp_all add: State_Handle_def topics_inv_handleTopicEvent)

interpretation gossip_state: io_machine "State_Handle newRand hash" "topics_inv hash" for newRand hash
  by unfold_locales (metis topics_inv_State_Handle fst_conv)

section \<open>Properties\<close>

lemma demo_topic_reachable:
  "reachable_by (TopicState_Handle toy_hash) (NewTopicStateWithRand [0] None DefaultTopicConfig ([], [])) demo_topic"
  unfolding demo_topic_def by (rule run_machine_reachable [OF reachable_by.start])

lemma demo_topic_inv: "topic_inv toy_hash demo_topic"
  by (rule topic.reachable_inv [OF demo_topic_reachable NewTopicState_inv])

lemma demo_topic_facts: "hv_active (ts_swarm demo_topic) = [[1], [2]]" "pt_init (ts_gossip demo_topic)"
    "pt_eager (ts_gossip demo_topic) = [[1]]" "pt_lazy (ts_gossip demo_topic) = [[2]]"
  by code_simp+

lemma broadcast_result:
  fixes hash content s now p
  assumes "distinct (pt_lazy s)"
  defines "g \<equiv> \<lparr>g_ID = hash content, g_Content = content, g_Scope = DeliveryScopeSwarm 0\<rparr>"
  defines "x \<equiv> broadcast hash content ScopeSwarm now (s, [])"
  shows "p \<in> set (pt_eager s) \<Longrightarrow> p \<noteq> pt_me s \<Longrightarrow> PlumtreeSendMessage p (PlumtreeGossip g) \<in> set (snd x)"
    and "p \<in> set (pt_lazy s) \<Longrightarrow> p \<noteq> pt_me s \<Longrightarrow> \<lparr>ih_ID = hash content, ih_Round = 0\<rparr> \<in> set (queued (fst x) p)"
proof -
  let ?s = "s\<lparr>pt_received := mput (hash content) (now + MessageIDRetention (pt_config s)) (pt_received s),
      pt_cache := mput (hash content) \<lparr>cg_message = g, cg_expire = now + MessageCacheRetention (pt_config s)\<rparr> (pt_cache s)\<rparr>"
  let ?y = "lazyPush g (pt_me s) (?s, [])"
  have x: "x = eagerPush g (pt_me s) ?y" by (simp add: x_def g_def Let_def)
  have y: "pt_eager (fst ?y) = pt_eager s" "pt_me (fst ?y) = pt_me s"
    by (simp_all add: lazyPush.simps Let_def)
  show "p \<in> set (pt_eager s) \<Longrightarrow> p \<noteq> pt_me s \<Longrightarrow> PlumtreeSendMessage p (PlumtreeGossip g) \<in> set (snd x)"
    using y by (cases ?y) (simp add: x eagerPush.simps case_prod_beta)
  have "queued (fst ?y) p = queued s p @ (if p \<in> set (pt_lazy s) \<and> p \<noteq> pt_me s then [\<lparr>ih_ID = hash content, ih_Round = 0\<rparr>] else [])"
    using lazyPush_queued(1) [of g "(?s, [])" "pt_me s" p] assms(1) by (simp add: g_def queued_def)
  thus "p \<in> set (pt_lazy s) \<Longrightarrow> p \<noteq> pt_me s \<Longrightarrow> \<lparr>ih_ID = hash content, ih_Round = 0\<rparr> \<in> set (queued (fst x) p)"
    by (simp add: x queued_def)
qed

text \<open>
  C12: the two layers of a topic agree.  In every reachable state of a topic each active neighbour of the
  membership layer is a peer of the broadcast tree, eager or lazy but not both; no neighbour is forgotten
  when views are shuffled, peers join, leave, are evicted or are pruned.
\<close>
theorem topic_neighbours_in_tree:
  assumes "reachable_by (TopicState_Handle hash) (NewTopicStateWithRand me data config r) s"
    and "p \<in> set (ActivePeers (ts_swarm s))"
  shows "(p \<in> set (pt_eager (ts_gossip s))) \<noteq> (p \<in> set (pt_lazy (ts_gossip s)))"
  using topic.reachable_inv [OF assms(1) NewTopicState_inv] assms(2)
  by (auto simp: topic_inv_def tree_peers_def ActivePeers_def pt_inv_def peers_inv_def)

theorem topic_neighbours_in_tree_witness:
  "[2] \<in> set (ActivePeers (ts_swarm demo_topic)) \<and>
   ([2] \<in> set (pt_eager (ts_gossip demo_topic))) \<noteq> ([2] \<in> set (pt_lazy (ts_gossip demo_topic)))"
  using topic_neighbours_in_tree [OF demo_topic_reachable, of "[2]"] by (simp add: ActivePeers_def demo_topic_facts)

text \<open>
  C2: a broadcast reaches every neighbour.  When the application broadcasts to the swarm, every active
  neighbour is either sent the message at once or gets its announcement queued.
\<close>
theorem topic_broadcast_reaches_neighbours:
  assumes "reachable_by (TopicState_Handle hash) (NewTopicStateWithRand me data config r) s"
    and "pt_init (ts_gossip s)" and "p \<in> set (ActivePeers (ts_swarm s))"
    and h: "TopicState_Handle hash s \<lparr>te_Kind = TopicCommandEvent (TopicCommandBroadcast content ScopeSwarm), te_Now = now\<rparr> = (s', out)"
  shows "hears s' out \<lparr>g_ID = hash content, g_Content = content, g_Scope = DeliveryScopeSwarm 0\<rparr> p"
proof -
  let ?g = "ts_gossip s"
  have inv: "topic_inv hash s" by (rule topic.reachable_inv [OF assms(1) NewTopicState_inv])
  hence p: "p \<in> set (pt_eager ?g) \<or> p \<in> set (pt_lazy ?g)" "p \<noteq> pt_me ?g" and d: "distinct (pt_lazy ?g)"
    using assms(3) by (auto simp: topic_inv_def tree_peers_def ActivePeers_def hv_inv_def pt_inv_def peers_inv_def)
  define b where "b = broadcast hash content ScopeSwarm now (?g, [])"
  have "ts_gossip s' = fst b" "out = fromPlumtree (snd b)"
    using h assms(2) by (auto simp: TopicState_Handle_def Handle_init b_def case_prod_beta simp del: broadcast.simps)
  thus ?thesis using p broadcast_result [OF d, of p hash content now, folded b_def]
    by (force simp: hears_def fromPlumtree_def image_iff)
qed

theorem topic_broadcast_reaches_neighbours_witness:
  "let (s', out) = TopicState_Handle toy_hash demo_topic
        \<lparr>te_Kind = TopicCommandEvent (TopicCommandBroadcast [5, 6] ScopeSwarm), te_Now = 9\<rparr>
   in hears s' out \<lparr>g_ID = [2, 11], g_Content = [5, 6], g_Scope = DeliveryScopeSwarm 0\<rparr> [2]"
proof -
  have "[2] \<in> set (ActivePeers (ts_swarm demo_topic))" by (simp add: ActivePeers_def demo_topic_facts)
  thus ?thesis
    using topic_broadcast_reaches_neighbours [OF demo_topic_reachable demo_topic_facts(2) _ prod.collapse [symmetric], where now = 9 and content = "[5, 6]" and p = "[2]"]
    by (simp add: case_prod_beta toy_hash_def)
qed



text \<open>
  C18: a connection is closed only when it is unused.  Whenever the machine asks to disconnect a peer, no
  topic has the peer registered after the step; and a topic that lets a peer go causes the disconnect
  exactly when it was the last topic the peer was seen on.
\<close>
theorem state_disconnects_unused:
  "(DisconnectPeer p \<in> set (snd (State_Handle newRand hash s ev)) \<longrightarrow>
      peerTopics (fst (State_Handle newRand hash s ev)) p = []) \<and>
   snd (handleTopicOut t (TopicDisconnectPeer q) (s, out)) =
     out @ (if set (peerTopics s q) = {t} then [DisconnectPeer q] else [])"
proof -
  have r: "l \<noteq> [] \<and> removeAll t l = [] \<longleftrightarrow> set l = {t}" for l :: "TopicID list"
    by (cases l) (auto simp: removeAll_filter_not_eq filter_empty_conv)
  have "snd (handleTopicOut t (TopicDisconnectPeer q) (s, out)) =
     out @ (if set (peerTopics s q) = {t} then [DisconnectPeer q] else [])"
    using r [of "peerTopics s q"] by (auto simp: dropPeerTopic_def Let_def)
  thus ?thesis using closed_unused_State_Handle [of newRand hash s ev] by (auto simp: closed_unused_def peerTopics_def)
qed

theorem state_disconnects_unused_witness:
  "let ev = \<lparr>ie_Kind = RecvMessage [1] [7] (TopicMessageSwarm (HyparviewDisconnect \<lparr>dc_Alive = False, dc_Respond = False\<rparr>)), ie_Now = 8\<rparr>
   in DisconnectPeer [1] \<in> set (snd (State_Handle (\<lambda>_. ([], [])) toy_hash demo_state ev)) \<and>
      peerTopics (fst (State_Handle (\<lambda>_. ([], [])) toy_hash demo_state ev)) [1] = []"
proof -
  let ?ev = "\<lparr>ie_Kind = RecvMessage [1] [7] (TopicMessageSwarm (HyparviewDisconnect \<lparr>dc_Alive = False, dc_Respond = False\<rparr>)), ie_Now = 8\<rparr>"
  have "DisconnectPeer [1] \<in> set (snd (State_Handle (\<lambda>_. ([], [])) toy_hash demo_state ?ev))" by code_simp
  thus ?thesis using state_disconnects_unused [of "[1]" "\<lambda>_. ([], [])" toy_hash demo_state ?ev] by (simp add: Let_def)
qed

end
