(* ===== verification/Gossip_Limits.thy ===== *)
theory Gossip_Limits
  imports Plumtree_Delivery
begin

text \<open>
  The gossip wire format as a whole: the encodings are canonical, frames survive the stream, and how the
  size limits of frames, announcements and payloads fit together (\<open>types.go\<close>, \<open>frame.go\<close> and the size
  computations of \<open>plumtree.go\<close>).
\<close>

section \<open>A stream of frames\<close>

text \<open>What a sender writes: the stream header and then one frame per message.\<close>

fun writeFrames :: "TopicMessage list \<Rightarrow> int \<Rightarrow> frame_error + bytes" where
  "writeFrames [] maxSize = Inr []"
| "writeFrames (m # ms) maxSize =
     rbind (WriteFrame enc_TopicMessage m maxSize) (\<lambda>f. rbind (writeFrames ms maxSize) (\<lambda>fs. Inr (f @ fs)))"

fun readFrames :: "nat \<Rightarrow> int \<Rightarrow> bytes \<Rightarrow> frame_error + (TopicMessage list \<times> bytes)" where
  "readFrames 0 maxSize r = Inr ([], r)"
| "readFrames (Suc n) maxSize r =
     rbind (ReadFrame dec_TopicMessage maxSize r) (\<lambda>(m, r'). rbind (readFrames n maxSize r') (\<lambda>(ms, r''). Inr (m # ms, r'')))"

definition gossip_len :: "nat \<Rightarrow> DeliveryScope \<Rightarrow> nat" where
  "gossip_len n scope = 34 + length (appendVarint [] (of_nat n)) + n +
     (case scope of DeliveryScopeSwarm r \<Rightarrow> 1 + length (appendVarint [] (ucast r :: u64)) | _ \<Rightarrow> 1)"

lemma readFrames_writeFrames:
  "list_all ok_TopicMessage ms \<Longrightarrow> NormalizeMaxMessageSize maxSize \<le> 2 ^ 32 \<Longrightarrow>
   writeFrames ms maxSize = Inr fs \<Longrightarrow> readFrames (length ms) maxSize (fs @ rest) = Inr (ms, rest)"
proof (induction ms arbitrary: fs)
  case (Cons m ms)
  then obtain f g where "WriteFrame enc_TopicMessage m maxSize = Inr f" "writeFrames ms maxSize = Inr g" "fs = f @ g"
    by (auto simp: rbind_eq_Inr)
  thus ?case using Cons pcTopic.frame_roundtrip [of m maxSize f "g @ rest"] by simp
qed simp

lemma enc_IHave_length:
  assumes "ok_IHave h" "enc_IHave h = Inr b" shows "length b \<le> 35"
proof -
  have "unat (ucast (ih_Round h) :: u64) < 2 ^ (7 * 3)"
    using unsigned_less [of "ih_Round h", where 'a = nat] by (simp add: unsigned_ucast_eq take_bit_eq_mod)
  hence "length (appendVarint [] (ucast (ih_Round h) :: u64)) \<le> 3" by (rule varint_length_le [rotated]) simp
  thus ?thesis using assms by (auto simp: enc_IHave_def enc_pair_def enc_raw_def enc_uint_def ok_IHave_def)
qed

lemma enc_IHaves_length:
  "list_all ok_IHave hs \<Longrightarrow> enc_seq enc_IHave hs = Inr b \<Longrightarrow> length b \<le> 35 * length hs"
proof (induction hs arbitrary: b)
  case (Cons h hs)
  then obtain c d where "enc_IHave h = Inr c" "enc_seq enc_IHave hs = Inr d" "b = c @ d"
    by (auto simp: rbind_eq_Inr)
  thus ?case using Cons enc_IHave_length [of h c] by fastforce
qed simp

lemma varint_length_10: "length (appendVarint [] v) \<le> 10"
  using unsigned_less [of v, where 'a = nat] by (intro varint_length_le) simp_all

lemma chunk_fits:
  assumes "list_all ok_IHave hs" "length hs \<le> maxInt" "35 * int (length hs) \<le> max 35 (NormalizeMaxMessageSize n - 40)"
  shows "\<exists>f. WriteFrame enc_TopicMessage (TopicMessageGossip (PlumtreeIHave hs)) n = Inr f"
proof -
  obtain b where b: "enc_seq enc_IHave hs = Inr b" using pcIHave.enc_seq_total assms(1) by blast
  have k: "appendVarint [] (1 :: u64) = [1]" "appendVarint [] (3 :: u64) = [3]" by (simp_all add: varint_small)
  have enc: "marshal enc_TopicMessage (TopicMessageGossip (PlumtreeIHave hs)) =
      Inr ([1, 3] @ appendVarint [] (of_nat (length hs)) @ b)"
    using b by (simp add: marshal_def enc_kind_def enc_slice_def k)
  have "int (length b) \<le> 35 * int (length hs)" using enc_IHaves_length [OF assms(1) b] by linarith
  moreover have "int (length (appendVarint [] (of_nat (length hs) :: u64))) \<le> 10" using varint_length_10 by simp
  ultimately have "int (length ([1, 3] @ appendVarint [] (of_nat (length hs) :: u64) @ b)) < NormalizeMaxMessageSize n"
    using assms(3) NormalizeMaxMessageSize_ge [of n] by simp
  thus ?thesis by (simp add: WriteFrame_def enc Let_def del: enc_TopicMessage.simps)
qed

lemma enc_gossip_length:
  assumes "ok_Gossip g"
  shows "\<exists>b. marshal enc_TopicMessage (TopicMessageGossip (PlumtreeGossip g)) = Inr b \<and>
    length b = gossip_len (length (g_Content g)) (g_Scope g)"
proof -
  have k: "appendVarint [] (1 :: u64) = [1]" "appendVarint [] (0 :: u64) = [0]" by (simp_all add: varint_small)
  show ?thesis using assms
    by (cases "g_Scope g") (auto simp: marshal_def enc_kind_def enc_Gossip_def enc_pair_def enc_raw_def enc_bytes_def
        enc_uint_def ok_Gossip_def gossip_len_def k)
qed

section \<open>Properties\<close>

text \<open>
  C10: the encoding of gossip messages is canonical.  Decoding accepts a byte string exactly when it is the
  encoding of a message with 32-byte ids and known variants, and then it returns that message: no two
  messages share an encoding, no message has two, and nothing is left over.
\<close>
theorem gossip_wire_canonical:
  "unmarshal dec_TopicMessage b = Inr m \<longleftrightarrow> ok_TopicMessage m \<and> marshal enc_TopicMessage m = Inr b"
  using pcTopic.unmarshal_marshal pcTopic.marshal_unmarshal by blast

text \<open>
  C16: what is written on a gossip stream is read from it.  If the sender can write its messages at all,
  the receiver with the same frame limit reads exactly them, one frame each, and finds the rest of the
  stream untouched.
\<close>
theorem gossip_stream_roundtrip:
  assumes "list_all ok_TopicMessage ms" "NormalizeMaxMessageSize maxSize \<le> 2 ^ 32"
    and "writeFrames ms maxSize = Inr fs"
  shows "readFrames (length ms) maxSize (fs @ rest) = Inr (ms, rest)"
  using assms by (rule readFrames_writeFrames)

theorem gossip_stream_roundtrip_witness:
  "\<exists>fs. writeFrames [TopicMessageGossip PlumtreePrune, TopicMessageSwarm (HyparviewJoin (Some [1, 2]))] 0 = Inr fs \<and>
     readFrames 2 0 (fs @ [9]) = Inr ([TopicMessageGossip PlumtreePrune, TopicMessageSwarm (HyparviewJoin (Some [1, 2]))], [9])"
proof -
  let ?ms = "[TopicMessageGossip PlumtreePrune, TopicMessageSwarm (HyparviewJoin (Some [1, 2]))]"
  have ok: "list_all ok_TopicMessage ?ms" by (simp add: ok_data_def maxInt_def)
  have n: "NormalizeMaxMessageSize 0 \<le> 2 ^ 32" by (simp add: NormalizeMaxMessageSize_def DefaultMaxMessageSize_def)
  have "\<exists>fs. writeFrames ?ms 0 = Inr fs"
    by (simp add: WriteFrame_def marshal_def enc_kind_def enc_ptr_def enc_bytes_def varint_small
        NormalizeMaxMessageSize_def DefaultMaxMessageSize_def Let_def)
  thus ?thesis using gossip_stream_roundtrip [OF ok n, of _ "[9]"] by (auto simp: numeral_2_eq_2)
qed

text \<open>
  The frame reader accepts only what the frame writer produces, up to the bound: a frame that is read
  is the big-endian length, at most the limit, followed by the encoding of the message returned.
\<close>
theorem gossip_frame_sound:
  assumes "ReadFrame dec_TopicMessage maxSize r = Inr (m, rest)"
  shows "ok_TopicMessage m \<and> (\<exists>b. marshal enc_TopicMessage m = Inr b \<and> r = be32 (of_nat (length b)) @ b @ rest
    \<and> int (length b) \<le> NormalizeMaxMessageSize maxSize)"
  using assms by (rule pcTopic.frame_sound)

theorem gossip_frame_sound_witness:
  "ReadFrame dec_TopicMessage 0 [0, 0, 0, 2, 1, 1] = Inr (TopicMessageGossip PlumtreePrune, []) \<and>
   marshal enc_TopicMessage (TopicMessageGossip PlumtreePrune) = Inr [1, 1]"
proof -
  have r: "ReadFrame dec_TopicMessage 0 [0, 0, 0, 2, 1, 1] = Inr (TopicMessageGossip PlumtreePrune, [])" by code_simp
  show ?thesis using gossip_frame_sound [OF r] r by (auto simp: be32_def)
qed

text \<open>
  C23: announcements always fit.  A chunk of at most \<open>chunkLen\<close> announcements, which is what the dispatch
  timer sends, can be written as one frame under the message size the payload limit was computed from.
\<close>
theorem ihave_chunk_fits_frame:
  assumes "pt_maxPayloadSize s = MaxPayloadSize maxMessageSize" "NormalizeMaxMessageSize maxMessageSize \<le> 2 ^ 32"
    and "list_all ok_IHave hs" "length hs \<le> chunkLen s"
  shows "\<exists>f. WriteFrame enc_TopicMessage (TopicMessageGossip (PlumtreeIHave hs)) maxMessageSize = Inr f"
proof -
  let ?N = "NormalizeMaxMessageSize maxMessageSize"
  have c: "int (chunkLen s) = (if (?N - 40) div 35 < 1 then 1 else (?N - 40) div 35)"
    by (simp add: chunkLen_def Let_def assms(1) MaxPayloadSize_eq iHavePostcardMaxSize_def)
  have d: "35 * ((?N - 40) div 35) \<le> ?N - 40" by presburger
  have "int (length hs) \<le> int (chunkLen s)" using assms(4) by simp
  hence "35 * int (length hs) \<le> max 35 (?N - 40)" using c d by (auto split: if_splits)
  moreover from this have "length hs \<le> maxInt" using assms(2) by (simp add: maxInt_def)
  ultimately show ?thesis by (intro chunk_fits assms(3))
qed

theorem ihave_chunk_fits_frame_witness:
  "\<exists>f. WriteFrame enc_TopicMessage (TopicMessageGossip (PlumtreeIHave
      (replicate 13 \<lparr>ih_ID = replicate 32 0, ih_Round = 65535\<rparr>))) 512 = Inr f"
proof -
  let ?s = "demo_tree\<lparr>pt_maxPayloadSize := MaxPayloadSize 512\<rparr>"
  have "13 \<le> chunkLen ?s"
    by (simp add: chunkLen_def MaxPayloadSize_eq NormalizeMaxMessageSize_def MinMaxMessageSize_def iHavePostcardMaxSize_def)
  thus ?thesis
    using ihave_chunk_fits_frame [of ?s 512 "replicate 13 \<lparr>ih_ID = replicate 32 0, ih_Round = 65535\<rparr>"]
    by (simp add: NormalizeMaxMessageSize_def MinMaxMessageSize_def list_all_iff ok_IHave_def)
qed

text \<open>
  C24: which payloads fit.  A gossip message is written exactly when its encoded length, \<open>gossip_len\<close>, is
  below the normalised limit; a payload of \<open>MaxPayloadSize\<close> bytes, which the documentation calls the largest
  that fits, never does, whatever the limit, since its length prefix takes more than the one byte the
  header size was computed with and the limit itself is excluded.
\<close>
theorem payload_limit:
  assumes "ok_Gossip g"
  shows "((\<exists>f. WriteFrame enc_TopicMessage (TopicMessageGossip (PlumtreeGossip g)) n = Inr f) \<longleftrightarrow>
      int (gossip_len (length (g_Content g)) (g_Scope g)) < NormalizeMaxMessageSize n) \<and>
    (isSwarm (g_Scope g) \<and> int (length (g_Content g)) = MaxPayloadSize n \<longrightarrow>
      WriteFrame enc_TopicMessage (TopicMessageGossip (PlumtreeGossip g)) n = Inl ErrFrameTooLarge)"
proof -
  let ?L = "length (g_Content g)"
  obtain b where b: "marshal enc_TopicMessage (TopicMessageGossip (PlumtreeGossip g)) = Inr b"
      "length b = gossip_len ?L (g_Scope g)"
    using enc_gossip_length [OF assms] by blast
  have "(\<exists>f. WriteFrame enc_TopicMessage (TopicMessageGossip (PlumtreeGossip g)) n = Inr f) \<longleftrightarrow>
      int (gossip_len ?L (g_Scope g)) < NormalizeMaxMessageSize n"
    using b by (simp add: WriteFrame_def Let_def not_less del: enc_TopicMessage.simps)
  moreover have "WriteFrame enc_TopicMessage (TopicMessageGossip (PlumtreeGossip g)) n = Inl ErrFrameTooLarge"
    if sw: "isSwarm (g_Scope g)" and L: "int ?L = MaxPayloadSize n"
  proof -
    have big: "475 \<le> ?L" using L NormalizeMaxMessageSize_ge [of n] by (simp add: MaxPayloadSize_eq)
    moreover have "?L \<le> maxInt" using assms by (simp add: ok_Gossip_def)
    ultimately have "(0x80 :: u64) \<le> of_nat ?L" by (simp add: word_le_nat_alt)
    hence "2 \<le> length (appendVarint [] (of_nat ?L :: u64))"
      using varint_length_pos [of "drop_bit 7 (of_nat ?L)"] by (simp add: varint_big)
    moreover obtain r where "g_Scope g = DeliveryScopeSwarm r" using sw by (cases "g_Scope g") auto
    moreover have "1 \<le> length (appendVarint [] (ucast r :: u64))" for r :: Round by (rule varint_length_pos)
    ultimately have "NormalizeMaxMessageSize n \<le> int (gossip_len ?L (g_Scope g))"
      using L by (auto simp: gossip_len_def MaxPayloadSize_eq)
    thus "WriteFrame enc_TopicMessage (TopicMessageGossip (PlumtreeGossip g)) n = Inl ErrFrameTooLarge"
      using b by (simp add: WriteFrame_def Let_def del: enc_TopicMessage.simps)
  qed
  ultimately show ?thesis by blast
qed

theorem payload_limit_witness:
  "WriteFrame enc_TopicMessage (TopicMessageGossip (PlumtreeGossip
     \<lparr>g_ID = replicate 32 0, g_Content = replicate 475 7, g_Scope = DeliveryScopeSwarm 0\<rparr>)) 512 = Inl ErrFrameTooLarge \<and>
   MaxPayloadSize 512 = 475"
proof -
  let ?g = "\<lparr>g_ID = replicate 32 0, g_Content = replicate 475 7, g_Scope = DeliveryScopeSwarm 0\<rparr> :: Gossip"
  have "ok_Gossip ?g" by (simp add: ok_Gossip_def maxInt_def)
  moreover have "MaxPayloadSize 512 = 475"
    by (simp add: MaxPayloadSize_eq NormalizeMaxMessageSize_def MinMaxMessageSize_def)
  ultimately show ?thesis using payload_limit [of ?g 512] by (simp del: enc_TopicMessage.simps)
qed

end
