(* ===== verification/Quic_Varint.thy ===== *)
theory Quic_Varint
  imports Go_Prelude
begin

text \<open>
  QUIC variable-length integers (RFC 9000, section 16), which the repository implements twice:
  \<open>internal/qng/quicvarint/varint.go\<close> (\<open>Len\<close>, \<open>Append\<close>, \<open>AppendWithLen\<close>,
  \<open>Read\<close>, \<open>Parse\<close>, here with the prefix \<open>qv_\<close>) for the transport and
  \<open>internal/relayproto/varint.go\<close> (\<open>varintLen\<close>, \<open>appendVarint\<close>, \<open>readVarint\<close>,
  here with the prefix \<open>relay_\<close>) for the relay frames.  An \<open>io.ByteReader\<close> is the list of
  bytes it still holds; a panic is an error value.

  The locale \<open>varint_reader\<close> is the contract of a reader: it accepts exactly the encodings in
  1, 2, 4 or 8 bytes and returns the value encoded.  All three readers satisfy it, so they agree.
\<close>

datatype qv_error =
    EOF
  | ErrUnexpectedEOF
  | ErrVarintEnd
  | VarintLengthError u64
  | InvalidVarintLength nat
  | CannotEncode u64 nat

definition maxVarInt1 :: u64 where "maxVarInt1 = 63"
definition maxVarInt2 :: u64 where "maxVarInt2 = 16383"
definition maxVarInt4 :: u64 where "maxVarInt4 = 1073741823"
definition maxVarInt8 :: u64 where "maxVarInt8 = 4611686018427387903"

section \<open>The transport's implementation\<close>

definition qv_Len :: "u64 \<Rightarrow> qv_error + nat" where
  "qv_Len i =
     (if i \<le> maxVarInt1 then Inr 1
      else if i \<le> maxVarInt2 then Inr 2
      else if i \<le> maxVarInt4 then Inr 4
      else if i \<le> maxVarInt8 then Inr 8
      else Inl (VarintLengthError i))"

definition qv_Append :: "bytes \<Rightarrow> u64 \<Rightarrow> qv_error + bytes" where
  "qv_Append b i =
     (if i \<le> maxVarInt1 then Inr (b @ [ucast i])
      else if i \<le> maxVarInt2 then Inr (b @ [ucast (drop_bit 8 i) OR 0x40, ucast i])
      else if i \<le> maxVarInt4 then
        Inr (b @ [ucast (drop_bit 24 i) OR 0x80, ucast (drop_bit 16 i), ucast (drop_bit 8 i), ucast i])
      else if i \<le> maxVarInt8 then
        Inr (b @ [ucast (drop_bit 56 i) OR 0xc0, ucast (drop_bit 48 i), ucast (drop_bit 40 i),
          ucast (drop_bit 32 i), ucast (drop_bit 24 i), ucast (drop_bit 16 i), ucast (drop_bit 8 i),
          ucast i])
      else Inl (VarintLengthError i))"

definition qv_AppendWithLen :: "bytes \<Rightarrow> u64 \<Rightarrow> nat \<Rightarrow> qv_error + bytes" where
  "qv_AppendWithLen b i len =
     (if len \<noteq> 1 \<and> len \<noteq> 2 \<and> len \<noteq> 4 \<and> len \<noteq> 8 then Inl (InvalidVarintLength len)
      else rbind (qv_Len i) (\<lambda>l.
        if l = len then qv_Append b i
        else if l > len then Inl (CannotEncode i len)
        else
          let b = b @ (if len = 2 then [0x40] else if len = 4 then [0x80]
                       else if len = 8 then [0xc0] else []);
              b = b @ replicate (len - l - 1) 0
          in Inr (b @ map (\<lambda>j. ucast (drop_bit (8 * (l - 1 - j)) i)) [0..<l])))"

definition readByte :: "bytes \<Rightarrow> qv_error + (byte \<times> bytes)" where
  "readByte r = (case r of [] \<Rightarrow> Inl EOF | b # r' \<Rightarrow> Inr (b, r'))"

definition qv_Read :: "bytes \<Rightarrow> qv_error + (u64 \<times> bytes)" where
  "qv_Read r =
     rbind (readByte r) (\<lambda>(firstByte, r).
     let l = push_bit (unat (drop_bit 6 (firstByte AND 0xc0))) (1 :: nat);
         b1 = firstByte AND (0xff - 0xc0)
     in if l = 1 then Inr (ucast b1, r)
        else rbind (readByte r) (\<lambda>(b2, r).
        if l = 2 then Inr (ucast b2 + push_bit 8 (ucast b1), r)
        else rbind (readByte r) (\<lambda>(b3, r).
        rbind (readByte r) (\<lambda>(b4, r).
        if l = 4 then
          Inr (ucast b4 + push_bit 8 (ucast b3) + push_bit 16 (ucast b2) + push_bit 24 (ucast b1), r)
        else rbind (readByte r) (\<lambda>(b5, r).
        rbind (readByte r) (\<lambda>(b6, r).
        rbind (readByte r) (\<lambda>(b7, r).
        rbind (readByte r) (\<lambda>(b8, r).
          Inr (ucast b8 + push_bit 8 (ucast b7) + push_bit 16 (ucast b6) + push_bit 24 (ucast b5)
            + push_bit 32 (ucast b4) + push_bit 40 (ucast b3) + push_bit 48 (ucast b2)
            + push_bit 56 (ucast b1), r)))))))))"

text \<open>\<open>binary.BigEndian.Uint64\<close>, which reads the first eight bytes.\<close>

definition of_be64 :: "bytes \<Rightarrow> u64" where
  "of_be64 b =
     ucast (b ! 7) OR push_bit 8 (ucast (b ! 6)) OR push_bit 16 (ucast (b ! 5))
     OR push_bit 24 (ucast (b ! 4)) OR push_bit 32 (ucast (b ! 3)) OR push_bit 40 (ucast (b ! 2))
     OR push_bit 48 (ucast (b ! 1)) OR push_bit 56 (ucast (b ! 0))"

definition qv_Parse :: "bytes \<Rightarrow> qv_error + (u64 \<times> nat)" where
  "qv_Parse b =
     (if b = [] then Inl EOF
      else let first = b ! 0; prefix = drop_bit 6 first in
        if prefix = 0 then Inr (ucast (first AND 0x3f), 1)
        else if prefix = 1 then
          (if length b < 2 then Inl ErrUnexpectedEOF
           else Inr (ucast (b ! 1) OR push_bit 8 (ucast (first AND 0x3f)), 2))
        else if prefix = 2 then
          (if length b < 4 then Inl ErrUnexpectedEOF
           else Inr (ucast (b ! 3) OR push_bit 8 (ucast (b ! 2)) OR push_bit 16 (ucast (b ! 1))
             OR push_bit 24 (ucast (first AND 0x3f)), 4))
        else
          (if length b < 8 then Inl ErrUnexpectedEOF
           else Inr (of_be64 b AND 0x3fffffffffffffff, 8)))"

section \<open>The relay's implementation\<close>

definition varintLen :: "u64 \<Rightarrow> qv_error + nat" where
  "varintLen v =
     (if v < 2 ^ 6 then Inr 1
      else if v < 2 ^ 14 then Inr 2
      else if v < 2 ^ 30 then Inr 4
      else if v < 2 ^ 62 then Inr 8
      else Inl (VarintLengthError v))"

definition relay_appendVarint :: "bytes \<Rightarrow> u64 \<Rightarrow> qv_error + bytes" where
  "relay_appendVarint dst v =
     rbind (varintLen v) (\<lambda>n.
       if n = 1 then Inr (dst @ [ucast v])
       else if n = 2 then Inr (dst @ [ucast (drop_bit 8 v) OR 0x40, ucast v])
       else if n = 4 then
         Inr (dst @ [ucast (drop_bit 24 v) OR 0x80, ucast (drop_bit 16 v), ucast (drop_bit 8 v), ucast v])
       else
         Inr (dst @ [ucast (drop_bit 56 v) OR 0xc0, ucast (drop_bit 48 v), ucast (drop_bit 40 v),
           ucast (drop_bit 32 v), ucast (drop_bit 24 v), ucast (drop_bit 16 v), ucast (drop_bit 8 v),
           ucast v]))"

text \<open>The loop \<open>for i := 1; i < n; i++ { v = v<<8 | uint64(buf[i]) }\<close>.\<close>

fun readVarint_bytes :: "u64 \<Rightarrow> bytes \<Rightarrow> u64" where
  "readVarint_bytes v [] = v"
| "readVarint_bytes v (b # buf) = readVarint_bytes (push_bit 8 v OR ucast b) buf"

definition relay_readVarint :: "bytes \<Rightarrow> qv_error + (u64 \<times> bytes)" where
  "relay_readVarint buf =
     (if buf = [] then Inl ErrVarintEnd
      else let prefix = drop_bit 6 (buf ! 0); n = push_bit (unat prefix) (1 :: nat) in
        if length buf < n then Inl ErrVarintEnd
        else Inr (readVarint_bytes (ucast (buf ! 0 AND 0x3f)) (drop 1 (take n buf)), drop n buf))"

section \<open>The encodings of a value\<close>

text \<open>
  The encoding of \<open>v\<close> in \<open>n\<close> bytes: big-endian, the length in the top two bits of the first
  byte.
\<close>

definition be_bytes :: "nat \<Rightarrow> u64 \<Rightarrow> bytes" where
  "be_bytes n v = map (\<lambda>j. ucast (drop_bit (8 * (n - 1 - j)) v)) [0..<n]"

definition qv_tag :: "nat \<Rightarrow> byte" where
  "qv_tag n = (if n = 1 then 0 else if n = 2 then 0x40 else if n = 4 then 0x80 else 0xc0)"

definition qv_enc :: "nat \<Rightarrow> u64 \<Rightarrow> bytes" where
  "qv_enc n v = (ucast (drop_bit (8 * (n - 1)) v) OR qv_tag n) # be_bytes (n - 1) v"

definition qv_fits :: "nat \<Rightarrow> u64 \<Rightarrow> bool" where
  "qv_fits n v \<longleftrightarrow> n \<in> {1, 2, 4, 8} \<and> unat v < 2 ^ (8 * n - 2)"

lemma be_bytes_0 [simp]: "be_bytes 0 v = []"
  by (simp add: be_bytes_def)

lemma be_bytes_Suc: "be_bytes (Suc n) v = ucast (drop_bit (8 * n) v) # be_bytes n v"
  by (simp add: be_bytes_def map_upt_Suc del: upt_Suc)

lemma length_be_bytes [simp]: "length (be_bytes n v) = n"
  by (simp add: be_bytes_def)

lemma length_qv_enc [simp]: "0 < n \<Longrightarrow> length (qv_enc n v) = n"
  by (simp add: qv_enc_def)

lemma bit_lt_exp: "unat v < 2 ^ k \<Longrightarrow> bit v m \<Longrightarrow> m < k" for v :: "'a::len word"
proof -
  assume "unat v < 2 ^ k" "bit v m"
  then have "take_bit k (unat v) = unat v" "bit (unat v) m"
    by (simp_all add: take_bit_nat_eq_self_iff bit_unsigned_iff)
  then show "m < k" by (metis bit_take_bit_iff)
qed

lemma lt_exp_bits: "(\<And>m. bit v m \<Longrightarrow> m < k) \<Longrightarrow> unat v < 2 ^ k" for v :: "'a::len word"
proof -
  assume "\<And>m. bit v m \<Longrightarrow> m < k"
  then have "take_bit k (unat v) = unat v"
    by (auto simp: bit_eq_iff bit_take_bit_iff bit_unsigned_iff)
  then show "unat v < 2 ^ k" by (simp add: take_bit_nat_eq_self_iff)
qed

lemma be_bytes_leading:
  "unat v < 2 ^ (8 * l) \<Longrightarrow> be_bytes (k + l) v = replicate k 0 @ be_bytes l v"
proof (induction k)
  case (Suc k)
  then have "ucast (drop_bit (8 * (k + l)) v) = (0 :: byte)"
    by (auto intro!: bit_word_eqI simp: bit_simps dest: bit_lt_exp [of v "8 * l"])
  with Suc show ?case by (simp add: be_bytes_Suc)
qed simp

lemma readVarint_bytes_be: "readVarint_bytes (drop_bit (8 * n) v) (be_bytes n v) = v"
proof (induction n)
  case (Suc n)
  have "push_bit 8 (drop_bit (8 * Suc n) v) OR ucast (ucast (drop_bit (8 * n) v) :: byte) = drop_bit (8 * n) v"
    by (rule bit_word_eqI) (auto simp: bit_simps)
  with Suc show ?case by (simp add: be_bytes_Suc)
qed simp

lemma readVarint_bytes_top:
  assumes "length bs < 8" and "take_bit (64 - 8 * length bs) acc = acc"
  shows "drop_bit (8 * length bs) (readVarint_bytes acc bs) = acc
     \<and> be_bytes (length bs) (readVarint_bytes acc bs) = bs"
  using assms
proof (induction bs arbitrary: acc)
  case (Cons b bs)
  let ?a = "push_bit 8 acc OR ucast b"
  have hi: "m + 8 * length (b # bs) < 64" if "bit acc m" for m
    using Cons.prems(2) that by (metis bit_take_bit_iff less_diff_conv)
  have "take_bit (64 - 8 * length bs) ?a = ?a"
  proof (rule bit_word_eqI)
    fix m
    show "bit (take_bit (64 - 8 * length bs) ?a) m \<longleftrightarrow> bit ?a m"
      using hi [of "m - 8"] Cons.prems(1) by (cases "m < 8") (auto simp: bit_simps)
  qed
  with Cons have IH: "drop_bit (8 * length bs) (readVarint_bytes ?a bs) = ?a"
    "be_bytes (length bs) (readVarint_bytes ?a bs) = bs" by simp_all
  have "drop_bit 8 ?a = acc"
  proof (rule bit_word_eqI)
    fix m
    show "bit (drop_bit 8 ?a) m \<longleftrightarrow> bit acc m" using hi [of m] by (auto simp: bit_simps)
  qed
  moreover have "drop_bit (8 * length (b # bs)) (readVarint_bytes ?a bs) = drop_bit 8 ?a"
    using arg_cong [OF IH(1), of "drop_bit 8"] by (simp add: drop_bit_drop_bit add.commute)
  moreover have "ucast ?a = b" by (rule bit_word_eqI) (auto simp: bit_simps)
  ultimately show ?case using IH by (simp add: be_bytes_Suc)
qed simp

lemma qv_head_low:
  assumes "qv_fits n v"
  shows "unat (ucast (drop_bit (8 * (n - 1)) v) :: byte) < 2 ^ 6"
proof (rule lt_exp_bits)
  fix m
  assume "bit (ucast (drop_bit (8 * (n - 1)) v) :: byte) m"
  with assms show "m < 6"
    using bit_lt_exp [of v "8 * n - 2" "8 * (n - 1) + m"] by (auto simp: qv_fits_def bit_simps)
qed

lemma and63: "b AND 0x3f = take_bit 6 b" for b :: byte
  by (simp add: take_bit_eq_mask mask_eq_exp_minus_1)

lemma byte_tag:
  assumes "unat (b :: byte) < 2 ^ 6" and "n \<in> {1, 2, 4, 8}"
  shows "drop_bit 6 (b OR qv_tag n) = drop_bit 6 (qv_tag n)" "(b OR qv_tag n) AND 0x3f = b"
    "2 ^ unat (drop_bit 6 (qv_tag n)) = n"
proof -
  have t: "drop_bit 6 b = 0"
    using bit_lt_exp [OF assms(1)] by (fastforce intro!: bit_word_eqI simp: bit_simps)
  then show "drop_bit 6 (b OR qv_tag n) = drop_bit 6 (qv_tag n)"
    by (simp add: drop_bit_or)
  have "b AND 0x3f = b"
    unfolding and63 using bit_lt_exp [OF assms(1)] by (auto intro!: bit_word_eqI simp: bit_take_bit_iff)
  then show "(b OR qv_tag n) AND 0x3f = b"
    using assms(2) by (auto simp: qv_tag_def and.commute [of _ "0x3f"] bit.conj_disj_distrib)
  show "2 ^ unat (drop_bit 6 (qv_tag n)) = n"
    using assms(2) by (auto simp: qv_tag_def)
qed

lemma relay_readVarint_enc:
  assumes "qv_fits n v"
  shows "relay_readVarint (qv_enc n v @ rest) = Inr (v, rest)"
proof -
  let ?b = "ucast (drop_bit (8 * (n - 1)) v) :: byte"
  have n: "n \<in> {1, 2, 4, 8}" "0 < n" using assms by (auto simp: qv_fits_def)
  note b = byte_tag [OF qv_head_low [OF assms] n(1)]
  have "ucast ?b = drop_bit (8 * (n - 1)) v"
  proof (rule bit_word_eqI)
    fix m
    show "bit (ucast ?b :: u64) m \<longleftrightarrow> bit (drop_bit (8 * (n - 1)) v) m"
      using assms bit_lt_exp [of v "8 * n - 2" "8 * (n - 1) + m"] n
      by (auto simp: bit_simps qv_fits_def)
  qed
  with b n readVarint_bytes_be [of "n - 1" v] show ?thesis
    by (cases n) (simp_all add: relay_readVarint_def qv_enc_def Let_def)
qed

lemma byte_prefix_cases:
  fixes b :: byte
  obtains "drop_bit 6 b = 0" | "drop_bit 6 b = 1" | "drop_bit 6 b = 2" | "drop_bit 6 b = 3"
proof -
  have "unat (drop_bit 6 b) < 4"
    using unsigned_less [of b, where 'a = nat]
    by (simp add: drop_bit_eq_div unat_div less_mult_imp_div_less)
  then consider "unat (drop_bit 6 b) = 0" | "unat (drop_bit 6 b) = 1" | "unat (drop_bit 6 b) = 2"
    | "unat (drop_bit 6 b) = 3" by fastforce
  then show thesis using that by cases (simp_all add: word_unat_eq_iff)
qed

lemma byte_split: "(b AND 0x3f) OR push_bit 6 (drop_bit 6 b) = b" for b :: byte
  unfolding and63 by (auto intro!: bit_word_eqI simp: bit_simps)

lemma qv_tag_prefix:
  assumes "n = 2 ^ unat (drop_bit 6 b)"
  shows "n \<in> {1, 2, 4, 8}" "qv_tag n = push_bit 6 (drop_bit 6 b)"
  using assms by (cases b rule: byte_prefix_cases; simp add: qv_tag_def)+

lemma relay_readVarint_sound:
  assumes "relay_readVarint buf = Inr (v, rest)"
  shows "\<exists>n. qv_fits n v \<and> buf = qv_enc n v @ rest"
proof -
  obtain b bs where buf: "buf = b # bs" using assms by (cases buf) (auto simp: relay_readVarint_def)
  define n where "n = (2 :: nat) ^ unat (drop_bit 6 b)"
  note n = qv_tag_prefix [OF n_def]
  let ?acc = "ucast (b AND 0x3f) :: u64" and ?bs = "take (n - 1) bs"
  from assms buf have len: "n - 1 \<le> length bs" and v: "v = readVarint_bytes ?acc ?bs"
    and rest: "rest = drop (n - 1) bs"
    using n(1) by (auto simp: relay_readVarint_def Let_def n_def [symmetric] take_Cons' drop_Cons' simp del: insert_iff split: if_splits)
  have l: "length ?bs = n - 1" using len by simp
  have low: "bit (b AND 0x3f) m \<Longrightarrow> m < 6" for m
    by (simp only: and63 bit_take_bit_iff)
  have "take_bit (64 - 8 * length ?bs) ?acc = ?acc"
    using l n(1) by (auto intro!: bit_word_eqI simp: bit_take_bit_iff bit_ucast_iff dest!: low)
  then have top: "drop_bit (8 * (n - 1)) v = ?acc" "be_bytes (n - 1) v = ?bs"
    using readVarint_bytes_top [of ?bs ?acc] l v n(1) by auto
  have "unat v < 2 ^ (8 * n - 2)"
  proof (rule lt_exp_bits)
    fix m
    assume "bit v m"
    then have "8 * (n - 1) \<le> m \<Longrightarrow> bit (b AND 0x3f) (m - 8 * (n - 1))"
      using arg_cong [OF top(1), of "\<lambda>x. bit x (m - 8 * (n - 1))"] by (simp add: bit_drop_bit_eq bit_ucast_iff)
    then show "m < 8 * n - 2" using low [of "m - 8 * (n - 1)"] n(1) by (cases "8 * (n - 1) \<le> m") auto
  qed
  moreover have "ucast (drop_bit (8 * (n - 1)) v) OR qv_tag n = b"
    using top(1) n(2) byte_split [of b] by simp
  ultimately show ?thesis
    using n(1) top(2) rest buf by (intro exI [of _ n]) (simp add: qv_fits_def qv_enc_def)
qed

lemma qv_fits_bound: "qv_fits n v \<Longrightarrow> unat v < 2 ^ 62"
proof -
  assume f: "qv_fits n v"
  then have "(2 :: nat) ^ (8 * n - 2) \<le> 2 ^ 62"
    unfolding qv_fits_def by (intro power_increasing) auto
  moreover have "unat v < 2 ^ (8 * n - 2)" using f by (simp only: qv_fits_def)
  ultimately show ?thesis by (rule order_less_le_trans [rotated])
qed

section \<open>The contract of a reader\<close>

locale varint_reader =
  fixes rd :: "bytes \<Rightarrow> 'e + (u64 \<times> bytes)"
  assumes rd_enc: "qv_fits n v \<Longrightarrow> rd (qv_enc n v @ rest) = Inr (v, rest)"
    and rd_sound: "rd buf = Inr (v, rest) \<Longrightarrow> \<exists>n. qv_fits n v \<and> buf = qv_enc n v @ rest"
begin

lemma rd_iff: "rd buf = Inr (v, rest) \<longleftrightarrow> (\<exists>n. qv_fits n v \<and> buf = qv_enc n v @ rest)"
  using rd_enc rd_sound by blast

lemma rd_bound: "rd buf = Inr (v, rest) \<Longrightarrow> unat v < 2 ^ 62"
  using qv_fits_bound rd_sound by blast

lemma rd_consumes: "rd buf = Inr (v, rest) \<Longrightarrow> length buf \<in> {length rest + 1, length rest + 2, length rest + 4, length rest + 8}"
  by (drule rd_sound) (auto simp: qv_fits_def)

end

locale varint_readers = a: varint_reader rd + b: varint_reader rd'
  for rd :: "bytes \<Rightarrow> 'e + (u64 \<times> bytes)" and rd' :: "bytes \<Rightarrow> 'f + (u64 \<times> bytes)"
begin

lemma readers_agree: "rd buf = Inr x \<longleftrightarrow> rd' buf = Inr x"
  by (cases x) (simp add: a.rd_iff b.rd_iff)

end

interpretation relay: varint_reader relay_readVarint
  by unfold_locales (simp_all add: relay_readVarint_enc relay_readVarint_sound)

text \<open>The transport's readers, through the relay's.\<close>

lemma readVarint_bytes_plus:
  "readVarint_bytes v (b # bs) = readVarint_bytes (push_bit 8 v + ucast b) bs"
proof -
  have "push_bit 8 v + ucast b = push_bit 8 v OR ucast b"
    by (rule disjunctive_add) (auto simp: bit_simps)
  then show ?thesis by simp
qed

lemma bit_3_int: "bit (3 :: int) n \<longleftrightarrow> n < 2"
proof -
  have "(3 :: int) = mask 2" by (simp add: mask_eq_exp_minus_1)
  then show ?thesis by (simp only: bit_mask_iff possible_bit_int) auto
qed

lemma byte_masks:
  fixes b :: byte
  shows "drop_bit 6 (b AND 0xc0) = drop_bit 6 b" "b AND (0xff - 0xc0) = b AND 0x3f"
proof -
  have "bit b (6 + n) \<Longrightarrow> n < 2" for n using bit_imp_le_length [of b "6 + n"] by simp
  then show "drop_bit 6 (b AND 0xc0) = drop_bit 6 b"
    by (auto intro!: bit_word_eqI simp: bit_simps bit_3_int drop_bit_and)
qed simp

lemma readByte_simps [simp]: "readByte [] = Inl EOF" "readByte (b # r) = Inr (b, r)"
  by (simp_all add: readByte_def)

lemma qv_Read_Nil: "qv_Read [] = Inl EOF"
  unfolding qv_Read_def readByte_simps rbind_Inl ..

lemma qv_Read_Cons:
  "qv_Read (b # r) =
     (let p = drop_bit 6 b; b1 = b AND 0x3f in
      if p = 0 then Inr (ucast b1, r)
      else rbind (readByte r) (\<lambda>(b2, r).
        if p = 1 then Inr (readVarint_bytes (ucast b1) [b2], r)
        else rbind (readByte r) (\<lambda>(b3, r).
        rbind (readByte r) (\<lambda>(b4, r).
        if p = 2 then Inr (readVarint_bytes (ucast b1) [b2, b3, b4], r)
        else rbind (readByte r) (\<lambda>(b5, r).
        rbind (readByte r) (\<lambda>(b6, r).
        rbind (readByte r) (\<lambda>(b7, r).
        rbind (readByte r) (\<lambda>(b8, r).
          Inr (readVarint_bytes (ucast b1) [b2, b3, b4, b5, b6, b7, b8], r)))))))))"
proof -
  have sums: "ucast b2 + push_bit 8 x = readVarint_bytes x [b2]"
    "ucast b4 + push_bit 8 (ucast b3) + push_bit 16 (ucast b2) + push_bit 24 x = readVarint_bytes x [b2, b3, b4]"
    "ucast b8 + push_bit 8 (ucast b7) + push_bit 16 (ucast b6) + push_bit 24 (ucast b5)
       + push_bit 32 (ucast b4) + push_bit 40 (ucast b3) + push_bit 48 (ucast b2) + push_bit 56 x
      = readVarint_bytes x [b2, b3, b4, b5, b6, b7, b8]" for x b2 b3 b4 b5 b6 b7 b8
    by (simp_all add: readVarint_bytes_plus push_bit_add push_bit_push_bit ac_simps
      del: readVarint_bytes.simps(2))
  show ?thesis
    unfolding qv_Read_def readByte_simps rbind_Inr prod.case Let_def byte_masks sums(3)
    unfolding sums(2) unfolding sums(1)
    by (cases b rule: byte_prefix_cases) (simp_all del: readVarint_bytes.simps)
qed

lemma readByte_eq_Inr: "readByte r = Inr x \<longleftrightarrow> r = fst x # snd x"
  by (cases r) (auto simp: prod_eq_iff)

lemma list_long:
  "1 \<le> length bs \<Longrightarrow> \<exists>b2 r. bs = b2 # r"
  "3 \<le> length bs \<Longrightarrow> \<exists>b2 b3 b4 r. bs = b2 # b3 # b4 # r"
  "7 \<le> length bs \<Longrightarrow> \<exists>b2 b3 b4 b5 b6 b7 b8 r. bs = b2 # b3 # b4 # b5 # b6 # b7 # b8 # r"
  by (auto simp: eval_nat_numeral Suc_le_length_iff)

lemma qv_Read_relay: "qv_Read buf = Inr x \<longleftrightarrow> relay_readVarint buf = Inr x"
proof (cases buf)
  case (Cons b bs)
  note defs = qv_Read_Cons relay_readVarint_def Let_def Cons
  note short = rbind_eq_Inr readByte_eq_Inr
  show ?thesis
  proof (cases b rule: byte_prefix_cases)
    case 1 then show ?thesis by (simp add: defs)
  next
    case 2 then show ?thesis by (cases bs) (simp_all add: defs)
  next
    case 3 then show ?thesis
    proof (cases "3 \<le> length bs")
      case True then show ?thesis using list_long(2) [OF True] 3 by (auto simp: defs)
    next
      case False with 3 show ?thesis by (auto simp: defs short)
    qed
  next
    case 4 then show ?thesis
    proof (cases "7 \<le> length bs")
      case True
      then obtain b2 b3 b4 b5 b6 b7 b8 r where "bs = b2 # b3 # b4 # b5 # b6 # b7 # b8 # r"
        using list_long(3) by blast
      with 4 show ?thesis by (simp add: defs del: readVarint_bytes.simps)
    next
      case False
      with 4 have "relay_readVarint buf = Inl ErrVarintEnd" by (simp add: defs)
      moreover have "qv_Read buf \<noteq> Inr x"
        using 4 False by (cases bs) (auto simp add: defs short)
      ultimately show ?thesis by simp
    qed
  qed
qed (simp add: relay_readVarint_def qv_Read_Nil)

definition qv_Parse_rest :: "bytes \<Rightarrow> qv_error + (u64 \<times> bytes)" where
  "qv_Parse_rest b = rbind (qv_Parse b) (\<lambda>(v, n). Inr (v, drop n b))"

lemma take_bit_ucast_byte: "8 \<le> k \<Longrightarrow> take_bit k (ucast b :: u64) = ucast b" for b :: byte
  by (auto intro!: bit_word_eqI simp: bit_simps) (metis bit_byte_high linorder_not_le order_trans)

lemma of_be64_masked:
  "of_be64 (b # b2 # b3 # b4 # b5 # b6 # b7 # b8 # r) AND 0x3fffffffffffffff
     = readVarint_bytes (ucast (b AND 0x3f)) [b2, b3, b4, b5, b6, b7, b8]"
proof -
  have m: "x AND 0x3fffffffffffffff = take_bit 62 x" for x :: u64
    by (simp add: take_bit_eq_mask mask_eq_exp_minus_1)
  have "take_bit 6 (ucast b :: u64) = ucast (b AND 0x3f)"
    unfolding and63 by (rule bit_word_eqI) (auto simp: bit_simps)
  then show ?thesis
    unfolding m of_be64_def
    by (simp add: take_bit_or take_bit_push_bit take_bit_ucast_byte push_bit_or push_bit_push_bit ac_simps)
qed

lemma qv_Parse_relay: "qv_Parse_rest buf = Inr x \<longleftrightarrow> relay_readVarint buf = Inr x"
proof (cases buf)
  case (Cons b bs)
  note defs = qv_Parse_rest_def qv_Parse_def relay_readVarint_def Let_def Cons
  note ors = push_bit_or push_bit_push_bit ac_simps
  show ?thesis
  proof (cases b rule: byte_prefix_cases)
    case 1 then show ?thesis by (simp add: defs)
  next
    case 2 then show ?thesis by (cases bs) (simp_all add: defs ors)
  next
    case 3 then show ?thesis
      using list_long(2) [of bs] by (cases "3 \<le> length bs") (auto simp: defs ors)
  next
    case 4 then show ?thesis
    proof (cases "7 \<le> length bs")
      case True
      then obtain b2 b3 b4 b5 b6 b7 b8 r where "bs = b2 # b3 # b4 # b5 # b6 # b7 # b8 # r"
        using list_long(3) by blast
      with 4 show ?thesis by (simp add: defs of_be64_masked del: readVarint_bytes.simps)
    qed (simp add: defs)
  qed
qed (simp add: qv_Parse_rest_def qv_Parse_def relay_readVarint_def)

interpretation qread: varint_reader qv_Read
  by unfold_locales (simp_all add: qv_Read_relay relay_readVarint_enc relay_readVarint_sound)

interpretation qparse: varint_reader qv_Parse_rest
  by unfold_locales (simp_all add: qv_Parse_relay relay_readVarint_enc relay_readVarint_sound)

interpretation qreaders: varint_readers qv_Read qv_Parse_rest
  by unfold_locales

interpretation rreaders: varint_readers qv_Read relay_readVarint
  by unfold_locales

section \<open>The writers\<close>

lemma qv_Len_eq: "qv_Len v = varintLen v"
  by (simp add: qv_Len_def varintLen_def maxVarInt1_def maxVarInt2_def maxVarInt4_def maxVarInt8_def
    word_le_nat_alt word_less_nat_alt less_Suc_eq_le)

lemma varintLen_fits: "varintLen v = Inr n \<Longrightarrow> qv_fits n v"
  by (auto simp: varintLen_def qv_fits_def word_less_nat_alt split: if_splits)

lemma varintLen_least: "qv_fits n v \<Longrightarrow> \<exists>l. varintLen v = Inr l \<and> l \<le> n"
  by (auto simp: varintLen_def qv_fits_def word_less_nat_alt)

lemma relay_append_enc: "varintLen v = Inr n \<Longrightarrow> relay_appendVarint dst v = Inr (dst @ qv_enc n v)"
  by (auto simp: varintLen_def relay_appendVarint_def qv_enc_def qv_tag_def be_bytes_Suc numeral_eq_Suc
    split: if_splits)

lemma qv_Append_relay: "qv_Append dst v = relay_appendVarint dst v"
  by (simp add: relay_appendVarint_def qv_Append_def flip: qv_Len_eq) (simp add: qv_Len_def)

lemma qv_enc_leading:
  assumes "unat v < 2 ^ (8 * l)" and "0 < l" "l < n"
  shows "qv_enc n v = qv_tag n # replicate (n - l - 1) 0 @ be_bytes l v"
proof -
  have "be_bytes (n - 1) v = replicate (n - l - 1) 0 @ be_bytes l v"
    using be_bytes_leading [OF assms(1), of "n - l - 1"] assms(2,3) by simp
  moreover have "\<not> bit v (8 * (n - 1) + m)" for m
    using bit_lt_exp [OF assms(1), of "8 * (n - 1) + m"] assms(2,3) by auto
  then have "ucast (drop_bit (8 * (n - 1)) v) = (0 :: byte)"
    by (auto intro!: bit_word_eqI simp: bit_simps)
  ultimately show ?thesis by (simp add: qv_enc_def)
qed

lemma qv_AppendWithLen_enc:
  assumes "qv_fits n v"
  shows "qv_AppendWithLen b v n = Inr (b @ qv_enc n v)"
proof -
  from varintLen_least [OF assms] obtain l where l: "varintLen v = Inr l" "l \<le> n" by auto
  have n: "n \<in> {1, 2, 4, 8}" using assms by (simp add: qv_fits_def)
  have lf: "qv_fits l v" using l(1) by (rule varintLen_fits)
  show ?thesis
  proof (cases "l = n")
    case True
    with l n show ?thesis
      by (auto simp: qv_AppendWithLen_def qv_Len_eq qv_Append_relay relay_append_enc)
  next
    case False
    have "unat v < 2 ^ (8 * l)"
      by (rule order_less_le_trans [of _ "2 ^ (8 * l - 2)"]) (use lf in \<open>simp_all add: qv_fits_def\<close>)
    moreover have "0 < l" using lf by (auto simp: qv_fits_def)
    ultimately have "qv_enc n v = qv_tag n # replicate (n - l - 1) 0 @ be_bytes l v"
      using False l(2) by (intro qv_enc_leading) simp_all
    with l n False \<open>0 < l\<close> show ?thesis
      by (auto simp: qv_AppendWithLen_def qv_Len_eq qv_tag_def be_bytes_def Let_def)
  qed
qed

lemma qv_AppendWithLen_fits: "qv_AppendWithLen b v n = Inr b' \<Longrightarrow> qv_fits n v"
proof -
  assume a: "qv_AppendWithLen b v n = Inr b'"
  then obtain l where l: "varintLen v = Inr l" "l \<le> n" "n \<in> {1, 2, 4, 8}"
    by (auto simp: qv_AppendWithLen_def qv_Len_eq rbind_eq_Inr split: if_splits)
  then have "unat v < 2 ^ (8 * l - 2)" using varintLen_fits by (simp add: qv_fits_def)
  also have "\<dots> \<le> 2 ^ (8 * n - 2)" using l(2) by (intro power_increasing) auto
  finally show ?thesis using l(3) by (simp add: qv_fits_def)
qed

lemma qv_AppendWithLen_iff: "qv_AppendWithLen [] v n = Inr e \<longleftrightarrow> qv_fits n v \<and> e = qv_enc n v"
  using qv_AppendWithLen_enc [of n v "[]"] qv_AppendWithLen_fits [of "[]" v n] by auto

lemma qv_fits_max: "v \<le> maxVarInt8 \<longleftrightarrow> qv_fits 8 v"
  by (auto simp: maxVarInt8_def qv_fits_def word_le_nat_alt)

text \<open>
  C36: the three readers of QUIC varints (\<open>quicvarint.Read\<close>, \<open>quicvarint.Parse\<close> and the
  relay's \<open>readVarint\<close>) accept the same inputs with the same value and rest, and these are
  exactly the outputs of \<open>AppendWithLen\<close> for some length, so no reader accepts a value above
  the maximum and each encoding stands for one value.
\<close>
theorem quicvarint_readers_agree:
  "(qv_Read buf = Inr (v, rest)
      \<longleftrightarrow> (\<exists>n. qv_AppendWithLen [] v n = Inr (take n buf) \<and> rest = drop n buf))
   \<and> (relay_readVarint buf = Inr (v, rest) \<longleftrightarrow> qv_Read buf = Inr (v, rest))
   \<and> ((\<exists>n. qv_Parse buf = Inr (v, n) \<and> rest = drop n buf) \<longleftrightarrow> qv_Read buf = Inr (v, rest))"
proof -
  have "qv_Read buf = Inr (v, rest) \<longleftrightarrow> (\<exists>n. qv_fits n v \<and> buf = qv_enc n v @ rest)"
    by (rule qread.rd_iff)
  also have "\<dots> \<longleftrightarrow> (\<exists>n. qv_AppendWithLen [] v n = Inr (take n buf) \<and> rest = drop n buf)"
    unfolding qv_AppendWithLen_iff
    by (metis append_eq_conv_conj append_take_drop_id insertE length_qv_enc qv_fits_def singletonD
      zero_less_numeral zero_less_one)
  finally show ?thesis
    using qreaders.readers_agree [of buf "(v, rest)"] rreaders.readers_agree [of buf "(v, rest)"]
    by (auto simp: qv_Parse_rest_def rbind_eq_Inr)
qed

text \<open>
  Every value up to the maximum is written, by \<open>quicvarint.Append\<close> and the relay's
  \<open>appendVarint\<close> alike, in \<open>Len\<close> bytes, which no encoding of the value undercuts, and
  every reader returns it with the bytes that follow.
\<close>
theorem quicvarint_minimal_roundtrip:
  assumes "v \<le> maxVarInt8"
  shows "\<exists>n e. qv_Len v = Inr n \<and> varintLen v = Inr n \<and> length e = n
     \<and> qv_Append b v = Inr (b @ e) \<and> relay_appendVarint b v = Inr (b @ e)
     \<and> qv_Read (e @ rest) = Inr (v, rest) \<and> qv_Parse (e @ rest) = Inr (v, n)
     \<and> relay_readVarint (e @ rest) = Inr (v, rest)
     \<and> (\<forall>m e'. qv_AppendWithLen [] v m = Inr e' \<longrightarrow> n \<le> m)"
proof -
  from assms obtain n where n: "varintLen v = Inr n"
    using varintLen_least by (auto simp: qv_fits_max)
  then have f: "qv_fits n v" by (rule varintLen_fits)
  then have pos: "0 < n" by (auto simp: qv_fits_def)
  from qparse.rd_enc [OF f, of rest] obtain m where m: "qv_Parse (qv_enc n v @ rest) = Inr (v, m)"
    and d: "drop m (qv_enc n v @ rest) = rest"
    by (auto simp: qv_Parse_rest_def rbind_eq_Inr)
  have "m \<le> length (qv_enc n v @ rest)"
    using m pos by (auto simp: qv_Parse_def Let_def split: if_splits)
  with arg_cong [OF d, of length] pos have "m = n" by simp
  moreover have "\<forall>m e'. qv_AppendWithLen [] v m = Inr e' \<longrightarrow> n \<le> m"
    using n varintLen_least qv_AppendWithLen_iff by fastforce
  ultimately show ?thesis
    using n m pos f by (intro exI [of _ n] exI [of _ "qv_enc n v"])
      (simp add: qv_Len_eq qv_Append_relay relay_append_enc qread.rd_enc relay.rd_enc)
qed

theorem quicvarint_minimal_roundtrip_witness:
  "\<exists>n e. qv_Len 16384 = Inr n \<and> qv_Append [] 16384 = Inr e \<and> length e = n \<and> n = 4"
  using quicvarint_minimal_roundtrip [of 16384 "[]" "[]"]
  by (auto simp: maxVarInt8_def qv_Len_def maxVarInt1_def maxVarInt2_def maxVarInt4_def)

end
