(* ===== verification/Iroh_Key.thy ===== *)
theory Iroh_Key
  imports Go_Prelude
begin

text \<open>
  \<open>key/key.go\<close>: Ed25519 public keys, endpoint ids, secret keys and signatures as byte
  arrays.  The curve arithmetic and the signature scheme come from \<open>filippo.io/edwards25519\<close>
  and \<open>crypto/ed25519\<close>; the record \<open>ed25519\<close> holds the functions the package calls of them,
  and \<open>ed25519_ok\<close> states what their documentation promises.
\<close>

record ed25519 =
  validPoint :: "bytes \<Rightarrow> bool"
  ed_NewKeyFromSeed :: "bytes \<Rightarrow> bytes"
  ed_Sign :: "bytes \<Rightarrow> bytes \<Rightarrow> bytes"
  ed_Verify :: "bytes \<Rightarrow> bytes \<Rightarrow> bytes \<Rightarrow> bool"

datatype key_error =
    ErrInvalidKeyData
  | ErrInvalidKeyLength
  | ErrInvalidSignature
  | ErrInvalidSignatureParse

type_synonym PublicKey = bytes
type_synonym EndpointID = bytes
type_synonym SecretKey = bytes
type_synonym Signature = bytes

definition PublicKeySize :: nat where "PublicKeySize = 32"
definition PrivateKeySize :: nat where "PrivateKeySize = 64"
definition SeedSize :: nat where "SeedSize = 32"
definition SignatureSize :: nat where "SignatureSize = 64"

section \<open>Public keys\<close>

definition NewPublicKey :: "ed25519 \<Rightarrow> bytes \<Rightarrow> key_error + PublicKey" where
  "NewPublicKey E b = (if validPoint E b then Inr b else Inl ErrInvalidKeyData)"

definition UncheckedEndpointID :: "bytes \<Rightarrow> EndpointID" where
  "UncheckedEndpointID b = b"

definition NewEndpointID :: "ed25519 \<Rightarrow> bytes \<Rightarrow> key_error + EndpointID" where
  "NewEndpointID E b = rbind (NewPublicKey E b) Inr"

definition PublicKeyFromSlice :: "ed25519 \<Rightarrow> bytes \<Rightarrow> key_error + PublicKey" where
  "PublicKeyFromSlice E b =
     (if length b \<noteq> PublicKeySize then Inl ErrInvalidKeyLength else NewPublicKey E b)"

definition EndpointIDFromSlice :: "ed25519 \<Rightarrow> bytes \<Rightarrow> key_error + EndpointID" where
  "EndpointIDFromSlice E b = rbind (PublicKeyFromSlice E b) Inr"

definition PublicKey_Verify :: "ed25519 \<Rightarrow> PublicKey \<Rightarrow> bytes \<Rightarrow> Signature \<Rightarrow> key_error + unit" where
  "PublicKey_Verify E k message sig =
     (if \<not> ed_Verify E k message sig then Inl ErrInvalidSignature else Inr ())"

section \<open>Signatures and secret keys\<close>

definition SignatureFromSlice :: "bytes \<Rightarrow> key_error + Signature" where
  "SignatureFromSlice b =
     (if length b \<noteq> SignatureSize then Inl ErrInvalidSignatureParse else Inr b)"

definition NewSecretKey :: "ed25519 \<Rightarrow> bytes \<Rightarrow> SecretKey" where
  "NewSecretKey E seed = ed_NewKeyFromSeed E seed"

definition SecretKeyFromSlice :: "ed25519 \<Rightarrow> bytes \<Rightarrow> key_error + SecretKey" where
  "SecretKeyFromSlice E b =
     (if length b \<noteq> SeedSize then Inl ErrInvalidKeyLength else Inr (NewSecretKey E b))"

definition SecretKeyFromEd25519 :: "bytes \<Rightarrow> key_error + SecretKey" where
  "SecretKeyFromEd25519 k =
     (if length k \<noteq> PrivateKeySize then Inl ErrInvalidKeyLength else Inr k)"

text \<open>
  The private key is the seed followed by the public key; \<open>signing.Public()\<close> copies the last
  32 bytes and \<open>signing.Seed()\<close> the first.  \<open>Public\<close> and \<open>sign\<close> drop the error of the
  conversion, which leaves the zero value.
\<close>

definition SecretKey_Public :: "ed25519 \<Rightarrow> SecretKey \<Rightarrow> PublicKey" where
  "SecretKey_Public E k =
     (case PublicKeyFromSlice E (drop 32 k) of Inr pub \<Rightarrow> pub | Inl _ \<Rightarrow> replicate PublicKeySize 0)"

definition SecretKey_Sign :: "ed25519 \<Rightarrow> SecretKey \<Rightarrow> bytes \<Rightarrow> Signature" where
  "SecretKey_Sign E k msg =
     (case SignatureFromSlice (ed_Sign E k msg) of Inr sig \<Rightarrow> sig | Inl _ \<Rightarrow> replicate SignatureSize 0)"

definition SecretKey_Bytes :: "SecretKey \<Rightarrow> bytes" where
  "SecretKey_Bytes k = take SeedSize k"

section \<open>What the signature scheme promises\<close>

text \<open>
  \<open>NewKeyFromSeed\<close> returns the 64-byte private key whose first half is the seed and whose
  second half is a valid public key; \<open>Sign\<close> returns 64 bytes that \<open>Verify\<close> accepts for
  that public key and the message signed.
\<close>

definition ed25519_ok :: "ed25519 \<Rightarrow> bool" where
  "ed25519_ok E \<longleftrightarrow> (\<forall>seed msg. length seed = SeedSize \<longrightarrow>
     length (ed_NewKeyFromSeed E seed) = PrivateKeySize
     \<and> take SeedSize (ed_NewKeyFromSeed E seed) = seed
     \<and> validPoint E (drop SeedSize (ed_NewKeyFromSeed E seed))
     \<and> length (ed_Sign E (ed_NewKeyFromSeed E seed) msg) = SignatureSize
     \<and> ed_Verify E (drop SeedSize (ed_NewKeyFromSeed E seed)) msg (ed_Sign E (ed_NewKeyFromSeed E seed) msg))"

lemmas key_sizes = PublicKeySize_def PrivateKeySize_def SeedSize_def SignatureSize_def

lemma NewEndpointID_eq: "NewEndpointID E b = (if validPoint E b then Inr b else Inl ErrInvalidKeyData)"
  by (simp add: NewEndpointID_def NewPublicKey_def)

lemma PublicKeyFromSlice_Inr:
  "PublicKeyFromSlice E b = Inr k \<longleftrightarrow> k = b \<and> length b = 32 \<and> validPoint E b"
  by (auto simp: PublicKeyFromSlice_def NewPublicKey_def key_sizes)

lemma SignatureFromSlice_Inr: "SignatureFromSlice b = Inr s \<longleftrightarrow> s = b \<and> length b = 64"
  by (auto simp: SignatureFromSlice_def key_sizes)

lemma secret_key_ok:
  assumes "ed25519_ok E" and "SecretKeyFromSlice E seed = Inr k"
  shows "length k = 64" "SecretKey_Bytes k = seed"
    "SecretKey_Public E k = drop 32 k" "length (SecretKey_Public E k) = 32" "validPoint E (SecretKey_Public E k)"
    "length (SecretKey_Sign E k msg) = 64"
    "PublicKey_Verify E (SecretKey_Public E k) msg (SecretKey_Sign E k msg) = Inr ()"
proof -
  from assms(2) have k: "k = ed_NewKeyFromSeed E seed" and s: "length seed = SeedSize"
    by (auto simp: SecretKeyFromSlice_def NewSecretKey_def split: if_splits)
  note ok = assms(1) [unfolded ed25519_ok_def, rule_format, OF s, of msg, folded k]
  show "length k = 64" "SecretKey_Bytes k = seed"
    using ok by (simp_all add: key_sizes SecretKey_Bytes_def)
  have "PublicKeyFromSlice E (drop 32 k) = Inr (drop 32 k)"
    using ok by (simp add: PublicKeyFromSlice_Inr key_sizes)
  then show p: "SecretKey_Public E k = drop 32 k" by (simp add: SecretKey_Public_def)
  show "length (SecretKey_Public E k) = 32" "validPoint E (SecretKey_Public E k)"
    using ok p by (simp_all add: key_sizes)
  have "SecretKey_Sign E k msg = ed_Sign E k msg"
    using ok by (simp add: SecretKey_Sign_def SignatureFromSlice_def)
  then show "length (SecretKey_Sign E k msg) = 64"
    "PublicKey_Verify E (SecretKey_Public E k) msg (SecretKey_Sign E k msg) = Inr ()"
    using ok p by (simp_all add: key_sizes PublicKey_Verify_def)
qed

text \<open>A scheme that satisfies the hypotheses, for concrete inputs.\<close>

definition toy_ed25519 :: ed25519 where
  "toy_ed25519 = \<lparr>validPoint = (\<lambda>b. b \<noteq> replicate 32 0), ed_NewKeyFromSeed = (\<lambda>s. s @ replicate 32 7),
     ed_Sign = (\<lambda>k m. replicate 64 (of_nat (length m))),
     ed_Verify = (\<lambda>k m s. s = replicate 64 (of_nat (length m)))\<rparr>"

lemma toy_ed25519_ok: "ed25519_ok toy_ed25519"
proof -
  have "replicate 32 7 \<noteq> (replicate 32 0 :: bytes)"
    by (simp add: replicate_eq_replicate)
  then show ?thesis by (simp add: ed25519_ok_def toy_ed25519_def key_sizes)
qed

end
