(* ===== verification/Relay_Proto.thy ===== *)
theory Relay_Proto
  imports Postcard Quic_Varint Iroh_Key
begin

text \<open>
  \<open>internal/relayproto\<close>: the frames a relay client and a relay server exchange.
  \<open>varint.go\<close> (the postcard varints and the ECN codepoints; the QUIC varints are in
  \<open>Quic_Varint\<close>), \<open>frame.go\<close> (frame types), \<open>datagrams.go\<close>, \<open>keycache.go\<close> and
  \<open>messages.go\<close>.  A message struct is a record with all the fields of the Go struct, a
  returned Go error a value of \<open>relay_error\<close>.  The key cache is passed through the parsers; the
  key its eviction picks is drawn from the runtime's map order.  Slices are values, so the
  \<open>NoCopy\<close> variants, which differ in the backing array only, compute the same message.
\<close>

datatype relay_error =
    ErrInvalidFrame
  | ErrFrameTooLarge nat
  | ErrUnknownFrameType u64
  | ErrFrameTypeUnexpectedEnd
  | ErrFrameNotAllowedInVersion
  | ErrKey key_error

definition MaxPacketSize :: nat where "MaxPacketSize = 64 * 1024"

section \<open>varint.go: postcard varints and ECN\<close>

function appendPostcardVarint :: "bytes \<Rightarrow> u64 \<Rightarrow> bytes" where
  "appendPostcardVarint dst v =
     (if v \<ge> 0x80 then appendPostcardVarint (dst @ [ucast v OR 0x80]) (drop_bit 7 v) else dst @ [ucast v])"
  by pat_completeness auto

termination appendPostcardVarint
  by (relation "measure (\<lambda>(dst, v). unat v)") (auto simp: drop_bit7_decreases)

declare appendPostcardVarint.simps [simp del]

text \<open>The loop of \<open>readPostcardVarint\<close> at index \<open>i\<close>; \<open>None\<close> is \<open>errVarintEnd\<close>.\<close>

fun readPostcardVarint_loop :: "nat \<Rightarrow> u64 \<Rightarrow> bytes \<Rightarrow> (u64 \<times> bytes) option" where
  "readPostcardVarint_loop i v [] = None"
| "readPostcardVarint_loop i v (b # buf) =
     (let v = v OR push_bit (7 * i) (ucast (b AND 0x7f)) in
      if b < 0x80 then Some (v, buf)
      else if i \<ge> 9 then None
      else readPostcardVarint_loop (i + 1) v buf)"

definition readPostcardVarint :: "bytes \<Rightarrow> (u64 \<times> bytes) option" where
  "readPostcardVarint buf = readPostcardVarint_loop 0 0 buf"

type_synonym EcnCodepoint = byte

definition EcnEct1 :: EcnCodepoint where "EcnEct1 = 1"
definition EcnEct0 :: EcnCodepoint where "EcnEct0 = 2"
definition EcnCe :: EcnCodepoint where "EcnCe = 3"

definition ecnFromBits :: "byte \<Rightarrow> EcnCodepoint \<times> bool" where
  "ecnFromBits b =
     (let x = b AND 3 in
      if x = 1 then (EcnEct1, True)
      else if x = 2 then (EcnEct0, True)
      else if x = 3 then (EcnCe, True)
      else (0, False))"

section \<open>frame.go: frame types\<close>

type_synonym FrameType = u32

definition FrameServerChallenge :: FrameType where "FrameServerChallenge = 0"
definition FrameClientAuth :: FrameType where "FrameClientAuth = 1"
definition FrameServerConfirmsAuth :: FrameType where "FrameServerConfirmsAuth = 2"
definition FrameServerDeniesAuth :: FrameType where "FrameServerDeniesAuth = 3"
definition FrameClientToRelayDatagram :: FrameType where "FrameClientToRelayDatagram = 4"
definition FrameClientToRelayDatagramBat :: FrameType where "FrameClientToRelayDatagramBat = 5"
definition FrameRelayToClientDatagram :: FrameType where "FrameRelayToClientDatagram = 6"
definition FrameRelayToClientDatagramBat :: FrameType where "FrameRelayToClientDatagramBat = 7"
definition FrameEndpointGone :: FrameType where "FrameEndpointGone = 8"
definition FramePing :: FrameType where "FramePing = 9"
definition FramePong :: FrameType where "FramePong = 10"
definition FrameHealth :: FrameType where "FrameHealth = 11"
definition FrameRestarting :: FrameType where "FrameRestarting = 12"
definition FrameStatus :: FrameType where "FrameStatus = 13"

lemmas FrameType_defs = FrameServerChallenge_def FrameClientAuth_def FrameServerConfirmsAuth_def
  FrameServerDeniesAuth_def FrameClientToRelayDatagram_def FrameClientToRelayDatagramBat_def
  FrameRelayToClientDatagram_def FrameRelayToClientDatagramBat_def FrameEndpointGone_def
  FramePing_def FramePong_def FrameHealth_def FrameRestarting_def FrameStatus_def

definition knownFrameType :: "u32 \<Rightarrow> bool" where
  "knownFrameType t \<longleftrightarrow> t \<le> FrameStatus"

text \<open>A frame type is a 32-bit number, so writing it as a varint never panics.\<close>

definition writeFrameType :: "bytes \<Rightarrow> FrameType \<Rightarrow> bytes" where
  "writeFrameType dst f = (case relay_appendVarint dst (ucast f) of Inr b \<Rightarrow> b | Inl _ \<Rightarrow> [])"

definition frameTypeEncodedLen :: "FrameType \<Rightarrow> nat" where
  "frameTypeEncodedLen f = (case varintLen (ucast f) of Inr n \<Rightarrow> n | Inl _ \<Rightarrow> 0)"

definition readFrameType :: "bytes \<Rightarrow> relay_error + (FrameType \<times> bytes)" where
  "readFrameType buf =
     (case relay_readVarint buf of
        Inl _ \<Rightarrow> Inl ErrFrameTypeUnexpectedEnd
      | Inr (v, rest) \<Rightarrow>
          if v > 0xffffffff \<or> \<not> knownFrameType (ucast v) then Inl (ErrUnknownFrameType v)
          else Inr (ucast v, rest))"

section \<open>datagrams.go\<close>

record Datagrams =
  Ecn :: EcnCodepoint
  SegmentSize :: u16
  Contents :: bytes

definition zeroDatagrams :: Datagrams where
  "zeroDatagrams = \<lparr>Ecn = 0, SegmentSize = 0, Contents = []\<rparr>"

definition DatagramsFromBytes :: "bytes \<Rightarrow> Datagrams" where
  "DatagramsFromBytes b = zeroDatagrams\<lparr>Contents := b\<rparr>"

definition Datagrams_isBatch :: "Datagrams \<Rightarrow> bool" where
  "Datagrams_isBatch d \<longleftrightarrow> SegmentSize d \<noteq> 0"

definition Datagrams_appendTo :: "Datagrams \<Rightarrow> bytes \<Rightarrow> bytes" where
  "Datagrams_appendTo d dst =
     (let dst = dst @ [Ecn d];
          dst = (if SegmentSize d \<noteq> 0
                 then dst @ [ucast (drop_bit 8 (SegmentSize d)), ucast (SegmentSize d)] else dst)
      in dst @ Contents d)"

definition Datagrams_encodedLen :: "Datagrams \<Rightarrow> nat" where
  "Datagrams_encodedLen d =
     (let n = 1 + length (Contents d) in if SegmentSize d \<noteq> 0 then n + 2 else n)"

definition datagramsFromBytesCopy :: "bytes \<Rightarrow> bool \<Rightarrow> bool \<Rightarrow> relay_error + Datagrams" where
  "datagramsFromBytesCopy b isBatch copyContents =
     (if isBatch \<and> length b < 3 then Inl ErrInvalidFrame
      else if \<not> isBatch \<and> length b < 1 then Inl ErrInvalidFrame
      else
        let (ecn, _) = ecnFromBits (b ! 0);
            b = drop 1 b;
            (segSize, b) = (if isBatch
              then (push_bit 8 (ucast (b ! 0)) OR ucast (b ! 1), drop 2 b) else (0, b))
        in Inr \<lparr>Ecn = ecn, SegmentSize = segSize, Contents = b\<rparr>)"

definition datagramsFromBytes :: "bytes \<Rightarrow> bool \<Rightarrow> relay_error + Datagrams" where
  "datagramsFromBytes b isBatch = datagramsFromBytesCopy b isBatch True"

definition datagramsFromBytesNoCopy :: "bytes \<Rightarrow> bool \<Rightarrow> relay_error + Datagrams" where
  "datagramsFromBytesNoCopy b isBatch = datagramsFromBytesCopy b isBatch False"

definition parseDatagrams :: "bytes \<Rightarrow> bool \<Rightarrow> bool \<Rightarrow> relay_error + Datagrams" where
  "parseDatagrams b isBatch noCopy =
     (if noCopy then datagramsFromBytesNoCopy b isBatch else datagramsFromBytes b isBatch)"

section \<open>keycache.go\<close>

definition keyCacheCapacity :: nat where "keyCacheCapacity = 4096"

type_synonym keyCache = "bytes list"

text \<open>The section under the write lock: evict one key of a full cache, then add the new one.\<close>

definition keyCache_insert :: "keyCache \<Rightarrow> rand \<Rightarrow> bytes \<Rightarrow> keyCache" where
  "keyCache_insert c r arr =
     sadd arr (if length c \<ge> keyCacheCapacity
               then (case fst (range_order r c) of [] \<Rightarrow> c | k # _ \<Rightarrow> sdel k c) else c)"

definition keyCache_endpointID ::
  "ed25519 \<Rightarrow> keyCache \<Rightarrow> rand \<Rightarrow> bytes \<Rightarrow> (key_error + EndpointID) \<times> keyCache" where
  "keyCache_endpointID E c r b =
     (if length b \<noteq> PublicKeySize then (Inl ErrInvalidKeyLength, c)
      else if b \<in> set c then (Inr (UncheckedEndpointID b), c)
      else case NewEndpointID E b of
          Inl e \<Rightarrow> (Inl e, c)
        | Inr eid \<Rightarrow> (Inr eid, keyCache_insert c r b))"

section \<open>messages.go\<close>

type_synonym ProtocolVersion = int

definition ProtocolV1 :: ProtocolVersion where "ProtocolV1 = 1"
definition ProtocolV2 :: ProtocolVersion where "ProtocolV2 = 2"
definition protocolV1Wire :: string where "protocolV1Wire = ''iroh-relay-v1''"
definition protocolV2Wire :: string where "protocolV2Wire = ''iroh-relay-v2''"

definition SupportedProtocolVersions :: "string list" where
  "SupportedProtocolVersions = [protocolV2Wire, protocolV1Wire]"

definition WireString :: "ProtocolVersion \<Rightarrow> string" where
  "WireString v =
     (if v = ProtocolV1 then protocolV1Wire else if v = ProtocolV2 then protocolV2Wire else [])"

definition ParseProtocolVersion :: "string \<Rightarrow> ProtocolVersion \<times> bool" where
  "ParseProtocolVersion s =
     (if s = protocolV1Wire then (ProtocolV1, True)
      else if s = protocolV2Wire then (ProtocolV2, True) else (0, False))"

type_synonym Status = byte

definition StatusHealthy :: Status where "StatusHealthy = 0"
definition StatusSameEndpointIDConnected :: Status where "StatusSameEndpointIDConnected = 1"
definition StatusRateLimited :: Status where "StatusRateLimited = 2"

record RelayToClientMsg =
  rtc_Type :: FrameType
  RemoteEndpointID :: EndpointID
  rtc_Datagrams :: Datagrams
  EndpointGone :: EndpointID
  rtc_Status :: Status
  rtc_Ping :: bytes
  ReconnectIn :: duration
  TryFor :: duration
  Health :: bytes

definition zeroRelayToClientMsg :: RelayToClientMsg where
  "zeroRelayToClientMsg = \<lparr>rtc_Type = 0, RemoteEndpointID = replicate 32 0, rtc_Datagrams = zeroDatagrams,
     EndpointGone = replicate 32 0, rtc_Status = 0, rtc_Ping = replicate 8 0, ReconnectIn = 0, TryFor = 0,
     Health = []\<rparr>"

text \<open>
  \<open>uint32(d.Milliseconds())\<close>: integer division truncates towards zero, the conversion keeps
  the low 32 bits.
\<close>

definition millis32 :: "duration \<Rightarrow> u32" where
  "millis32 d = word_of_int (sgn d * (\<bar>d\<bar> div millisecond))"

definition RelayToClientMsg_frameType :: "RelayToClientMsg \<Rightarrow> FrameType" where
  "RelayToClientMsg_frameType m =
     (if rtc_Type m = FrameRelayToClientDatagram \<or> rtc_Type m = FrameRelayToClientDatagramBat then
        (if Datagrams_isBatch (rtc_Datagrams m) then FrameRelayToClientDatagramBat
         else FrameRelayToClientDatagram)
      else rtc_Type m)"

definition RelayToClientMsg_AppendTo :: "RelayToClientMsg \<Rightarrow> bytes \<Rightarrow> bytes" where
  "RelayToClientMsg_AppendTo m dst =
     (let dst = writeFrameType dst (RelayToClientMsg_frameType m); t = rtc_Type m in
      if t = FrameRelayToClientDatagram \<or> t = FrameRelayToClientDatagramBat then
        Datagrams_appendTo (rtc_Datagrams m) (dst @ RemoteEndpointID m)
      else if t = FrameEndpointGone then dst @ EndpointGone m
      else if t = FramePing \<or> t = FramePong then dst @ rtc_Ping m
      else if t = FrameHealth then dst @ Health m
      else if t = FrameRestarting then dst @ be32 (millis32 (ReconnectIn m)) @ be32 (millis32 (TryFor m))
      else if t = FrameStatus then dst @ [rtc_Status m]
      else dst)"

definition RelayToClientMsg_EncodedLen :: "RelayToClientMsg \<Rightarrow> nat" where
  "RelayToClientMsg_EncodedLen m =
     (let t = rtc_Type m;
          payload =
            (if t = FrameRelayToClientDatagram \<or> t = FrameRelayToClientDatagramBat then
               32 + Datagrams_encodedLen (rtc_Datagrams m)
             else if t = FrameEndpointGone then 32
             else if t = FramePing \<or> t = FramePong then 8
             else if t = FrameStatus then 1
             else if t = FrameRestarting then 8
             else if t = FrameHealth then length (Health m)
             else 0)
      in frameTypeEncodedLen (RelayToClientMsg_frameType m) + payload)"

definition parseRelayToClientMsg ::
  "ed25519 \<Rightarrow> keyCache \<Rightarrow> rand \<Rightarrow> bytes \<Rightarrow> ProtocolVersion \<Rightarrow> bool
     \<Rightarrow> (relay_error + RelayToClientMsg) \<times> keyCache" where
  "parseRelayToClientMsg E c r content version noCopy =
     (case readFrameType content of
        Inl e \<Rightarrow> (Inl e, c)
      | Inr (ft, rest) \<Rightarrow>
        if length rest > MaxPacketSize then (Inl (ErrFrameTooLarge (length rest)), c)
        else if ft = FrameRelayToClientDatagram \<or> ft = FrameRelayToClientDatagramBat then
          if length rest < PublicKeySize then (Inl ErrInvalidFrame, c)
          else (case keyCache_endpointID E c r (take PublicKeySize rest) of
              (Inl e, c) \<Rightarrow> (Inl (ErrKey e), c)
            | (Inr eid, c) \<Rightarrow>
              (case parseDatagrams (drop PublicKeySize rest) (ft = FrameRelayToClientDatagramBat) noCopy of
                 Inl e \<Rightarrow> (Inl e, c)
               | Inr dg \<Rightarrow> (Inr (zeroRelayToClientMsg\<lparr>rtc_Type := ft, RemoteEndpointID := eid,
                   rtc_Datagrams := dg\<rparr>), c)))
        else if ft = FrameEndpointGone then
          if length rest \<noteq> PublicKeySize then (Inl ErrInvalidFrame, c)
          else (case keyCache_endpointID E c r rest of
              (Inl e, c) \<Rightarrow> (Inl (ErrKey e), c)
            | (Inr eid, c) \<Rightarrow> (Inr (zeroRelayToClientMsg\<lparr>rtc_Type := ft, EndpointGone := eid\<rparr>), c))
        else if ft = FramePing \<or> ft = FramePong then
          if length rest \<noteq> 8 then (Inl ErrInvalidFrame, c)
          else (Inr (zeroRelayToClientMsg\<lparr>rtc_Type := ft, rtc_Ping := rest\<rparr>), c)
        else if ft = FrameHealth then
          if version \<noteq> ProtocolV1 then (Inl ErrFrameNotAllowedInVersion, c)
          else (Inr (zeroRelayToClientMsg\<lparr>rtc_Type := ft, Health := rest\<rparr>), c)
        else if ft = FrameRestarting then
          if length rest \<noteq> 8 then (Inl ErrInvalidFrame, c)
          else
            let reconnect = uint (of_be32 (rest ! 0) (rest ! 1) (rest ! 2) (rest ! 3)) * millisecond;
                tryFor = uint (of_be32 (rest ! 4) (rest ! 5) (rest ! 6) (rest ! 7)) * millisecond
            in (Inr (zeroRelayToClientMsg\<lparr>rtc_Type := ft, ReconnectIn := reconnect, TryFor := tryFor\<rparr>), c)
        else if ft = FrameStatus then
          if version < ProtocolV2 then (Inl ErrFrameNotAllowedInVersion, c)
          else if length rest < 1 then (Inl ErrInvalidFrame, c)
          else (Inr (zeroRelayToClientMsg\<lparr>rtc_Type := ft, rtc_Status := rest ! 0\<rparr>), c)
        else (Inl (ErrUnknownFrameType (ucast ft)), c))"

definition ParseRelayToClientMsg ::
  "ed25519 \<Rightarrow> keyCache \<Rightarrow> rand \<Rightarrow> bytes \<Rightarrow> ProtocolVersion \<Rightarrow> (relay_error + RelayToClientMsg) \<times> keyCache" where
  "ParseRelayToClientMsg E c r content version = parseRelayToClientMsg E c r content version False"

definition ParseRelayToClientMsgNoCopy ::
  "ed25519 \<Rightarrow> keyCache \<Rightarrow> rand \<Rightarrow> bytes \<Rightarrow> ProtocolVersion \<Rightarrow> (relay_error + RelayToClientMsg) \<times> keyCache" where
  "ParseRelayToClientMsgNoCopy E c r content version = parseRelayToClientMsg E c r content version True"

record ClientToRelayMsg =
  ctr_Type :: FrameType
  DstEndpointID :: EndpointID
  ctr_Datagrams :: Datagrams
  ctr_Ping :: bytes

definition zeroClientToRelayMsg :: ClientToRelayMsg where
  "zeroClientToRelayMsg = \<lparr>ctr_Type = 0, DstEndpointID = replicate 32 0, ctr_Datagrams = zeroDatagrams,
     ctr_Ping = replicate 8 0\<rparr>"

definition ClientToRelayMsg_frameType :: "ClientToRelayMsg \<Rightarrow> FrameType" where
  "ClientToRelayMsg_frameType m =
     (if ctr_Type m = FrameClientToRelayDatagram \<or> ctr_Type m = FrameClientToRelayDatagramBat then
        (if Datagrams_isBatch (ctr_Datagrams m) then FrameClientToRelayDatagramBat
         else FrameClientToRelayDatagram)
      else ctr_Type m)"

definition ClientToRelayMsg_AppendTo :: "ClientToRelayMsg \<Rightarrow> bytes \<Rightarrow> bytes" where
  "ClientToRelayMsg_AppendTo m dst =
     (let dst = writeFrameType dst (ClientToRelayMsg_frameType m); t = ctr_Type m in
      if t = FrameClientToRelayDatagram \<or> t = FrameClientToRelayDatagramBat then
        Datagrams_appendTo (ctr_Datagrams m) (dst @ DstEndpointID m)
      else if t = FramePing \<or> t = FramePong then dst @ ctr_Ping m
      else dst)"

definition ClientToRelayMsg_EncodedLen :: "ClientToRelayMsg \<Rightarrow> nat" where
  "ClientToRelayMsg_EncodedLen m =
     (let t = ctr_Type m;
          payload =
            (if t = FrameClientToRelayDatagram \<or> t = FrameClientToRelayDatagramBat then
               32 + Datagrams_encodedLen (ctr_Datagrams m)
             else if t = FramePing \<or> t = FramePong then 8
             else 0)
      in frameTypeEncodedLen (ClientToRelayMsg_frameType m) + payload)"

definition parseClientToRelayMsg ::
  "ed25519 \<Rightarrow> keyCache \<Rightarrow> rand \<Rightarrow> bytes \<Rightarrow> bool \<Rightarrow> (relay_error + ClientToRelayMsg) \<times> keyCache" where
  "parseClientToRelayMsg E c r content noCopy =
     (case readFrameType content of
        Inl e \<Rightarrow> (Inl e, c)
      | Inr (ft, rest) \<Rightarrow>
        if length rest > MaxPacketSize then (Inl (ErrFrameTooLarge (length rest)), c)
        else if ft = FrameClientToRelayDatagram \<or> ft = FrameClientToRelayDatagramBat then
          if length rest < PublicKeySize then (Inl ErrInvalidFrame, c)
          else (case keyCache_endpointID E c r (take PublicKeySize rest) of
              (Inl e, c) \<Rightarrow> (Inl (ErrKey e), c)
            | (Inr eid, c) \<Rightarrow>
              (case parseDatagrams (drop PublicKeySize rest) (ft = FrameClientToRelayDatagramBat) noCopy of
                 Inl e \<Rightarrow> (Inl e, c)
               | Inr dg \<Rightarrow> (Inr (zeroClientToRelayMsg\<lparr>ctr_Type := ft, DstEndpointID := eid,
                   ctr_Datagrams := dg\<rparr>), c)))
        else if ft = FramePing \<or> ft = FramePong then
          if length rest \<noteq> 8 then (Inl ErrInvalidFrame, c)
          else (Inr (zeroClientToRelayMsg\<lparr>ctr_Type := ft, ctr_Ping := rest\<rparr>), c)
        else (Inl (ErrUnknownFrameType (ucast ft)), c))"

definition ParseClientToRelayMsg ::
  "ed25519 \<Rightarrow> keyCache \<Rightarrow> rand \<Rightarrow> bytes \<Rightarrow> (relay_error + ClientToRelayMsg) \<times> keyCache" where
  "ParseClientToRelayMsg E c r content = parseClientToRelayMsg E c r content False"

definition ParseClientToRelayMsgNoCopy ::
  "ed25519 \<Rightarrow> keyCache \<Rightarrow> rand \<Rightarrow> bytes \<Rightarrow> (relay_error + ClientToRelayMsg) \<times> keyCache" where
  "ParseClientToRelayMsgNoCopy E c r content = parseClientToRelayMsg E c r content True"

end
