(* ===== verification/Relay_Messages.thy ===== *)
theory Relay_Messages
  imports Relay_Proto
begin

text \<open>
  What the relay frames guarantee: frame types and datagrams round-trip, the key cache is
  transparent and bounded also when the critical sections of several goroutines interleave, every
  well-formed message survives encoding and parsing, and every message a parser accepts is
  well-formed.
\<close>

definition keyCache_inv :: "ed25519 \<Rightarrow> keyCache \<Rightarrow> bool" where
  "keyCache_inv E c \<longleftrightarrow> distinct c \<and> length c \<le> keyCacheCapacity
     \<and> (\<forall>k \<in> set c. length k = PublicKeySize \<and> validPoint E k)"

text \<open>
  The cache as goroutines share it: \<open>pending\<close> holds the keys that missed under the read lock and
  were validated, but are not inserted yet.
\<close>

inductive keyCache_step :: "ed25519 \<Rightarrow> keyCache \<times> bytes list \<Rightarrow> keyCache \<times> bytes list \<Rightarrow> bool" for E where
  miss: "length b = PublicKeySize \<Longrightarrow> b \<notin> set c \<Longrightarrow> NewEndpointID E b = Inr eid \<Longrightarrow>
    keyCache_step E (c, pending) (c, b # pending)"
| insert: "keyCache_step E (c, p @ b # q) (keyCache_insert c r b, p @ q)"

definition datagrams_wf :: "Datagrams \<Rightarrow> bool" where
  "datagrams_wf d \<longleftrightarrow> Ecn d \<le> 3 \<and> PublicKeySize + Datagrams_encodedLen d \<le> MaxPacketSize"

definition wire_duration :: "duration \<Rightarrow> bool" where
  "wire_duration d \<longleftrightarrow> 0 \<le> d \<and> millisecond dvd d \<and> d < 2 ^ 32 * millisecond"

definition endpoint_wf :: "ed25519 \<Rightarrow> EndpointID \<Rightarrow> bool" where
  "endpoint_wf E eid \<longleftrightarrow> length eid = PublicKeySize \<and> validPoint E eid"

text \<open>
  A message as the constructors of the Go code make it: the fields its type selects are in range
  and every other field is zero.
\<close>

definition rtc_wf :: "ed25519 \<Rightarrow> ProtocolVersion \<Rightarrow> RelayToClientMsg \<Rightarrow> bool" where
  "rtc_wf E version m \<longleftrightarrow>
     (let t = rtc_Type m; z = zeroRelayToClientMsg\<lparr>rtc_Type := t\<rparr> in
      if t = FrameRelayToClientDatagram \<or> t = FrameRelayToClientDatagramBat then
        m = z\<lparr>RemoteEndpointID := RemoteEndpointID m, rtc_Datagrams := rtc_Datagrams m\<rparr>
        \<and> (t = FrameRelayToClientDatagramBat \<longleftrightarrow> SegmentSize (rtc_Datagrams m) \<noteq> 0)
        \<and> endpoint_wf E (RemoteEndpointID m) \<and> datagrams_wf (rtc_Datagrams m)
      else if t = FrameEndpointGone then
        m = z\<lparr>EndpointGone := EndpointGone m\<rparr> \<and> endpoint_wf E (EndpointGone m)
      else if t = FramePing \<or> t = FramePong then
        m = z\<lparr>rtc_Ping := rtc_Ping m\<rparr> \<and> length (rtc_Ping m) = 8
      else if t = FrameHealth then
        m = z\<lparr>Health := Health m\<rparr> \<and> length (Health m) \<le> MaxPacketSize \<and> version = ProtocolV1
      else if t = FrameRestarting then
        m = z\<lparr>ReconnectIn := ReconnectIn m, TryFor := TryFor m\<rparr>
        \<and> wire_duration (ReconnectIn m) \<and> wire_duration (TryFor m)
      else t = FrameStatus \<and> m = z\<lparr>rtc_Status := rtc_Status m\<rparr> \<and> version \<ge> ProtocolV2)"

definition ctr_wf :: "ed25519 \<Rightarrow> ClientToRelayMsg \<Rightarrow> bool" where
  "ctr_wf E m \<longleftrightarrow>
     (let t = ctr_Type m; z = zeroClientToRelayMsg\<lparr>ctr_Type := t\<rparr> in
      if t = FrameClientToRelayDatagram \<or> t = FrameClientToRelayDatagramBat then
        m = z\<lparr>DstEndpointID := DstEndpointID m, ctr_Datagrams := ctr_Datagrams m\<rparr>
        \<and> (t = FrameClientToRelayDatagramBat \<longleftrightarrow> SegmentSize (ctr_Datagrams m) \<noteq> 0)
        \<and> endpoint_wf E (DstEndpointID m) \<and> datagrams_wf (ctr_Datagrams m)
      else (t = FramePing \<or> t = FramePong)
        \<and> m = z\<lparr>ctr_Ping := ctr_Ping m\<rparr> \<and> length (ctr_Ping m) = 8)"

section \<open>Frame types\<close>

lemma ucast_u32_fits: "\<exists>n. varintLen (ucast (f :: u32)) = Inr n"
proof -
  have "unat (ucast f :: u64) < 2 ^ 62"
    using unsigned_less [of f, where 'a = nat] by (simp add: unsigned_ucast_eq take_bit_nat_eq_self)
  then have "qv_fits 8 (ucast f)" by (simp add: qv_fits_def)
  then show ?thesis using varintLen_least by blast
qed

lemma writeFrameType_enc:
  obtains n where "qv_fits n (ucast f)" "frameTypeEncodedLen f = n"
    "\<And>dst. writeFrameType dst f = dst @ qv_enc n (ucast f)"
proof -
  from ucast_u32_fits obtain n where "varintLen (ucast f) = Inr n" by blast
  then show thesis
    by (intro that [of n]) (simp_all add: varintLen_fits frameTypeEncodedLen_def writeFrameType_def relay_append_enc)
qed

lemma writeFrameType_dst: "writeFrameType dst f = dst @ writeFrameType [] f"
  by (rule writeFrameType_enc [of f]) simp

lemma length_writeFrameType: "length (writeFrameType dst f) = length dst + frameTypeEncodedLen f"
  by (rule writeFrameType_enc [of f]) (auto simp: qv_fits_def)

lemma ucast_u64_u32 [simp]: "ucast (ucast f :: u64) = (f :: u32)"
  by (rule bit_word_eqI) (auto simp: bit_simps)

lemma u32_le_max: "\<not> (ucast (f :: u32) :: u64) > 0xffffffff"
  using unsigned_less [of f, where 'a = nat]
  by (simp add: word_less_nat_alt unsigned_ucast_eq take_bit_nat_eq_self)

lemma readFrameType_write:
  "knownFrameType f \<Longrightarrow> readFrameType (writeFrameType [] f @ rest) = Inr (f, rest)"
  by (rule writeFrameType_enc [of f]) (use u32_le_max [of f] in \<open>simp add: readFrameType_def relay.rd_enc\<close>)

lemma readFrameType_known: "readFrameType buf = Inr (f, rest) \<Longrightarrow> knownFrameType f"
  by (auto simp: readFrameType_def split: sum.splits if_splits)

section \<open>Datagrams\<close>

lemma byte_le_3: "b \<le> 3 \<Longrightarrow> b \<in> {0, 1, 2, 3}" for b :: byte
proof -
  assume "b \<le> 3"
  then consider "unat b = 0" | "unat b = 1" | "unat b = 2" | "unat b = 3"
    by (fastforce simp: word_le_nat_alt)
  then show ?thesis by cases (simp_all add: word_unat_eq_iff)
qed

lemma and3_cases: "b AND 3 \<in> {0, 1, 2, 3}" for b :: byte
  by (rule byte_le_3) (rule word_and_le1)

lemma ecnFromBits_and: "fst (ecnFromBits b) = b AND 3"
  using and3_cases [of b] by (auto simp: ecnFromBits_def Let_def EcnEct1_def EcnEct0_def EcnCe_def)

lemma ecn_le: "fst (ecnFromBits b) \<le> 3"
  using and3_cases [of b] unfolding ecnFromBits_and by auto

lemma ecn_roundtrip: "b \<le> 3 \<Longrightarrow> fst (ecnFromBits b) = b"
  by (drule byte_le_3) (auto simp: ecnFromBits_def EcnEct1_def EcnEct0_def EcnCe_def)

lemma Datagrams_appendTo_dst: "Datagrams_appendTo d dst = dst @ Datagrams_appendTo d []"
  by (simp add: Datagrams_appendTo_def Let_def)

lemma length_Datagrams_appendTo: "length (Datagrams_appendTo d dst) = length dst + Datagrams_encodedLen d"
  by (simp add: Datagrams_appendTo_def Datagrams_encodedLen_def Let_def)

lemma parseDatagrams_eq: "parseDatagrams b batch noCopy = datagramsFromBytesCopy b batch True"
  by (simp add: parseDatagrams_def datagramsFromBytes_def datagramsFromBytesNoCopy_def datagramsFromBytesCopy_def)

lemma parseDatagrams_append:
  assumes "Ecn d \<le> 3" and "batch \<longleftrightarrow> SegmentSize d \<noteq> 0"
  shows "parseDatagrams (Datagrams_appendTo d []) batch noCopy = Inr d"
  using assms ecn_roundtrip [OF assms(1)] of_be16_be16 [of "SegmentSize d"]
  by (simp add: parseDatagrams_eq datagramsFromBytesCopy_def Datagrams_appendTo_def Let_def of_be16_def
    case_prod_beta)

lemma parseDatagrams_sound:
  assumes "parseDatagrams b batch noCopy = Inr d"
  shows "Ecn d \<le> 3" "Datagrams_encodedLen d \<le> length b" "SegmentSize d \<noteq> 0 \<Longrightarrow> batch"
  using assms
  by (auto simp: parseDatagrams_eq datagramsFromBytesCopy_def Datagrams_encodedLen_def Let_def
    case_prod_beta ecn_le split: if_splits)

section \<open>The key cache\<close>

lemma keyCache_capacity: "0 < keyCacheCapacity"
  by (simp add: keyCacheCapacity_def)

lemma keyCache_insert_inv:
  assumes "keyCache_inv E c" and "length b = PublicKeySize" and "validPoint E b"
  shows "keyCache_inv E (keyCache_insert c r b)"
proof (cases "length c \<ge> keyCacheCapacity")
  case True
  with keyCache_capacity have "fst (range_order r c) \<noteq> []" by (metis length_greater_0_conv length_range_order order_less_le_trans)
  then obtain k ks where k: "fst (range_order r c) = k # ks" by (cases "fst (range_order r c)") auto
  then have "k \<in> set c" by (metis list.set_intros(1) set_range_order)
  with assms(1) have "Suc (length (sdel k c)) = length c"
    by (metis Suc_length_remove1 distinct_remove1_removeAll keyCache_inv_def)
  moreover have "length (sadd b (sdel k c)) \<le> Suc (length (sdel k c))" by (rule length_sadd_le)
  ultimately show ?thesis
    using assms True k by (auto simp: keyCache_inv_def keyCache_insert_def)
next
  case False
  with assms length_sadd_le [of b c] show ?thesis
    by (auto simp: keyCache_inv_def keyCache_insert_def)
qed

lemma keyCache_endpointID_inv:
  assumes "keyCache_inv E c"
  shows "keyCache_inv E (snd (keyCache_endpointID E c r b))"
  using assms by (auto simp: keyCache_endpointID_def NewEndpointID_eq keyCache_insert_inv split: sum.splits if_splits)

lemma keyCache_endpointID_eq:
  assumes "keyCache_inv E c"
  shows "fst (keyCache_endpointID E c r b) = EndpointIDFromSlice E b"
  using assms
  by (auto simp: keyCache_endpointID_def keyCache_inv_def EndpointIDFromSlice_def PublicKeyFromSlice_def
    NewEndpointID_eq NewPublicKey_def UncheckedEndpointID_def)

lemma keyCache_steps_inv:
  assumes "keyCache_step E x y"
    and "keyCache_inv E (fst x)" "\<forall>b \<in> set (snd x). endpoint_wf E b"
  shows "keyCache_inv E (fst y) \<and> (\<forall>b \<in> set (snd y). endpoint_wf E b)"
  using assms
  by cases (auto simp: NewEndpointID_eq endpoint_wf_def keyCache_insert_inv split: if_splits)

section \<open>Relay-to-client messages\<close>

lemma length_RelayToClientMsg_AppendTo:
  assumes "length (RemoteEndpointID m) = 32" "length (EndpointGone m) = 32" "length (rtc_Ping m) = 8"
  shows "length (RelayToClientMsg_AppendTo m dst) = length dst + RelayToClientMsg_EncodedLen m"
  using assms
  by (simp add: RelayToClientMsg_AppendTo_def RelayToClientMsg_EncodedLen_def Let_def FrameType_defs
    length_writeFrameType length_Datagrams_appendTo)

lemma length_ClientToRelayMsg_AppendTo:
  assumes "length (DstEndpointID m) = 32" "length (ctr_Ping m) = 8"
  shows "length (ClientToRelayMsg_AppendTo m dst) = length dst + ClientToRelayMsg_EncodedLen m"
  using assms
  by (simp add: ClientToRelayMsg_AppendTo_def ClientToRelayMsg_EncodedLen_def Let_def
    length_writeFrameType length_Datagrams_appendTo)

lemma millis32_roundtrip:
  assumes "wire_duration d"
  shows "uint (millis32 d) * millisecond = d"
proof -
  from assms obtain k where k: "d = millisecond * k" by (auto simp: wire_duration_def)
  with assms have b: "0 \<le> k" "k < 2 ^ 32"
    by (auto simp: wire_duration_def millisecond_def)
  then have "sgn d * (\<bar>d\<bar> div millisecond) = k"
    using k by (auto simp: millisecond_def sgn_if)
  with b k show ?thesis by (simp add: millis32_def uint_word_of_int_eq take_bit_int_eq_self mult.commute)
qed

lemma wire_duration_parsed: "wire_duration (uint (w :: u32) * millisecond)"
  using unsigned_less [of w, where 'a = int] by (simp add: wire_duration_def millisecond_def)

lemma be32_nth: "[be32 v ! 0, be32 v ! Suc 0, be32 v ! 2, be32 v ! 3] = be32 v"
  by (simp add: be32_def)

lemma of_be32_nth: "of_be32 (be32 v ! 0) (be32 v ! Suc 0) (be32 v ! 2) (be32 v ! 3) = v"
  by (simp add: be32_def)

lemma rtc_Type_known: "rtc_wf E version m \<Longrightarrow> knownFrameType (RelayToClientMsg_frameType m)"
  by (auto simp: rtc_wf_def Let_def knownFrameType_def RelayToClientMsg_frameType_def FrameType_defs split: if_splits)

lemma rtc_wf_frameType: "rtc_wf E version m \<Longrightarrow> RelayToClientMsg_frameType m = rtc_Type m"
  by (auto simp: rtc_wf_def Let_def RelayToClientMsg_frameType_def Datagrams_isBatch_def split: if_splits)

lemma endpointID_wf:
  assumes "keyCache_inv E c" "endpoint_wf E eid"
  obtains c' where "keyCache_endpointID E c r eid = (Inr eid, c')"
proof -
  have "fst (keyCache_endpointID E c r eid) = Inr eid"
    using assms by (simp add: keyCache_endpointID_eq EndpointIDFromSlice_def PublicKeyFromSlice_def
      NewPublicKey_def endpoint_wf_def)
  with that show thesis by (cases "keyCache_endpointID E c r eid") auto
qed

lemma rtc_roundtrip:
  assumes c: "keyCache_inv E c" and m: "rtc_wf E version m"
  shows "fst (parseRelayToClientMsg E c r (RelayToClientMsg_AppendTo m []) version noCopy) = Inr m"
proof -
  let ?t = "rtc_Type m"
  note ft = rtc_wf_frameType [OF m]
  have rd: "readFrameType (writeFrameType [] ?t @ rest) = Inr (?t, rest)" for rest
    using readFrameType_write rtc_Type_known [OF m] by (simp add: ft)
  note defs = RelayToClientMsg_AppendTo_def parseRelayToClientMsg_def ft Let_def
  consider (dg) "?t = FrameRelayToClientDatagram \<or> ?t = FrameRelayToClientDatagramBat" | (gone) "?t = FrameEndpointGone"
    | (ping) "?t = FramePing \<or> ?t = FramePong" | (health) "?t = FrameHealth" | (restarting) "?t = FrameRestarting"
    | (status) "?t = FrameStatus"
    using m by (auto simp: rtc_wf_def Let_def split: if_splits)
  then show ?thesis
  proof cases
    case dg
    with m have w: "endpoint_wf E (RemoteEndpointID m)" "datagrams_wf (rtc_Datagrams m)"
      "m = zeroRelayToClientMsg\<lparr>rtc_Type := ?t, RemoteEndpointID := RemoteEndpointID m, rtc_Datagrams := rtc_Datagrams m\<rparr>"
      "(?t = FrameRelayToClientDatagramBat) = (SegmentSize (rtc_Datagrams m) \<noteq> 0)"
      by (auto simp: rtc_wf_def Let_def)
    obtain c' where "keyCache_endpointID E c r (RemoteEndpointID m) = (Inr (RemoteEndpointID m), c')"
      using endpointID_wf [OF c w(1)] .
    with dg w show ?thesis
      using rd parseDatagrams_append [of "rtc_Datagrams m" "?t = FrameRelayToClientDatagramBat" noCopy]
      by (subst (2) w(3)) (auto simp: defs Datagrams_appendTo_dst [of _ "_ @ _"] datagrams_wf_def endpoint_wf_def
        length_Datagrams_appendTo)
  next
    case gone
    with m have w: "endpoint_wf E (EndpointGone m)" "m = zeroRelayToClientMsg\<lparr>rtc_Type := ?t, EndpointGone := EndpointGone m\<rparr>"
      by (auto simp: rtc_wf_def Let_def FrameType_defs)
    obtain c' where "keyCache_endpointID E c r (EndpointGone m) = (Inr (EndpointGone m), c')"
      using endpointID_wf [OF c w(1)] .
    with gone w rd show ?thesis
      by (subst (2) w(2)) (simp add: defs FrameType_defs endpoint_wf_def MaxPacketSize_def key_sizes)
  next
    case ping
    with m have "m = zeroRelayToClientMsg\<lparr>rtc_Type := ?t, rtc_Ping := rtc_Ping m\<rparr>" "length (rtc_Ping m) = 8"
      by (auto simp: rtc_wf_def Let_def FrameType_defs)
    with ping rd show ?thesis by (auto simp: defs FrameType_defs MaxPacketSize_def)
  next
    case health
    with m have "m = zeroRelayToClientMsg\<lparr>rtc_Type := ?t, Health := Health m\<rparr>" "version = ProtocolV1"
      "length (Health m) \<le> MaxPacketSize"
      by (auto simp: rtc_wf_def Let_def FrameType_defs)
    with health rd show ?thesis by (auto simp: defs FrameType_defs)
  next
    case restarting
    with m have w: "m = zeroRelayToClientMsg\<lparr>rtc_Type := ?t, ReconnectIn := ReconnectIn m, TryFor := TryFor m\<rparr>"
      "wire_duration (ReconnectIn m)" "wire_duration (TryFor m)"
      by (auto simp: rtc_wf_def Let_def FrameType_defs)
    then show ?thesis
      using restarting rd by (subst (2) w(1)) (simp add: defs FrameType_defs MaxPacketSize_def nth_append of_be32_nth millis32_roundtrip)
  next
    case status
    with m have "m = zeroRelayToClientMsg\<lparr>rtc_Type := ?t, rtc_Status := rtc_Status m\<rparr>" "version \<ge> ProtocolV2"
      by (auto simp: rtc_wf_def Let_def FrameType_defs)
    with status rd show ?thesis by (auto simp: defs FrameType_defs MaxPacketSize_def)
  qed
qed

lemma endpointID_sound:
  assumes "keyCache_inv E c" "keyCache_endpointID E c r b = (Inr eid, c')"
  shows "eid = b" "endpoint_wf E b"
proof -
  have "EndpointIDFromSlice E b = Inr eid"
    using assms by (metis fst_conv keyCache_endpointID_eq)
  then show "eid = b" "endpoint_wf E b"
    by (auto simp: EndpointIDFromSlice_def rbind_eq_Inr PublicKeyFromSlice_Inr endpoint_wf_def key_sizes)
qed

lemma rtc_parse_frame_error:
  "readFrameType content = Inl e \<Longrightarrow> parseRelayToClientMsg E c r content version noCopy = (Inl e, c)"
  by (simp add: parseRelayToClientMsg_def)

lemma below_14:
  "n < 14 \<Longrightarrow> n = 0 \<or> n = 1 \<or> n = 2 \<or> n = 3 \<or> n = 4 \<or> n = 5 \<or> n = 6 \<or> n = 7 \<or> n = 8 \<or> n = 9
     \<or> n = 10 \<or> n = 11 \<or> n = 12 \<or> n = (13 :: nat)"
  by presburger

lemma known_cases: "knownFrameType f \<Longrightarrow> f \<in> {0, 1, 2, 3, 4, 5, 6, 7, 8, 9, 10, 11, 12, 13}"
  using below_14 [of "unat f"]
  by (simp add: knownFrameType_def FrameStatus_def word_le_nat_alt word_unat_eq_iff)

lemma rtc_parse_type:
  assumes "readFrameType content = Inr (ft, rest)"
    and "fst (parseRelayToClientMsg E c r content version noCopy) = Inr m"
  shows "ft \<in> {6, 7, 8, 9, 10, 11, 12, 13}" "length rest \<le> MaxPacketSize"
proof -
  note p = assms(2) [unfolded parseRelayToClientMsg_def assms(1) sum.case prod.case]
  show "length rest \<le> MaxPacketSize" using p by (rule contrapos_pp) simp
  have "ft \<noteq> 0" "ft \<noteq> 1" "ft \<noteq> 2" "ft \<noteq> 3" "ft \<noteq> 4" "ft \<noteq> 5"
    by (rule contrapos_pn [OF p], simp add: FrameType_defs)+
  then show "ft \<in> {6, 7, 8, 9, 10, 11, 12, 13}"
    using known_cases [OF readFrameType_known [OF assms(1)]] by simp
qed

lemma rtc_sound:
  assumes c: "keyCache_inv E c"
    and p: "fst (parseRelayToClientMsg E c r content version noCopy) = Inr m"
  shows "rtc_wf E version (m\<lparr>rtc_Type := RelayToClientMsg_frameType m\<rparr>)"
proof -
  from p obtain ft rest where ft: "readFrameType content = Inr (ft, rest)"
    by (cases "readFrameType content") (auto simp: rtc_parse_frame_error)
  note t = rtc_parse_type [OF ft p]
  note p = p [unfolded parseRelayToClientMsg_def ft sum.case prod.case FrameType_defs]
  note defs = rtc_wf_def Let_def RelayToClientMsg_frameType_def zeroRelayToClientMsg_def Datagrams_isBatch_def FrameType_defs
  consider (dg) "ft = 6 \<or> ft = 7" | (gone) "ft = 8" | (ping) "ft = 9 \<or> ft = 10" | (health) "ft = 11"
    | (restarting) "ft = 12" | (status) "ft = 13"
    using t(1) by fastforce
  then show ?thesis
  proof cases
    case dg
    obtain eid c' dg where
      k: "keyCache_endpointID E c r (take PublicKeySize rest) = (Inr eid, c')"
      and d: "parseDatagrams (drop PublicKeySize rest) (ft = 7) noCopy = Inr dg"
      and len: "PublicKeySize \<le> length rest"
      and m: "m = zeroRelayToClientMsg\<lparr>rtc_Type := ft, RemoteEndpointID := eid, rtc_Datagrams := dg\<rparr>"
      using dg p t(2) by (elim disjE) (auto split: if_splits prod.splits sum.splits)
    have "datagrams_wf dg"
      using parseDatagrams_sound(1,2) [OF d] len t(2) by (auto simp: datagrams_wf_def)
    with dg endpointID_sound [OF c k] m show ?thesis by (auto simp: defs)
  next
    case gone
    with p t(2) obtain eid c' where k: "keyCache_endpointID E c r rest = (Inr eid, c')"
      and m: "m = zeroRelayToClientMsg\<lparr>rtc_Type := 8, EndpointGone := eid\<rparr>"
      by (auto split: if_splits prod.splits sum.splits)
    from endpointID_sound [OF c k] m show ?thesis by (simp add: defs)
  next
    case ping
    with p t(2) have "m = zeroRelayToClientMsg\<lparr>rtc_Type := ft, rtc_Ping := rest\<rparr> \<and> length rest = 8"
      by (elim disjE) (simp_all split: if_splits)
    with ping show ?thesis by (auto simp: defs)
  next
    case health
    with p t(2) have "m = zeroRelayToClientMsg\<lparr>rtc_Type := 11, Health := rest\<rparr> \<and> version = ProtocolV1"
      by (simp split: if_splits)
    with t(2) show ?thesis by (simp add: defs)
  next
    case restarting
    with p t(2) have
      "m = zeroRelayToClientMsg\<lparr>rtc_Type := 12,
         ReconnectIn := uint (of_be32 (rest ! 0) (rest ! 1) (rest ! 2) (rest ! 3)) * millisecond,
         TryFor := uint (of_be32 (rest ! 4) (rest ! 5) (rest ! 6) (rest ! 7)) * millisecond\<rparr>"
      by (simp add: Let_def split: if_splits)
    then show ?thesis by (simp add: defs wire_duration_parsed)
  next
    case status
    with p t(2) have "m = zeroRelayToClientMsg\<lparr>rtc_Type := 13, rtc_Status := rest ! 0\<rparr> \<and> version \<ge> ProtocolV2"
      by (simp split: if_splits)
    then show ?thesis by (simp add: defs)
  qed
qed

lemma rtc_retag:
  "RelayToClientMsg_AppendTo (m\<lparr>rtc_Type := RelayToClientMsg_frameType m\<rparr>) dst = RelayToClientMsg_AppendTo m dst"
  by (simp add: RelayToClientMsg_AppendTo_def RelayToClientMsg_frameType_def Let_def FrameType_defs)

section \<open>Client-to-relay messages\<close>

lemma ctr_wf_frameType: "ctr_wf E m \<Longrightarrow> ClientToRelayMsg_frameType m = ctr_Type m"
  by (auto simp: ctr_wf_def Let_def ClientToRelayMsg_frameType_def Datagrams_isBatch_def split: if_splits)

lemma ctr_Type_known: "ctr_wf E m \<Longrightarrow> knownFrameType (ctr_Type m)"
  by (auto simp: ctr_wf_def Let_def knownFrameType_def FrameType_defs split: if_splits)

lemma ctr_roundtrip:
  assumes c: "keyCache_inv E c" and m: "ctr_wf E m"
  shows "fst (parseClientToRelayMsg E c r (ClientToRelayMsg_AppendTo m []) noCopy) = Inr m"
proof -
  let ?t = "ctr_Type m"
  have rd: "readFrameType (writeFrameType [] ?t @ rest) = Inr (?t, rest)" for rest
    using readFrameType_write ctr_Type_known [OF m] by simp
  note defs = ClientToRelayMsg_AppendTo_def parseClientToRelayMsg_def ctr_wf_frameType [OF m] Let_def
  show ?thesis
  proof (cases "?t = FrameClientToRelayDatagram \<or> ?t = FrameClientToRelayDatagramBat")
    case True
    with m have w: "endpoint_wf E (DstEndpointID m)" "datagrams_wf (ctr_Datagrams m)"
      "m = zeroClientToRelayMsg\<lparr>ctr_Type := ?t, DstEndpointID := DstEndpointID m, ctr_Datagrams := ctr_Datagrams m\<rparr>"
      "(?t = FrameClientToRelayDatagramBat) = (SegmentSize (ctr_Datagrams m) \<noteq> 0)"
      by (auto simp: ctr_wf_def Let_def)
    obtain c' where "keyCache_endpointID E c r (DstEndpointID m) = (Inr (DstEndpointID m), c')"
      using endpointID_wf [OF c w(1)] .
    with True w show ?thesis
      using rd parseDatagrams_append [of "ctr_Datagrams m" "?t = FrameClientToRelayDatagramBat" noCopy]
      by (subst (2) w(3)) (auto simp: defs Datagrams_appendTo_dst [of _ "_ @ _"] datagrams_wf_def endpoint_wf_def
        length_Datagrams_appendTo)
  next
    case False
    with m have "m = zeroClientToRelayMsg\<lparr>ctr_Type := ?t, ctr_Ping := ctr_Ping m\<rparr>" "length (ctr_Ping m) = 8"
      "?t = FramePing \<or> ?t = FramePong"
      by (auto simp: ctr_wf_def Let_def)
    with False rd show ?thesis by (auto simp: defs FrameType_defs MaxPacketSize_def)
  qed
qed

lemma ctr_parse_frame_error:
  "readFrameType content = Inl e \<Longrightarrow> parseClientToRelayMsg E c r content noCopy = (Inl e, c)"
  by (simp add: parseClientToRelayMsg_def)

lemma ctr_sound:
  assumes c: "keyCache_inv E c"
    and p: "fst (parseClientToRelayMsg E c r content noCopy) = Inr m"
  shows "ctr_wf E (m\<lparr>ctr_Type := ClientToRelayMsg_frameType m\<rparr>)"
proof -
  from p obtain ft rest where ft: "readFrameType content = Inr (ft, rest)"
    by (cases "readFrameType content") (auto simp: ctr_parse_frame_error)
  note p = p [unfolded parseClientToRelayMsg_def ft sum.case prod.case]
  note defs = ctr_wf_def Let_def ClientToRelayMsg_frameType_def zeroClientToRelayMsg_def Datagrams_isBatch_def
  show ?thesis
  proof (cases "ft = FrameClientToRelayDatagram \<or> ft = FrameClientToRelayDatagramBat")
    case True
    with p obtain eid c' dg where
      k: "keyCache_endpointID E c r (take PublicKeySize rest) = (Inr eid, c')"
      and d: "parseDatagrams (drop PublicKeySize rest) (ft = FrameClientToRelayDatagramBat) noCopy = Inr dg"
      and len: "PublicKeySize \<le> length rest" "length rest \<le> MaxPacketSize"
      and m: "m = zeroClientToRelayMsg\<lparr>ctr_Type := ft, DstEndpointID := eid, ctr_Datagrams := dg\<rparr>"
      by (auto split: if_splits prod.splits sum.splits)
    have "datagrams_wf dg"
      using parseDatagrams_sound(1,2) [OF d] len by (auto simp: datagrams_wf_def)
    with True endpointID_sound [OF c k] m show ?thesis
      by (auto simp: defs FrameType_defs)
  next
    case False
    with p show ?thesis by (auto simp: defs FrameType_defs split: if_splits)
  qed
qed

lemma ctr_retag:
  "ClientToRelayMsg_AppendTo (m\<lparr>ctr_Type := ClientToRelayMsg_frameType m\<rparr>) dst = ClientToRelayMsg_AppendTo m dst"
  by (simp add: ClientToRelayMsg_AppendTo_def ClientToRelayMsg_frameType_def Let_def FrameType_defs)

section \<open>The relay protocol's guarantees\<close>

definition demo_relay_msg :: RelayToClientMsg where
  "demo_relay_msg = zeroRelayToClientMsg\<lparr>rtc_Type := FrameRelayToClientDatagramBat,
     RemoteEndpointID := replicate 32 7, rtc_Datagrams := \<lparr>Ecn = 2, SegmentSize = 1200, Contents = [1, 2, 3]\<rparr>\<rparr>"

definition demo_client_msg :: ClientToRelayMsg where
  "demo_client_msg = zeroClientToRelayMsg\<lparr>ctr_Type := FrameClientToRelayDatagram,
     DstEndpointID := replicate 32 7, ctr_Datagrams := DatagramsFromBytes [9, 8]\<rparr>"

lemma toy_endpoint_wf: "endpoint_wf toy_ed25519 (replicate 32 7)"
  by (simp add: endpoint_wf_def toy_ed25519_def key_sizes replicate_eq_replicate)

lemma demo_relay_msg_wf: "rtc_wf toy_ed25519 version demo_relay_msg"
  using toy_endpoint_wf
  by (simp add: rtc_wf_def demo_relay_msg_def Let_def FrameType_defs zeroRelayToClientMsg_def datagrams_wf_def
    Datagrams_encodedLen_def MaxPacketSize_def key_sizes)

lemma demo_client_msg_wf: "ctr_wf toy_ed25519 demo_client_msg"
  using toy_endpoint_wf
  by (simp add: ctr_wf_def demo_client_msg_def Let_def FrameType_defs zeroClientToRelayMsg_def datagrams_wf_def
    DatagramsFromBytes_def zeroDatagrams_def Datagrams_encodedLen_def MaxPacketSize_def key_sizes)

lemma keyCache_inv_Nil [simp]: "keyCache_inv E []"
  by (simp add: keyCache_inv_def)

lemma keyCache_inv_if:
  "keyCache_inv E (snd x) \<Longrightarrow> keyCache_inv E (snd y) \<Longrightarrow> keyCache_inv E (snd (if b then x else y))"
  by simp

lemma keyCache_inv_leaf: "keyCache_inv E c \<Longrightarrow> keyCache_inv E (snd (z, c))"
  by simp

lemma keyCache_inv_sum:
  "(\<And>e. keyCache_inv E (snd (f e))) \<Longrightarrow> (\<And>x. keyCache_inv E (snd (g x))) \<Longrightarrow>
   keyCache_inv E (snd (case s of Inl e \<Rightarrow> f e | Inr x \<Rightarrow> g x))"
  by (cases s) simp_all

lemma keyCache_inv_lookup:
  "keyCache_inv E c \<Longrightarrow> (\<And>s c'. keyCache_inv E c' \<Longrightarrow> keyCache_inv E (snd (f s c'))) \<Longrightarrow>
   keyCache_inv E (snd (case keyCache_endpointID E c r b of (s, c') \<Rightarrow> f s c'))"
  using keyCache_endpointID_inv [of E c r b] by (cases "keyCache_endpointID E c r b") simp

lemma keyCache_inv_pair:
  "(\<And>a b. keyCache_inv E (snd (f a b))) \<Longrightarrow> keyCache_inv E (snd (case (p :: FrameType \<times> bytes) of (a, b) \<Rightarrow> f a b))"
  by (cases p) simp

lemmas keyCache_inv_intros = keyCache_inv_if keyCache_inv_leaf keyCache_inv_sum keyCache_inv_lookup keyCache_inv_pair

lemma keyCache_parse_inv:
  assumes "keyCache_inv E c"
  shows "keyCache_inv E (snd (parseRelayToClientMsg E c r content version noCopy))"
    "keyCache_inv E (snd (parseClientToRelayMsg E c r content noCopy))"
  unfolding parseRelayToClientMsg_def parseClientToRelayMsg_def Let_def
  by (intro keyCache_inv_intros assms | assumption)+

lemma rtc_wf_lengths:
  "rtc_wf E version m \<Longrightarrow> length (RemoteEndpointID m) = 32 \<and> length (EndpointGone m) = 32 \<and> length (rtc_Ping m) = 8"
  by (cases m) (simp add: rtc_wf_def Let_def zeroRelayToClientMsg_def endpoint_wf_def key_sizes FrameType_defs split: if_splits)

lemma ctr_wf_lengths: "ctr_wf E m \<Longrightarrow> length (DstEndpointID m) = 32 \<and> length (ctr_Ping m) = 8"
  by (cases m) (simp add: ctr_wf_def Let_def zeroClientToRelayMsg_def endpoint_wf_def key_sizes FrameType_defs split: if_splits)

text \<open>
  C32: a message a relay sends is written in exactly \<open>EncodedLen\<close> bytes and parsed back
  unchanged by a client that negotiated a version allowing it, whatever the key cache holds; the
  same holds of a message a client sends.
\<close>
theorem relay_messages_roundtrip:
  assumes "keyCache_inv E c" and "rtc_wf E version m" and "ctr_wf E m'"
  shows "fst (parseRelayToClientMsg E c r (RelayToClientMsg_AppendTo m []) version noCopy) = Inr m
    \<and> fst (parseClientToRelayMsg E c r (ClientToRelayMsg_AppendTo m' []) noCopy) = Inr m'
    \<and> length (RelayToClientMsg_AppendTo m dst) = length dst + RelayToClientMsg_EncodedLen m
    \<and> length (ClientToRelayMsg_AppendTo m' dst) = length dst + ClientToRelayMsg_EncodedLen m'"
  using rtc_wf_lengths [OF assms(2)] ctr_wf_lengths [OF assms(3)]
  by (simp add: assms rtc_roundtrip ctr_roundtrip length_RelayToClientMsg_AppendTo length_ClientToRelayMsg_AppendTo)

theorem relay_messages_roundtrip_witness:
  "fst (parseRelayToClientMsg toy_ed25519 [] [] (RelayToClientMsg_AppendTo demo_relay_msg []) ProtocolV2 False)
     = Inr demo_relay_msg"
  using relay_messages_roundtrip [OF keyCache_inv_Nil demo_relay_msg_wf demo_client_msg_wf] by blast

text \<open>
  C31: whatever bytes arrive, a message a parser accepts is well-formed for the negotiated version
  once its type names the batch variant its segment size implies: the endpoint id is a valid key,
  sizes and codepoints are in range, no other field is set, \<open>Health\<close> occurs in version 1 only
  and \<open>Status\<close> from version 2 on.  Forwarding the message re-encodes it to bytes that parse to
  the same well-formed message.
\<close>
theorem relay_parse_sound:
  assumes "keyCache_inv E c"
    and "fst (parseRelayToClientMsg E c r content version noCopy) = Inr m"
    and "fst (parseClientToRelayMsg E c r content' noCopy) = Inr m'"
  shows "(let n = m\<lparr>rtc_Type := RelayToClientMsg_frameType m\<rparr> in rtc_wf E version n
      \<and> fst (parseRelayToClientMsg E c r' (RelayToClientMsg_AppendTo m []) version noCopy) = Inr n)
    \<and> (let n' = m'\<lparr>ctr_Type := ClientToRelayMsg_frameType m'\<rparr> in ctr_wf E n'
      \<and> fst (parseClientToRelayMsg E c r' (ClientToRelayMsg_AppendTo m' []) noCopy) = Inr n')"
  using rtc_sound [OF assms(1,2)] ctr_sound [OF assms(1,3)]
    rtc_roundtrip [OF assms(1) rtc_sound [OF assms(1,2)]] ctr_roundtrip [OF assms(1) ctr_sound [OF assms(1,3)]]
  by (simp add: Let_def rtc_retag ctr_retag)

theorem relay_parse_sound_witness:
  "fst (parseRelayToClientMsg toy_ed25519 [] [] (RelayToClientMsg_AppendTo demo_relay_msg []) ProtocolV2 False)
     = Inr demo_relay_msg
   \<and> rtc_wf toy_ed25519 ProtocolV2 (demo_relay_msg\<lparr>rtc_Type := RelayToClientMsg_frameType demo_relay_msg\<rparr>)"
  using relay_parse_sound [OF keyCache_inv_Nil rtc_roundtrip [OF keyCache_inv_Nil demo_relay_msg_wf]
      ctr_roundtrip [OF keyCache_inv_Nil demo_client_msg_wf]]
    rtc_roundtrip [OF keyCache_inv_Nil demo_relay_msg_wf]
  unfolding Let_def by blast

text \<open>
  The key cache changes no result: looking an endpoint id up through it answers exactly what
  validating the bytes answers, and every operation, parsing a message included, keeps it within
  its capacity and holding valid keys only.  That also holds while goroutines interleave: a key
  that missed stays valid until its insertion, however the cache changed in between.
\<close>
theorem keyCache_transparent:
  assumes "keyCache_inv E c" and "(keyCache_step E)\<^sup>*\<^sup>* (c, []) (c', pending)"
  shows "fst (keyCache_endpointID E c r b) = EndpointIDFromSlice E b
    \<and> keyCache_inv E (snd (keyCache_endpointID E c r b))
    \<and> keyCache_inv E (snd (parseRelayToClientMsg E c r content version noCopy))
    \<and> keyCache_inv E (snd (parseClientToRelayMsg E c r content noCopy))
    \<and> keyCache_inv E c' \<and> list_all (endpoint_wf E) pending"
proof -
  have "keyCache_inv E (fst (c', pending)) \<and> (\<forall>k \<in> set (snd (c', pending)). endpoint_wf E k)"
    using assms(2) by (rule rtranclp_induct) (use assms(1) keyCache_steps_inv in auto)
  then show ?thesis
    by (simp add: assms keyCache_endpointID_eq keyCache_endpointID_inv keyCache_parse_inv list_all_iff)
qed

theorem keyCache_transparent_witness:
  "keyCache_inv toy_ed25519 (keyCache_insert [] [] (replicate 32 7))"
proof -
  have "(keyCache_step toy_ed25519)\<^sup>*\<^sup>* ([], []) (keyCache_insert [] [] (replicate 32 7), [])"
    using keyCache_step.miss [of "replicate 32 7" "[]" toy_ed25519 _ "[]"]
      keyCache_step.insert [of toy_ed25519 "[]" "[]" "replicate 32 7" "[]" "[]"] toy_endpoint_wf
    by (auto simp: NewEndpointID_eq endpoint_wf_def key_sizes intro: converse_rtranclp_into_rtranclp)
  from keyCache_transparent [OF keyCache_inv_Nil this] show ?thesis by blast
qed

end
