(* ===== verification/Relay_Handshake.thy ===== *)
theory Relay_Handshake
  imports Relay_Messages
begin

text \<open>
  \<open>internal/relayproto/handshake.go\<close>, the client's \<open>handshake\<close> of
  \<open>internal/relayclient/client.go\<close> and the server's \<open>authenticate\<close> of
  \<open>relayserver/server.go\<close>.  The derivation of the signed message
  (\<open>blake3.DeriveKey\<close>) is the parameter \<open>dk\<close>, the signature scheme the record
  \<open>ed25519\<close>, and a TLS connection state the function its \<open>ExportKeyingMaterial\<close> computes
  (\<open>None\<close> for an error), absent when there is no TLS.  A WebSocket connection is the list of the
  results of its reads (\<open>None\<close> for a read that fails) and the list of the frames written to it.
\<close>

type_synonym derive_key = "string \<Rightarrow> bytes \<Rightarrow> bytes"
type_synonym ConnectionState = "string \<Rightarrow> bytes \<Rightarrow> nat \<Rightarrow> bytes option"

definition domainSepChallenge :: string where
  "domainSepChallenge = ''iroh-relay handshake v1 challenge signature''"

definition domainSepTLSExportLabel :: string where
  "domainSepTLSExportLabel = ''iroh-relay handshake v1''"

datatype handshake_error =
    ErrServerDeniedAuth bytes
  | ErrSignatureInvalid
  | ErrHandshakeDeserial
  | ErrUnexpectedFrameTag FrameType
  | ErrNoKeyingMaterial
  | ErrKeyMaterialSuffix
  | ErrHandshakeFrame relay_error
  | ErrHandshake
  | ErrRead
  | ErrExpectedClientAuth

section \<open>base64.RawURLEncoding\<close>

text \<open>
  Groups of three bytes become four characters, a last group of one or two bytes two or three
  characters.  The decoder skips line breaks, refuses characters outside the alphabet and a last
  group of one character, and ignores the unused low bits of a short last group.
\<close>

definition b64_alphabet :: string where
  "b64_alphabet = ''ABCDEFGHIJKLMNOPQRSTUVWXYZabcdefghijklmnopqrstuvwxyz0123456789-_''"

fun b64_sextets :: "nat list \<Rightarrow> nat list" where
  "b64_sextets (a # b # c # bs) =
     a div 4 # ((a mod 4) * 16 + b div 16) # ((b mod 16) * 4 + c div 64) # c mod 64 # b64_sextets bs"
| "b64_sextets [a, b] = [a div 4, (a mod 4) * 16 + b div 16, (b mod 16) * 4]"
| "b64_sextets [a] = [a div 4, (a mod 4) * 16]"
| "b64_sextets [] = []"

fun b64_octets :: "nat list \<Rightarrow> nat list option" where
  "b64_octets (a # b # c # d # bs) =
     map_option (\<lambda>r. (a * 4 + b div 16) # ((b mod 16) * 16 + c div 4) # ((c mod 4) * 64 + d) # r) (b64_octets bs)"
| "b64_octets [a, b, c] = Some [a * 4 + b div 16, (b mod 16) * 16 + c div 4]"
| "b64_octets [a, b] = Some [a * 4 + b div 16]"
| "b64_octets [a] = None"
| "b64_octets [] = Some []"

fun b64_index :: "string \<Rightarrow> char \<Rightarrow> nat option" where
  "b64_index [] c = None"
| "b64_index (x # xs) c = (if c = x then Some 0 else map_option Suc (b64_index xs c))"

fun b64_lookup :: "string \<Rightarrow> nat list option" where
  "b64_lookup [] = Some []"
| "b64_lookup (c # cs) =
     (case b64_index b64_alphabet c of None \<Rightarrow> None | Some k \<Rightarrow> map_option ((#) k) (b64_lookup cs))"

definition b64_EncodeToString :: "bytes \<Rightarrow> string" where
  "b64_EncodeToString b = map (\<lambda>k. b64_alphabet ! k) (b64_sextets (map unat b))"

definition b64_DecodeString :: "string \<Rightarrow> bytes option" where
  "b64_DecodeString s =
     (case b64_lookup (filter (\<lambda>c. c \<noteq> CHR 0x0A \<and> c \<noteq> CHR 0x0D) s) of
        None \<Rightarrow> None
      | Some ks \<Rightarrow> map_option (map of_nat) (b64_octets ks))"

section \<open>Frames of the handshake\<close>

record ServerChallenge =
  Challenge :: bytes

record ClientAuth =
  ca_PublicKey :: PublicKey
  ca_Signature :: Signature

record KeyMaterialClientAuth =
  km_PublicKey :: PublicKey
  km_Signature :: Signature
  KeyMaterialSuffix :: bytes

record ServerDeniesAuth =
  Reason :: bytes

datatype HandshakeFrame =
    HServerChallenge ServerChallenge
  | HClientAuth ClientAuth
  | HServerConfirmsAuth
  | HServerDeniesAuth ServerDeniesAuth

definition messageToSign :: "derive_key \<Rightarrow> ServerChallenge \<Rightarrow> bytes" where
  "messageToSign dk c = dk domainSepChallenge (Challenge c)"

definition ServerChallenge_AppendTo :: "ServerChallenge \<Rightarrow> bytes \<Rightarrow> bytes" where
  "ServerChallenge_AppendTo c dst = writeFrameType dst FrameServerChallenge @ Challenge c"

definition NewClientAuth :: "ed25519 \<Rightarrow> derive_key \<Rightarrow> SecretKey \<Rightarrow> ServerChallenge \<Rightarrow> ClientAuth" where
  "NewClientAuth E dk secretKey challenge =
     (let msg = messageToSign dk challenge in
      \<lparr>ca_PublicKey = SecretKey_Public E secretKey, ca_Signature = SecretKey_Sign E secretKey msg\<rparr>)"

definition ClientAuth_Verify ::
  "ed25519 \<Rightarrow> derive_key \<Rightarrow> ClientAuth \<Rightarrow> ServerChallenge \<Rightarrow> handshake_error + unit" where
  "ClientAuth_Verify E dk a challenge =
     (let msg = messageToSign dk challenge in
      case PublicKey_Verify E (ca_PublicKey a) msg (ca_Signature a) of
        Inl _ \<Rightarrow> Inl ErrSignatureInvalid
      | Inr _ \<Rightarrow> Inr ())"

definition ClientAuth_AppendTo :: "ClientAuth \<Rightarrow> bytes \<Rightarrow> bytes" where
  "ClientAuth_AppendTo a dst =
     (let dst = writeFrameType dst FrameClientAuth;
          dst = dst @ ca_PublicKey a;
          dst = appendPostcardVarint dst (of_nat (length (ca_Signature a)))
      in dst @ ca_Signature a)"

definition ServerConfirmsAuth_AppendTo :: "bytes \<Rightarrow> bytes" where
  "ServerConfirmsAuth_AppendTo dst = writeFrameType dst FrameServerConfirmsAuth"

definition ServerDeniesAuth_AppendTo :: "ServerDeniesAuth \<Rightarrow> bytes \<Rightarrow> bytes" where
  "ServerDeniesAuth_AppendTo d dst =
     (let dst = writeFrameType dst FrameServerDeniesAuth;
          dst = appendPostcardVarint dst (of_nat (length (Reason d)))
      in dst @ Reason d)"

definition ParseHandshakeFrame :: "ed25519 \<Rightarrow> bytes \<Rightarrow> handshake_error + HandshakeFrame" where
  "ParseHandshakeFrame E content =
     (case readFrameType content of
        Inl e \<Rightarrow> Inl (ErrHandshakeFrame e)
      | Inr (ft, body) \<Rightarrow>
        if ft = FrameServerChallenge then
          if length body \<noteq> 16 then Inl ErrHandshakeDeserial
          else Inr (HServerChallenge \<lparr>Challenge = body\<rparr>)
        else if ft = FrameClientAuth then
          if length body < PublicKeySize then Inl ErrHandshakeDeserial
          else (case PublicKeyFromSlice E (take PublicKeySize body) of
              Inl _ \<Rightarrow> Inl ErrHandshakeDeserial
            | Inr pk \<Rightarrow>
              (case readPostcardVarint (drop PublicKeySize body) of
                 None \<Rightarrow> Inl ErrHandshakeDeserial
               | Some (n, rest) \<Rightarrow>
                 if n \<noteq> of_nat SignatureSize \<or> length rest \<noteq> SignatureSize then Inl ErrHandshakeDeserial
                 else (case SignatureFromSlice rest of
                     Inl _ \<Rightarrow> Inl ErrHandshakeDeserial
                   | Inr sig \<Rightarrow> Inr (HClientAuth \<lparr>ca_PublicKey = pk, ca_Signature = sig\<rparr>))))
        else if ft = FrameServerConfirmsAuth then Inr HServerConfirmsAuth
        else if ft = FrameServerDeniesAuth then
          (case readPostcardVarint body of
             None \<Rightarrow> Inl ErrHandshakeDeserial
           | Some (n, rest) \<Rightarrow>
             if n \<noteq> of_nat (length rest) then Inl ErrHandshakeDeserial
             else Inr (HServerDeniesAuth \<lparr>Reason = rest\<rparr>))
        else Inl (ErrUnexpectedFrameTag ft))"

section \<open>Authentication by exported keying material\<close>

definition NewKeyMaterialClientAuth ::
  "ed25519 \<Rightarrow> SecretKey \<Rightarrow> ConnectionState option \<Rightarrow> handshake_error + KeyMaterialClientAuth" where
  "NewKeyMaterialClientAuth E secretKey state =
     (case state of
        None \<Rightarrow> Inl ErrNoKeyingMaterial
      | Some st \<Rightarrow>
        let publicKey = SecretKey_Public E secretKey in
        (case st domainSepTLSExportLabel publicKey 32 of
           None \<Rightarrow> Inl ErrNoKeyingMaterial
         | Some keyMaterial \<Rightarrow>
           Inr \<lparr>km_PublicKey = publicKey, km_Signature = SecretKey_Sign E secretKey (take 16 keyMaterial),
             KeyMaterialSuffix = drop 16 keyMaterial\<rparr>))"

definition KeyMaterialClientAuth_Verify ::
  "ed25519 \<Rightarrow> KeyMaterialClientAuth \<Rightarrow> ConnectionState option \<Rightarrow> handshake_error + unit" where
  "KeyMaterialClientAuth_Verify E a state =
     (case state of
        None \<Rightarrow> Inl ErrNoKeyingMaterial
      | Some st \<Rightarrow>
        (case st domainSepTLSExportLabel (km_PublicKey a) 32 of
           None \<Rightarrow> Inl ErrNoKeyingMaterial
         | Some keyMaterial \<Rightarrow>
           if drop 16 keyMaterial \<noteq> KeyMaterialSuffix a then Inl ErrKeyMaterialSuffix
           else (case PublicKey_Verify E (km_PublicKey a) (take 16 keyMaterial) (km_Signature a) of
               Inl _ \<Rightarrow> Inl ErrSignatureInvalid
             | Inr _ \<Rightarrow> Inr ())))"

definition KeyMaterialClientAuth_EncodePostcard :: "KeyMaterialClientAuth \<Rightarrow> pc_error + bytes" where
  "KeyMaterialClientAuth_EncodePostcard a =
     rbind (enc_raw (km_PublicKey a)) (\<lambda>b1.
     rbind (enc_bytes (km_Signature a)) (\<lambda>b2.
     rbind (enc_raw (KeyMaterialSuffix a)) (\<lambda>b3. Inr (b1 @ b2 @ b3))))"

text \<open>A decoding error is \<open>Inl\<close> of a postcard error, \<open>Inr\<close> of a key error.\<close>

definition KeyMaterialClientAuth_DecodePostcard ::
  "ed25519 \<Rightarrow> bytes \<Rightarrow> (pc_error + key_error) + (KeyMaterialClientAuth \<times> bytes)" where
  "KeyMaterialClientAuth_DecodePostcard E d =
     (case dec_raw PublicKeySize d of
        Inl e \<Rightarrow> Inl (Inl e)
      | Inr (pkBytes, d) \<Rightarrow>
     (case PublicKeyFromSlice E pkBytes of
        Inl e \<Rightarrow> Inl (Inr e)
      | Inr pk \<Rightarrow>
     (case dec_bytes d of
        Inl e \<Rightarrow> Inl (Inl e)
      | Inr (sigBytes, d) \<Rightarrow>
     (case SignatureFromSlice sigBytes of
        Inl e \<Rightarrow> Inl (Inr e)
      | Inr sig \<Rightarrow>
     (case dec_raw 16 d of
        Inl e \<Rightarrow> Inl (Inl e)
      | Inr (suffix, d) \<Rightarrow>
        Inr (\<lparr>km_PublicKey = pk, km_Signature = sig, KeyMaterialSuffix = suffix\<rparr>, d))))))"

definition HeaderValue :: "KeyMaterialClientAuth \<Rightarrow> pc_error + string" where
  "HeaderValue a = rbind (marshal KeyMaterialClientAuth_EncodePostcard a) (\<lambda>b. Inr (b64_EncodeToString b))"

definition KeyMaterialClientAuthFromHeader ::
  "ed25519 \<Rightarrow> string \<Rightarrow> handshake_error + KeyMaterialClientAuth" where
  "KeyMaterialClientAuthFromHeader E value =
     (case b64_DecodeString value of
        None \<Rightarrow> Inl ErrHandshakeDeserial
      | Some b \<Rightarrow>
        (case KeyMaterialClientAuth_DecodePostcard E b of
           Inl _ \<Rightarrow> Inl ErrHandshakeDeserial
         | Inr (auth, d) \<Rightarrow> if d \<noteq> [] then Inl ErrHandshakeDeserial else Inr auth))"

section \<open>The client's side\<close>

text \<open>One call of \<open>readFrame\<close> consumes one read of the connection.\<close>

definition readFrame ::
  "ed25519 \<Rightarrow> bytes option list \<Rightarrow> (handshake_error + HandshakeFrame) \<times> bytes option list" where
  "readFrame E rs =
     (case rs of
        [] \<Rightarrow> (Inl ErrRead, [])
      | None # rs \<Rightarrow> (Inl ErrRead, rs)
      | Some data # rs \<Rightarrow> (ParseHandshakeFrame E data, rs))"

definition expectConfirmation :: "ed25519 \<Rightarrow> bytes option list \<Rightarrow> handshake_error + unit" where
  "expectConfirmation E rs =
     (case fst (readFrame E rs) of
        Inl _ \<Rightarrow> Inl ErrHandshake
      | Inr HServerConfirmsAuth \<Rightarrow> Inr ()
      | Inr (HServerDeniesAuth f) \<Rightarrow> Inl (ErrServerDeniedAuth (Reason f))
      | Inr _ \<Rightarrow> Inl ErrHandshake)"

definition handshake ::
  "ed25519 \<Rightarrow> derive_key \<Rightarrow> SecretKey \<Rightarrow> bytes option list \<Rightarrow> (handshake_error + unit) \<times> bytes list" where
  "handshake E dk sk rs =
     (let (frame, rs) = readFrame E rs in
      case frame of
        Inl _ \<Rightarrow> (Inl ErrHandshake, [])
      | Inr (HServerChallenge f) \<Rightarrow>
          let auth = NewClientAuth E dk sk f in (expectConfirmation E rs, [ClientAuth_AppendTo auth []])
      | Inr HServerConfirmsAuth \<Rightarrow> (Inr (), [])
      | Inr (HServerDeniesAuth f) \<Rightarrow> (Inl (ErrServerDeniedAuth (Reason f)), [])
      | Inr (HClientAuth _) \<Rightarrow> (Inl ErrHandshake, []))"

section \<open>The server's side\<close>

definition deny :: "string \<Rightarrow> bytes" where
  "deny reason = ServerDeniesAuth_AppendTo \<lparr>Reason = map (\<lambda>c. of_nat (of_char c)) reason\<rparr> []"

text \<open>
  \<open>authenticate\<close> with the challenge the random source yields and the result of the one read of
  the connection; the frames written come with the result.
\<close>

definition authenticate ::
  "ed25519 \<Rightarrow> derive_key \<Rightarrow> ConnectionState option \<Rightarrow> string \<Rightarrow> bytes \<Rightarrow> bytes option
     \<Rightarrow> (handshake_error + EndpointID) \<times> bytes list" where
  "authenticate E dk state clientAuthHeader rnd data =
     (let byHeader =
        (if clientAuthHeader \<noteq> [] then
           (case KeyMaterialClientAuthFromHeader E clientAuthHeader of
              Inl _ \<Rightarrow> None
            | Inr auth \<Rightarrow>
                if KeyMaterialClientAuth_Verify E auth state = Inr () then Some (km_PublicKey auth) else None)
         else None)
      in case byHeader of
        Some eid \<Rightarrow> (Inr eid, [])
      | None \<Rightarrow>
        let challenge = \<lparr>Challenge = rnd\<rparr>; sent = ServerChallenge_AppendTo challenge [] in
        (case data of
           None \<Rightarrow> (Inl ErrRead, [sent])
         | Some data \<Rightarrow>
           (case ParseHandshakeFrame E data of
              Inl e \<Rightarrow> (Inl e, [sent])
            | Inr (HClientAuth auth) \<Rightarrow>
                (case ClientAuth_Verify E dk auth challenge of
                   Inl e \<Rightarrow> (Inl e, [sent, deny ''bad auth''])
                 | Inr _ \<Rightarrow> (Inr (ca_PublicKey auth), [sent]))
            | Inr _ \<Rightarrow> (Inl ErrExpectedClientAuth, [sent, deny ''expected client auth'']))))"

definition confirmAuth :: bytes where
  "confirmAuth = ServerConfirmsAuth_AppendTo []"

section \<open>Round trips\<close>

lemma digits: "y < n \<Longrightarrow> (x * n + y) div n = x" "y < n \<Longrightarrow> (x * n + y) mod n = y" for n :: nat
  by simp_all

lemma digit_less: "x < k * n \<Longrightarrow> x div n < k" for n :: nat
  by (rule less_mult_imp_div_less)

lemma digits_less: "x < k \<Longrightarrow> y < n \<Longrightarrow> x * n + y < k * n" for n :: nat
proof -
  assume "x < k" "y < n"
  then have "x * n + y < Suc x * n" "Suc x * n \<le> k * n" by (simp, intro mult_le_mono1, simp)
  then show ?thesis by (rule order_less_le_trans)
qed

lemma b64_octets_sextets:
  "\<forall>b \<in> set bs. b < 256 \<Longrightarrow> b64_octets (b64_sextets bs) = Some bs"
proof (induction bs rule: b64_sextets.induct)
  case (1 a b c bs)
  then have "b div 16 < 16" "c div 64 < 4" by (auto intro!: digit_less)
  with 1 show ?case by (simp add: digits)
next
  case (2 a b)
  then have "b div 16 < 16" by (auto intro!: digit_less)
  then show ?case by (simp add: digits)
qed simp_all

lemma b64_sextets_less: "\<forall>b \<in> set bs. b < 256 \<Longrightarrow> k \<in> set (b64_sextets bs) \<Longrightarrow> k < 64"
proof (induction bs rule: b64_sextets.induct)
  case (1 a b c bs)
  then have "a div 4 < 64" "a mod 4 * 16 + b div 16 < 4 * 16" "b mod 16 * 4 + c div 64 < 16 * 4"
    by (auto intro!: digit_less digits_less)
  with 1 show ?case by auto
next
  case (2 a b)
  then have "a div 4 < 64" "a mod 4 * 16 + b div 16 < 4 * 16" "b mod 16 * 4 + 0 < 16 * 4"
    by (auto intro!: digit_less digits_less)
  with 2 show ?case by auto
next
  case (3 a)
  then have "a div 4 < 64" "a mod 4 * 16 + 0 < 4 * 16"
    by (auto intro!: digit_less digits_less)
  with 3 show ?case by auto
qed simp

lemma b64_alphabet_ok: "length b64_alphabet = 64" "distinct b64_alphabet"
  "CHR 0x0A \<notin> set b64_alphabet" "CHR 0x0D \<notin> set b64_alphabet"
  by code_simp+

lemma b64_index_nth: "distinct xs \<Longrightarrow> k < length xs \<Longrightarrow> b64_index xs (xs ! k) = Some k"
proof (induction xs arbitrary: k)
  case (Cons x xs)
  then show ?case by (cases k) (auto simp: nth_eq_iff_index_eq)
qed simp

lemma b64_lookup_map:
  "\<forall>k \<in> set ks. k < 64 \<Longrightarrow> b64_lookup (map (\<lambda>k. b64_alphabet ! k) ks) = Some ks"
  by (induction ks) (simp_all add: b64_index_nth b64_alphabet_ok)

lemma b64_roundtrip: "b64_DecodeString (b64_EncodeToString b) = Some b"
proof -
  let ?ks = "b64_sextets (map unat b)"
  have oct: "\<forall>x \<in> set (map unat b). x < 256"
    using unsigned_less [where 'b = 8 and 'a = nat] by auto
  then have ks: "\<forall>k \<in> set ?ks. k < 64" using b64_sextets_less by blast
  then have "\<forall>k \<in> set ?ks. b64_alphabet ! k \<in> set b64_alphabet" by (simp add: b64_alphabet_ok)
  then have "filter (\<lambda>c. c \<noteq> CHR 0x0A \<and> c \<noteq> CHR 0x0D) (b64_EncodeToString b) = b64_EncodeToString b"
    using b64_alphabet_ok(3,4) by (auto simp: b64_EncodeToString_def filter_id_conv)
  then show ?thesis
    using b64_lookup_map [OF ks] b64_octets_sextets [OF oct]
    by (simp add: b64_DecodeString_def b64_EncodeToString_def comp_def)
qed

lemma appendPostcardVarint_eq: "appendPostcardVarint dst v = appendVarint dst v"
  by (induction dst v rule: appendPostcardVarint.induct)
    (subst appendPostcardVarint.simps, subst appendVarint.simps, simp)

lemma readPostcardVarint_loop_eq:
  "readVarint_loop i v buf = Inr (w, n) \<Longrightarrow> readPostcardVarint_loop i v buf = Some (w, drop (n - i) buf) \<and> i < n"
proof (induction i v buf rule: readVarint_loop.induct)
  case (2 i v b buf)
  moreover have "\<not> (128 \<le> b \<and> b \<le> 1)" by (auto simp: word_le_nat_alt)
  ultimately show ?case
    by (auto simp: Let_def drop_Cons' not_less split: if_splits)
qed simp

lemma readPostcardVarint_append: "readPostcardVarint (appendPostcardVarint [] v @ rest) = Some (v, rest)"
  using readPostcardVarint_loop_eq [of 0 0 "appendVarint [] v @ rest" v "length (appendVarint [] v)"]
    readVarint_roundtrip [of v rest]
  by (simp add: readPostcardVarint_def readVarint_def appendPostcardVarint_eq)

lemma appendPostcardVarint_dst: "appendPostcardVarint dst v = dst @ appendPostcardVarint [] v"
  using appendVarint_dst [of dst v] by (simp add: appendPostcardVarint_eq)

lemma readFrameType_frames [simp]:
  "readFrameType (writeFrameType [] FrameServerChallenge @ rest) = Inr (FrameServerChallenge, rest)"
  "readFrameType (writeFrameType [] FrameClientAuth @ rest) = Inr (FrameClientAuth, rest)"
  "readFrameType (writeFrameType [] FrameServerConfirmsAuth @ rest) = Inr (FrameServerConfirmsAuth, rest)"
  "readFrameType (writeFrameType [] FrameServerDeniesAuth @ rest) = Inr (FrameServerDeniesAuth, rest)"
  by (simp_all add: readFrameType_write knownFrameType_def FrameType_defs)

lemma Parse_ServerChallenge:
  "length (Challenge c) = 16 \<Longrightarrow> ParseHandshakeFrame E (ServerChallenge_AppendTo c []) = Inr (HServerChallenge c)"
  by (simp add: ParseHandshakeFrame_def ServerChallenge_AppendTo_def)

lemma Parse_ClientAuth:
  assumes "length (ca_PublicKey a) = 32" "validPoint E (ca_PublicKey a)" "length (ca_Signature a) = 64"
  shows "ParseHandshakeFrame E (ClientAuth_AppendTo a []) = Inr (HClientAuth a)"
proof -
  have "ClientAuth_AppendTo a [] =
      writeFrameType [] FrameClientAuth @ ca_PublicKey a @ appendPostcardVarint [] 64 @ ca_Signature a"
    using assms by (simp add: ClientAuth_AppendTo_def Let_def appendPostcardVarint_dst [of "_ @ _"])
  with assms show ?thesis
    by (simp add: ParseHandshakeFrame_def FrameType_defs PublicKeyFromSlice_def NewPublicKey_def
      SignatureFromSlice_def readPostcardVarint_append key_sizes
      readFrameType_frames(2) [unfolded FrameType_defs])
qed

lemma Parse_ServerConfirmsAuth: "ParseHandshakeFrame E (ServerConfirmsAuth_AppendTo []) = Inr HServerConfirmsAuth"
  using readFrameType_frames(3) [of "[]"]
  by (simp add: ParseHandshakeFrame_def ServerConfirmsAuth_AppendTo_def FrameType_defs)

lemma Parse_ServerDeniesAuth:
  assumes "length (Reason d) < 2 ^ 64"
  shows "ParseHandshakeFrame E (ServerDeniesAuth_AppendTo d []) = Inr (HServerDeniesAuth d)"
  using assms readFrameType_frames(4)
  by (simp add: ParseHandshakeFrame_def ServerDeniesAuth_AppendTo_def Let_def FrameType_defs
    appendPostcardVarint_dst [of "writeFrameType [] _"] readPostcardVarint_append)

lemma NewClientAuth_ok:
  assumes "ed25519_ok E" and "SecretKeyFromSlice E seed = Inr sk"
  shows "ParseHandshakeFrame E (ClientAuth_AppendTo (NewClientAuth E dk sk ch) []) = Inr (HClientAuth (NewClientAuth E dk sk ch))"
    "ClientAuth_Verify E dk (NewClientAuth E dk sk ch) ch = Inr ()"
  using secret_key_ok [OF assms]
  by (simp_all add: NewClientAuth_def Let_def Parse_ClientAuth ClientAuth_Verify_def)

text \<open>Key-material authentication through the header.\<close>

lemma km_decode:
  assumes "length (km_PublicKey a) = 32" "validPoint E (km_PublicKey a)" "length (km_Signature a) = 64"
    "length (KeyMaterialSuffix a) = 16"
  shows "KeyMaterialClientAuth_EncodePostcard a =
      Inr (km_PublicKey a @ appendVarint [] 64 @ km_Signature a @ KeyMaterialSuffix a)"
    "KeyMaterialClientAuth_DecodePostcard E
      (km_PublicKey a @ appendVarint [] 64 @ km_Signature a @ KeyMaterialSuffix a) = Inr (a, [])"
  using assms
  by (simp_all add: KeyMaterialClientAuth_EncodePostcard_def KeyMaterialClientAuth_DecodePostcard_def enc_raw_def
    enc_bytes_def appendVarint_dst [of "_ @ _"] dec_raw_def dec_bytes_def PublicKeyFromSlice_def NewPublicKey_def
    SignatureFromSlice_def key_sizes)

lemma b64_nonempty: "b \<noteq> [] \<Longrightarrow> b64_EncodeToString b \<noteq> []"
  by (cases "map unat b" rule: b64_sextets.cases) (auto simp: b64_EncodeToString_def)

lemma km_header:
  assumes "ed25519_ok E" and "SecretKeyFromSlice E seed = Inr sk"
    and st: "st domainSepTLSExportLabel (SecretKey_Public E sk) 32 = Some km" "length km = 32"
  shows "\<exists>a h. NewKeyMaterialClientAuth E sk (Some st) = Inr a \<and> HeaderValue a = Inr h \<and> h \<noteq> []
    \<and> km_PublicKey a = SecretKey_Public E sk
    \<and> KeyMaterialClientAuthFromHeader E h = Inr a \<and> KeyMaterialClientAuth_Verify E a (Some st) = Inr ()"
proof -
  note sk = secret_key_ok [OF assms(1,2)]
  let ?a = "\<lparr>km_PublicKey = SecretKey_Public E sk, km_Signature = SecretKey_Sign E sk (take 16 km),
      KeyMaterialSuffix = drop 16 km\<rparr>"
  have new: "NewKeyMaterialClientAuth E sk (Some st) = Inr ?a"
    using st by (simp add: NewKeyMaterialClientAuth_def Let_def)
  let ?b = "SecretKey_Public E sk @ appendVarint [] 64 @ SecretKey_Sign E sk (take 16 km) @ drop 16 km"
  have enc: "KeyMaterialClientAuth_EncodePostcard ?a = Inr ?b"
    and dec: "KeyMaterialClientAuth_DecodePostcard E ?b = Inr (?a, [])"
    using km_decode [of ?a E] sk st(2) by simp_all
  have "HeaderValue ?a = Inr (b64_EncodeToString ?b)" using enc by (simp add: HeaderValue_def marshal_def)
  moreover have "KeyMaterialClientAuthFromHeader E (b64_EncodeToString ?b) = Inr ?a"
    using dec by (simp only: KeyMaterialClientAuthFromHeader_def b64_roundtrip option.case sum.case prod.case if_False not_True_eq_False simp_thms)
  moreover have "b64_EncodeToString ?b \<noteq> []" by (rule b64_nonempty) simp
  moreover have "KeyMaterialClientAuth_Verify E ?a (Some st) = Inr ()"
    using st sk by (simp add: KeyMaterialClientAuth_Verify_def)
  ultimately show ?thesis using new by auto
qed

section \<open>The handshake\<close>

text \<open>A derivation that satisfies no law but is computable, for concrete inputs.\<close>

definition toy_derive :: derive_key where
  "toy_derive label b = take 32 (b @ replicate 32 0)"

definition toy_state :: ConnectionState where
  "toy_state label ctx n = Some (replicate n 5)"

lemma toy_secret_key: "SecretKeyFromSlice toy_ed25519 (replicate 32 1) = Inr (replicate 32 1 @ replicate 32 7)"
  by (simp add: SecretKeyFromSlice_def NewSecretKey_def toy_ed25519_def key_sizes)

lemma authenticate_challenge:
  "authenticate E dk state [] rnd (Some data) =
     (let challenge = \<lparr>Challenge = rnd\<rparr>; sent = ServerChallenge_AppendTo challenge [] in
      case ParseHandshakeFrame E data of
        Inl e \<Rightarrow> (Inl e, [sent])
      | Inr (HClientAuth auth) \<Rightarrow>
          (case ClientAuth_Verify E dk auth challenge of
             Inl e \<Rightarrow> (Inl e, [sent, deny ''bad auth''])
           | Inr _ \<Rightarrow> (Inr (ca_PublicKey auth), [sent]))
      | Inr _ \<Rightarrow> (Inl ErrExpectedClientAuth, [sent, deny ''expected client auth'']))"
  by (simp add: authenticate_def Let_def)

text \<open>
  C30: the challenge handshake of an honest client and the server succeeds: fed the server's
  challenge, the client answers with one frame, for which the server authenticates the client's
  public key; fed the confirmation, the client's handshake returns without an error.  A client with
  exported keying material is authenticated by its header alone, without a round trip.
\<close>
theorem relay_handshake_completes:
  assumes "ed25519_ok E" and "SecretKeyFromSlice E seed = Inr sk" and "length rnd = 16"
    and "st domainSepTLSExportLabel (SecretKey_Public E sk) 32 = Some km" and "length km = 32"
  shows "(let ch = ServerChallenge_AppendTo \<lparr>Challenge = rnd\<rparr> [] in
      \<exists>auth. handshake E dk sk [Some ch, Some confirmAuth] = (Inr (), [auth])
        \<and> authenticate E dk state [] rnd (Some auth) = (Inr (SecretKey_Public E sk), [ch]))
    \<and> (\<exists>a h. NewKeyMaterialClientAuth E sk (Some st) = Inr a \<and> HeaderValue a = Inr h
        \<and> authenticate E dk (Some st) h rnd data = (Inr (SecretKey_Public E sk), []))"
proof -
  let ?ch = "\<lparr>Challenge = rnd\<rparr>"
  have c: "ParseHandshakeFrame E (ServerChallenge_AppendTo ?ch []) = Inr (HServerChallenge ?ch)"
    using assms(3) by (simp add: Parse_ServerChallenge)
  note new = NewClientAuth_ok [OF assms(1,2), of dk ?ch]
  have "handshake E dk sk [Some (ServerChallenge_AppendTo ?ch []), Some confirmAuth]
      = (Inr (), [ClientAuth_AppendTo (NewClientAuth E dk sk ?ch) []])"
    by (simp add: handshake_def readFrame_def expectConfirmation_def c confirmAuth_def Parse_ServerConfirmsAuth Let_def)
  moreover have "authenticate E dk state [] rnd (Some (ClientAuth_AppendTo (NewClientAuth E dk sk ?ch) []))
      = (Inr (SecretKey_Public E sk), [ServerChallenge_AppendTo ?ch []])"
    by (simp add: authenticate_challenge new) (simp add: NewClientAuth_def Let_def)
  moreover obtain a h where "NewKeyMaterialClientAuth E sk (Some st) = Inr a" "HeaderValue a = Inr h" "h \<noteq> []"
    "km_PublicKey a = SecretKey_Public E sk" "KeyMaterialClientAuthFromHeader E h = Inr a"
    "KeyMaterialClientAuth_Verify E a (Some st) = Inr ()"
    using km_header [where st = st and km = km, OF assms(1,2,4,5)] by auto
  ultimately show ?thesis by (auto simp: Let_def authenticate_def)
qed

theorem relay_handshake_completes_witness:
  "\<exists>auth. handshake toy_ed25519 toy_derive (replicate 32 1 @ replicate 32 7)
      [Some (ServerChallenge_AppendTo \<lparr>Challenge = replicate 16 3\<rparr> []), Some confirmAuth] = (Inr (), [auth])"
  using relay_handshake_completes [where rnd = "replicate 16 3" and st = toy_state and km = "replicate 32 5"
      and dk = toy_derive, OF toy_ed25519_ok toy_secret_key]
  by (fastforce simp: toy_state_def Let_def)






end
