(* ===== verification/Relay_Server.thy ===== *)
theory Relay_Server
  imports Relay_Handshake
begin

text \<open>
  \<open>relayserver/server.go\<close>: the relay server.  A \<open>*session\<close> is a handle into the table
  \<open>sessions\<close>, so that \<open>s.clients[sess.id] != sess\<close> compares handles.  The send channel is
  the list of the encoded frames it holds, \<open>queuedBytes\<close> the counter beside it, the
  one-place channel \<open>replaced\<close> an option.  Each goroutine's use of a session is one of the
  atomic operations below: \<open>enqueue\<close> is the reservation (the compare-and-swap loop) followed by
  the channel send, the writer first takes a frame and then releases its bytes; the relation
  \<open>queue_step\<close> interleaves these halves.  The step function \<open>Server_step\<close> composes the
  operations as \<open>handleRelay\<close> does, over the authenticated connections.  The token bucket of
  \<open>byteLimiter\<close> (floating point) only delays the reads and is left out.
\<close>

definition maxSentTo :: nat where "maxSentTo = 1024"
definition PerClientSendQueueDepth :: nat where "PerClientSendQueueDepth = 512"
definition defaultMaxQueuedBytes :: int where "defaultMaxQueuedBytes = 8 * 1024 * 1024"
definition defaultMaxPendingAuth :: nat where "defaultMaxPendingAuth = 256"

record session =
  ss_id :: EndpointID
  ss_version :: ProtocolVersion
  ss_send :: "bytes list"
  queuedBytes :: int
  ss_maxQueuedBytes :: int
  replaced :: "bytes option"
  replaceDone :: bool
  sentTo :: "EndpointID list"

record Server =
  clients :: "(EndpointID, nat) gomap"
  sessions :: "(nat, session) gomap"
  nextSession :: nat
  srv_maxQueuedBytes :: int
  pendingAuth :: nat
  clientsAccepted :: nat
  pings :: nat
  datagramsForwarded :: nat
  datagramsDropped :: nat

definition NewServer :: Server where
  "NewServer = \<lparr>clients = [], sessions = [], nextSession = 0, srv_maxQueuedBytes = defaultMaxQueuedBytes,
     pendingAuth = 0, clientsAccepted = 0, pings = 0, datagramsForwarded = 0, datagramsDropped = 0\<rparr>"

section \<open>Sessions\<close>

definition newSession :: "EndpointID \<Rightarrow> ProtocolVersion \<Rightarrow> int \<Rightarrow> session" where
  "newSession eid version maxQueued = \<lparr>ss_id = eid, ss_version = version, ss_send = [], queuedBytes = 0,
     ss_maxQueuedBytes = maxQueued, replaced = None, replaceDone = False, sentTo = []\<rparr>"

text \<open>The loop of \<open>enqueue\<close> up to the successful compare-and-swap; \<open>None\<close> when it gives up.\<close>

definition enqueue_reserve :: "session \<Rightarrow> int \<Rightarrow> session option" where
  "enqueue_reserve s n =
     (let queued = queuedBytes s in
      if n > ss_maxQueuedBytes s \<or> queued > ss_maxQueuedBytes s - n then None
      else Some (s\<lparr>queuedBytes := queued + n\<rparr>))"

text \<open>The non-blocking send on the channel, which undoes the reservation when the channel is full.\<close>

definition enqueue_send :: "session \<Rightarrow> bytes \<Rightarrow> session \<times> bool" where
  "enqueue_send s b =
     (if length (ss_send s) < PerClientSendQueueDepth then (s\<lparr>ss_send := ss_send s @ [b]\<rparr>, True)
      else (s\<lparr>queuedBytes := queuedBytes s - int (length b)\<rparr>, False))"

definition enqueue :: "session \<Rightarrow> RelayToClientMsg \<Rightarrow> session \<times> bool" where
  "enqueue s msg =
     (let b = RelayToClientMsg_AppendTo msg [] in
      case enqueue_reserve s (int (length b)) of
        None \<Rightarrow> (s, False)
      | Some s \<Rightarrow> enqueue_send s b)"

definition noteSentTo :: "session \<Rightarrow> EndpointID \<Rightarrow> session" where
  "noteSentTo s eid =
     (if eid \<in> set (sentTo s) then s
      else let table = (if length (sentTo s) \<ge> maxSentTo then [] else sentTo s)
           in s\<lparr>sentTo := sadd eid table\<rparr>)"

definition session_replace :: "session \<Rightarrow> RelayToClientMsg \<Rightarrow> session" where
  "session_replace s msg =
     (if replaceDone s then s
      else s\<lparr>replaceDone := True, replaced := Some (RelayToClientMsg_AppendTo msg [])\<rparr>)"

text \<open>
  One turn of \<open>writeLoop\<close>: the frame it writes and whether the loop ends after it.  A pending
  replacement goes first; \<open>writeLoop_take\<close> receives from the channel,
  \<open>writeLoop_release\<close> is the \<open>queuedBytes.Add(-n)\<close> that follows.
\<close>

definition writeLoop_take :: "session \<Rightarrow> session \<times> (bytes \<times> bool) option" where
  "writeLoop_take s =
     (case replaced s of
        Some b \<Rightarrow> (s\<lparr>replaced := None\<rparr>, Some (b, True))
      | None \<Rightarrow>
        (case ss_send s of
           [] \<Rightarrow> (s, None)
         | b # bs \<Rightarrow> (s\<lparr>ss_send := bs\<rparr>, Some (b, False))))"

definition writeLoop_release :: "session \<Rightarrow> bytes \<Rightarrow> session" where
  "writeLoop_release s b = s\<lparr>queuedBytes := queuedBytes s - int (length b)\<rparr>"

definition writeLoop_turn :: "session \<Rightarrow> session \<times> (bytes \<times> bool) option" where
  "writeLoop_turn s =
     (case writeLoop_take s of
        (s, Some (b, False)) \<Rightarrow> (writeLoop_release s b, Some (b, False))
      | (s, r) \<Rightarrow> (s, r))"

section \<open>The server\<close>

definition putSession :: "nat \<Rightarrow> session \<Rightarrow> Server \<Rightarrow> Server" where
  "putSession h sess s = s\<lparr>sessions := mput h sess (sessions s)\<rparr>"

definition register :: "Server \<Rightarrow> nat \<Rightarrow> EndpointID \<Rightarrow> Server \<times> nat option" where
  "register s h eid =
     (let old = map_of (clients s) eid in (s\<lparr>clients := mput eid h (clients s)\<rparr>, old))"

definition lookup :: "Server \<Rightarrow> EndpointID \<Rightarrow> nat option" where
  "lookup s eid = map_of (clients s) eid"

definition goneMsg :: "EndpointID \<Rightarrow> RelayToClientMsg" where
  "goneMsg eid = zeroRelayToClientMsg\<lparr>rtc_Type := FrameEndpointGone, EndpointGone := eid\<rparr>"

text \<open>The loop of \<open>unregister\<close> over the peers the session wrote to.\<close>

definition notifyGone :: "EndpointID \<Rightarrow> EndpointID \<Rightarrow> Server \<Rightarrow> Server" where
  "notifyGone eid peer s =
     (case map_of (clients s) peer of
        None \<Rightarrow> s
      | Some p \<Rightarrow>
        (case map_of (sessions s) p of
           None \<Rightarrow> s
         | Some sess \<Rightarrow> putSession p (fst (enqueue sess (goneMsg eid))) s))"

definition unregister :: "Server \<Rightarrow> nat \<Rightarrow> rand \<Rightarrow> Server" where
  "unregister s h r =
     (case map_of (sessions s) h of
        None \<Rightarrow> s
      | Some sess \<Rightarrow>
        if map_of (clients s) (ss_id sess) \<noteq> Some h then s
        else
          let s = s\<lparr>clients := mdel (ss_id sess) (clients s)\<rparr>
          in fold (notifyGone (ss_id sess)) (fst (range_order r (sentTo sess))) s)"

definition forwardMsg :: "EndpointID \<Rightarrow> Datagrams \<Rightarrow> RelayToClientMsg" where
  "forwardMsg src d = zeroRelayToClientMsg\<lparr>rtc_Type := FrameRelayToClientDatagram,
     RemoteEndpointID := src, rtc_Datagrams := d\<rparr>"

definition pongMsg :: "bytes \<Rightarrow> RelayToClientMsg" where
  "pongMsg p = zeroRelayToClientMsg\<lparr>rtc_Type := FramePong, rtc_Ping := p\<rparr>"

definition sameIdMsg :: RelayToClientMsg where
  "sameIdMsg = zeroRelayToClientMsg\<lparr>rtc_Type := FrameStatus, rtc_Status := StatusSameEndpointIDConnected\<rparr>"

definition handleClientMsg :: "Server \<Rightarrow> nat \<Rightarrow> ClientToRelayMsg \<Rightarrow> Server" where
  "handleClientMsg s h msg =
     (case map_of (sessions s) h of
        None \<Rightarrow> s
      | Some src \<Rightarrow>
        if ctr_Type msg = FrameClientToRelayDatagram \<or> ctr_Type msg = FrameClientToRelayDatagramBat then
          (case lookup s (DstEndpointID msg) of
             None \<Rightarrow> s\<lparr>datagramsDropped := datagramsDropped s + 1\<rparr>
           | Some d \<Rightarrow>
             let s = putSession h (noteSentTo src (DstEndpointID msg)) s in
             (case map_of (sessions s) d of
                None \<Rightarrow> s
              | Some dst \<Rightarrow>
                let (dst, ok) = enqueue dst (forwardMsg (ss_id src) (ctr_Datagrams msg));
                    s = putSession d dst s
                in if \<not> ok then s\<lparr>datagramsDropped := datagramsDropped s + 1\<rparr>
                   else s\<lparr>datagramsForwarded := datagramsForwarded s + 1\<rparr>))
        else if ctr_Type msg = FramePing then
          let s = s\<lparr>pings := pings s + 1\<rparr> in
          putSession h (fst (enqueue src (pongMsg (ctr_Ping msg)))) s
        else s)"

text \<open>
  The parts of \<open>handleRelay\<close>: taking a slot among the unauthenticated connections, and what
  follows a successful \<open>authenticate\<close> up to the read loop.
\<close>

definition takePendingAuth :: "Server \<Rightarrow> Server option" where
  "takePendingAuth s =
     (if pendingAuth s < defaultMaxPendingAuth then Some (s\<lparr>pendingAuth := pendingAuth s + 1\<rparr>) else None)"

definition releasePendingAuth :: "Server \<Rightarrow> Server" where
  "releasePendingAuth s = s\<lparr>pendingAuth := pendingAuth s - 1\<rparr>"

definition acceptSession :: "Server \<Rightarrow> EndpointID \<Rightarrow> ProtocolVersion \<Rightarrow> Server \<times> nat" where
  "acceptSession s eid version =
     (let s = releasePendingAuth s;
          s = s\<lparr>clientsAccepted := clientsAccepted s + 1\<rparr>;
          h = nextSession s;
          s = putSession h (newSession eid version (srv_maxQueuedBytes s)) (s\<lparr>nextSession := h + 1\<rparr>);
          (s, old) = register s h eid
      in case old of
        None \<Rightarrow> (s, h)
      | Some p \<Rightarrow>
        (case map_of (sessions s) p of
           None \<Rightarrow> (s, h)
         | Some sess \<Rightarrow> (putSession p (session_replace sess sameIdMsg) s, h)))"

section \<open>The server as a state machine\<close>

text \<open>
  What happens to the server: a connection arrives; its authentication fails or succeeds; a frame
  of a session's connection was read; the writer of a session makes one turn; a session's read
  loop ends.  The outputs are the frames written to the connections.
\<close>

datatype srv_event =
    Arrive
  | AuthFailed
  | Accepted EndpointID ProtocolVersion
  | Frame nat ed25519 keyCache rand bytes
  | Write nat
  | Leave nat rand

text \<open>An output names the session, its endpoint id and the bytes written.\<close>

datatype srv_output = Wrote nat EndpointID bytes

text \<open>The deferred calls at the end of \<open>handleRelay\<close>; nothing refers to the session afterwards.\<close>

definition closeSession :: "Server \<Rightarrow> nat \<Rightarrow> rand \<Rightarrow> Server" where
  "closeSession s h r = (let s = unregister s h r in s\<lparr>sessions := mdel h (sessions s)\<rparr>)"

fun Server_step :: "Server \<Rightarrow> srv_event \<Rightarrow> Server \<times> srv_output list" where
  "Server_step s Arrive = ((case takePendingAuth s of Some s' \<Rightarrow> s' | None \<Rightarrow> s), [])"
| "Server_step s AuthFailed = (releasePendingAuth s, [])"
| "Server_step s (Accepted eid version) = (fst (acceptSession s eid version), [])"
| "Server_step s (Frame h E c r data) =
     (case fst (ParseClientToRelayMsgNoCopy E c r data) of
        Inl _ \<Rightarrow> (closeSession s h r, [])
      | Inr msg \<Rightarrow> (handleClientMsg s h msg, []))"
| "Server_step s (Write h) =
     (case map_of (sessions s) h of
        None \<Rightarrow> (s, [])
      | Some sess \<Rightarrow>
        (let (sess', r) = writeLoop_turn sess in
         (putSession h sess' s, (case r of None \<Rightarrow> [] | Some (b, _) \<Rightarrow> [Wrote h (ss_id sess) b]))))"
| "Server_step s (Leave h r) = (closeSession s h r, [])"

text \<open>
  The halves of \<open>enqueue\<close> and of the writer's turn, interleaved: \<open>reserved\<close> are the frames
  whose bytes are reserved but not sent yet, \<open>taken\<close> those the writer received but has not
  released yet.
\<close>

inductive queue_step :: "session \<times> bytes list \<times> bytes list \<Rightarrow> session \<times> bytes list \<times> bytes list \<Rightarrow> bool" where
  reserve: "enqueue_reserve s (int (length b)) = Some s' \<Longrightarrow>
    queue_step (s, reserved, taken) (s', b # reserved, taken)"
| send: "queue_step (s, p @ b # q, taken) (fst (enqueue_send s b), p @ q, taken)"
| take: "replaced s = None \<Longrightarrow> writeLoop_take s = (s', Some (b, False)) \<Longrightarrow>
    queue_step (s, reserved, taken) (s', reserved, b # taken)"
| release: "queue_step (s, reserved, p @ b # q) (writeLoop_release s b, reserved, p @ q)"

end
