(* ===== verification/Relay_Server_Inv.thy ===== *)
theory Relay_Server_Inv
  imports Relay_Server
begin

text \<open>
  What the relay server guarantees.  The locale \<open>session_invariant\<close> lifts a property of one
  session to all sessions through every operation of the server; it is interpreted for the bounds of
  the queues and for the origin of the queued frames.
\<close>

section \<open>Sessions and handles\<close>

definition linked :: "Server \<Rightarrow> bool" where
  "linked s \<longleftrightarrow> (\<forall>eid h. map_of (clients s) eid = Some h \<longrightarrow>
     (\<exists>x. map_of (sessions s) h = Some x \<and> ss_id x = eid))
   \<and> (\<forall>h x. map_of (sessions s) h = Some x \<longrightarrow> h < nextSession s)"

definition all_sessions :: "(session \<Rightarrow> bool) \<Rightarrow> Server \<Rightarrow> bool" where
  "all_sessions P s \<longleftrightarrow> (\<forall>h x. map_of (sessions s) h = Some x \<longrightarrow> P x)"

lemma linkedD: "linked s \<Longrightarrow> map_of (clients s) eid = Some h \<Longrightarrow> \<exists>x. map_of (sessions s) h = Some x \<and> ss_id x = eid"
  by (auto simp: linked_def)

lemma all_sessionsD: "all_sessions P s \<Longrightarrow> map_of (sessions s) h = Some x \<Longrightarrow> P x"
  by (auto simp: all_sessions_def)

lemma sessions_putSession [simp]: "map_of (sessions (putSession h x s)) h' = (if h' = h then Some x else map_of (sessions s) h')"
  by (simp add: putSession_def mget_mput)

lemma putSession_fields [simp]:
  "clients (putSession h x s) = clients s" "nextSession (putSession h x s) = nextSession s"
  "srv_maxQueuedBytes (putSession h x s) = srv_maxQueuedBytes s" "pendingAuth (putSession h x s) = pendingAuth s"
  "clientsAccepted (putSession h x s) = clientsAccepted s" "pings (putSession h x s) = pings s"
  "datagramsForwarded (putSession h x s) = datagramsForwarded s"
  "datagramsDropped (putSession h x s) = datagramsDropped s"
  by (simp_all add: putSession_def)

lemma all_sessions_put: "all_sessions P s \<Longrightarrow> P x \<Longrightarrow> all_sessions P (putSession h x s)"
  by (auto simp: all_sessions_def)

lemma linked_put:
  "linked s \<Longrightarrow> map_of (sessions s) h = Some y \<Longrightarrow> ss_id x = ss_id y \<Longrightarrow> linked (putSession h x s)"
  by (fastforce simp: linked_def)

lemma ss_id_ops [simp]:
  "ss_id (fst (enqueue x m)) = ss_id x" "ss_id (noteSentTo x p) = ss_id x"
  "ss_id (session_replace x m) = ss_id x" "ss_id (fst (writeLoop_turn x)) = ss_id x"
  "ss_id (newSession eid v q) = eid"
  by (auto simp: enqueue_def enqueue_reserve_def enqueue_send_def noteSentTo_def session_replace_def
    writeLoop_turn_def writeLoop_take_def writeLoop_release_def newSession_def Let_def split: option.splits list.splits)

lemma all_sessions_fields:
  "sessions s' = sessions s \<Longrightarrow> all_sessions P s' = all_sessions P s"
  by (simp add: all_sessions_def)

lemma linked_fields:
  "sessions s' = sessions s \<Longrightarrow> clients s' = clients s \<Longrightarrow> nextSession s' = nextSession s \<Longrightarrow> linked s' = linked s"
  by (simp add: linked_def)

lemma clients_notifyGone [simp]: "clients (notifyGone e p s) = clients s"
  by (auto simp: notifyGone_def split: option.splits)

lemma clients_fold_notify [simp]: "clients (fold (notifyGone e) ps s) = clients s"
  by (induction ps arbitrary: s) simp_all

lemma unregister_unlinks: "linked s \<Longrightarrow> map_of (clients (unregister s h r)) eid \<noteq> Some h"
  by (auto simp: unregister_def Let_def mget_mdel dest!: linkedD split: option.splits)

text \<open>The state between \<open>register\<close> and the replacement of the old session.\<close>

definition registered :: "Server \<Rightarrow> EndpointID \<Rightarrow> ProtocolVersion \<Rightarrow> Server" where
  "registered s eid v = (putSession (nextSession s) (newSession eid v (srv_maxQueuedBytes s))
      (s\<lparr>pendingAuth := pendingAuth s - 1, clientsAccepted := clientsAccepted s + 1,
         nextSession := nextSession s + 1\<rparr>))\<lparr>clients := mput eid (nextSession s) (clients s)\<rparr>"

lemma registered_sessions:
  "map_of (sessions (registered s eid v)) h =
     (if h = nextSession s then Some (newSession eid v (srv_maxQueuedBytes s)) else map_of (sessions s) h)"
  by (simp add: registered_def putSession_def mget_mput)

lemma registered_clients:
  "map_of (clients (registered s eid v)) e = (if e = eid then Some (nextSession s) else map_of (clients s) e)"
  "nextSession (registered s eid v) = Suc (nextSession s)"
  by (simp_all add: registered_def mget_mput)

lemma acceptSession_registered:
  "fst (acceptSession s eid v) =
     (case map_of (clients s) eid of
        None \<Rightarrow> registered s eid v
      | Some p \<Rightarrow>
        (case map_of (sessions (registered s eid v)) p of
           None \<Rightarrow> registered s eid v
         | Some x \<Rightarrow> putSession p (session_replace x sameIdMsg) (registered s eid v)))"
  by (simp add: acceptSession_def releasePendingAuth_def register_def registered_def putSession_def Let_def
    split: option.splits)

definition is_datagram :: "ClientToRelayMsg \<Rightarrow> bool" where
  "is_datagram m \<longleftrightarrow> ctr_Type m = FrameClientToRelayDatagram \<or> ctr_Type m = FrameClientToRelayDatagramBat"

section \<open>Lifting a session's invariant to the server\<close>

locale session_invariant =
  fixes P :: "session \<Rightarrow> bool"
    and sends :: "EndpointID \<Rightarrow> RelayToClientMsg \<Rightarrow> bool"
    and writes :: "EndpointID \<Rightarrow> EndpointID \<Rightarrow> bool"
  assumes P_new: "0 \<le> q \<Longrightarrow> P (newSession eid v q)"
    and P_enqueue: "P x \<Longrightarrow> sends (ss_id x) m \<Longrightarrow> P (fst (enqueue x m))"
    and P_note: "P x \<Longrightarrow> writes (ss_id x) p \<Longrightarrow> P (noteSentTo x p)"
    and P_sentTo: "P x \<Longrightarrow> p \<in> set (sentTo x) \<Longrightarrow> writes (ss_id x) p"
    and sends_gone: "writes e p \<Longrightarrow> sends p (goneMsg e)"
    and P_replace: "P x \<Longrightarrow> P (session_replace x sameIdMsg)"
    and P_turn: "P x \<Longrightarrow> P (fst (writeLoop_turn x))"
begin

definition good :: "Server \<Rightarrow> bool" where
  "good s \<longleftrightarrow> linked s \<and> all_sessions P s \<and> 0 \<le> srv_maxQueuedBytes s"

lemma good_put:
  "good s \<Longrightarrow> map_of (sessions s) h = Some y \<Longrightarrow> ss_id x = ss_id y \<Longrightarrow> P x \<Longrightarrow> good (putSession h x s)"
  by (simp add: good_def linked_put all_sessions_put)

lemma good_fields:
  "good s \<Longrightarrow> sessions s' = sessions s \<Longrightarrow> clients s' = clients s \<Longrightarrow> nextSession s' = nextSession s
    \<Longrightarrow> srv_maxQueuedBytes s' = srv_maxQueuedBytes s \<Longrightarrow> good s'"
  using linked_fields [of s' s] all_sessions_fields [of s' s P] by (simp add: good_def)

lemma good_session: "good s \<Longrightarrow> map_of (sessions s) h = Some x \<Longrightarrow> P x"
  by (auto simp: good_def dest: all_sessionsD)

lemma good_client: "good s \<Longrightarrow> map_of (clients s) eid = Some h \<Longrightarrow> \<exists>x. map_of (sessions s) h = Some x \<and> ss_id x = eid \<and> P x"
  by (auto simp: good_def dest!: linkedD dest: all_sessionsD)

lemma good_notifyGone:
  assumes "good s" and "writes e p"
  shows "good (notifyGone e p s)"
  using assms good_client [OF assms(1), of p]
  by (auto simp: notifyGone_def sends_gone P_enqueue split: option.splits intro!: good_put)

lemma good_fold_notify: "good s \<Longrightarrow> \<forall>p \<in> set ps. writes e p \<Longrightarrow> good (fold (notifyGone e) ps s)"
  by (induction ps arbitrary: s) (simp_all add: good_notifyGone)

lemma good_delete: "good s \<Longrightarrow> good (s\<lparr>clients := mdel eid (clients s)\<rparr>)"
  by (auto simp: good_def linked_def all_sessions_def mget_mdel split: if_splits)

lemma good_unregister: "good s \<Longrightarrow> good (unregister s h r)"
  by (auto simp: unregister_def Let_def split: option.splits
    intro!: good_fold_notify good_delete intro: P_sentTo good_session)

lemma good_closeSession: "good s \<Longrightarrow> good (closeSession s h r)"
proof -
  assume g: "good s"
  then have g': "good (unregister s h r)" by (rule good_unregister)
  have "map_of (clients (unregister s h r)) eid \<noteq> Some h" for eid
    using g unregister_unlinks by (simp add: good_def)
  with g' show ?thesis
    by (auto simp: good_def linked_def all_sessions_def closeSession_def Let_def mget_mdel)
qed

lemma good_handleClientMsg:
  assumes g: "good s" and x: "map_of (sessions s) h = Some x"
    and w: "is_datagram msg \<Longrightarrow> writes (ss_id x) (DstEndpointID msg)
        \<and> sends (DstEndpointID msg) (forwardMsg (ss_id x) (ctr_Datagrams msg))"
    and p: "ctr_Type msg = FramePing \<Longrightarrow> sends (ss_id x) (pongMsg (ctr_Ping msg))"
  shows "good (handleClientMsg s h msg)"
proof (cases "is_datagram msg")
  case dg: True
  show ?thesis
  proof (cases "map_of (clients s) (DstEndpointID msg)")
    case None
    with dg x show ?thesis
      by (auto simp: handleClientMsg_def lookup_def is_datagram_def intro: good_fields [OF g])
  next
    case (Some d)
    let ?s = "putSession h (noteSentTo x (DstEndpointID msg)) s"
    have g': "good ?s" using g x dg w P_note good_session by (intro good_put [OF g x]) auto
    then obtain y where y: "map_of (sessions ?s) d = Some y" "ss_id y = DstEndpointID msg" "P y"
      using good_client [OF g', of "DstEndpointID msg" d] Some by auto
    let ?t = "putSession d (fst (enqueue y (forwardMsg (ss_id x) (ctr_Datagrams msg)))) ?s"
    have "good ?t" using w [OF dg] y P_enqueue by (intro good_put [OF g' y(1)]) auto
    with dg x Some y(1) show ?thesis
      by (auto simp: handleClientMsg_def lookup_def is_datagram_def Let_def case_prod_beta
        simp del: sessions_putSession intro: good_fields [of ?t])
  qed
next
  case False
  with x g p good_session [OF g x] show ?thesis
    by (auto simp: handleClientMsg_def is_datagram_def Let_def
      intro!: good_put [where y = x] P_enqueue intro: good_fields [OF g])
qed

lemma good_registered: "good s \<Longrightarrow> good (registered s eid v)"
proof -
  assume g: "good s"
  then have fresh: "map_of (clients s) e \<noteq> Some (nextSession s)" "map_of (sessions s) (nextSession s) = None" for e
    by (auto simp: good_def linked_def)
  have "linked (registered s eid v)"
    using g fresh by (fastforce simp: good_def linked_def registered_sessions registered_clients less_Suc_eq split: if_splits)
  moreover have "all_sessions P (registered s eid v)"
    using g P_new [of "srv_maxQueuedBytes s" eid v]
    by (auto simp: good_def all_sessions_def registered_sessions)
  ultimately show ?thesis using g by (simp add: good_def registered_def putSession_def)
qed

lemma good_acceptSession: "good s \<Longrightarrow> good (fst (acceptSession s eid v))"
  using good_registered [of s eid v] good_session [of "registered s eid v"] P_replace
  by (auto simp: acceptSession_registered split: option.splits intro!: good_put)

lemma good_step:
  assumes "good s"
    and "\<And>h E c r data x msg. e = Frame h E c r data \<Longrightarrow> map_of (sessions s) h = Some x \<Longrightarrow>
      fst (ParseClientToRelayMsgNoCopy E c r data) = Inr msg \<Longrightarrow>
      (is_datagram msg \<longrightarrow> writes (ss_id x) (DstEndpointID msg)
        \<and> sends (DstEndpointID msg) (forwardMsg (ss_id x) (ctr_Datagrams msg)))
      \<and> (ctr_Type msg = FramePing \<longrightarrow> sends (ss_id x) (pongMsg (ctr_Ping msg)))"
  shows "good (fst (Server_step s e))"
proof (cases e)
  case (Frame h E c r data)
  then show ?thesis
    using assms good_closeSession good_handleClientMsg
    by (cases "map_of (sessions s) h") (auto simp: handleClientMsg_def split: sum.splits)
next
  case (Write h)
  then show ?thesis
    using assms(1) good_session P_turn by (auto simp: Let_def case_prod_beta split: option.splits intro!: good_put)
qed (use assms(1) in \<open>auto simp: takePendingAuth_def releasePendingAuth_def good_acceptSession good_closeSession
  intro: good_fields\<close>)

end

section \<open>Bounds\<close>

definition session_ok :: "session \<Rightarrow> bool" where
  "session_ok x \<longleftrightarrow> queuedBytes x = (\<Sum>b\<leftarrow>ss_send x. int (length b)) \<and> queuedBytes x \<le> ss_maxQueuedBytes x
     \<and> length (ss_send x) \<le> PerClientSendQueueDepth \<and> distinct (sentTo x) \<and> length (sentTo x) \<le> maxSentTo"

lemma enqueue_cases:
  obtains (sent) "enqueue x m = (x\<lparr>ss_send := ss_send x @ [RelayToClientMsg_AppendTo m []],
      queuedBytes := queuedBytes x + int (length (RelayToClientMsg_AppendTo m []))\<rparr>, True)"
      "queuedBytes x + int (length (RelayToClientMsg_AppendTo m [])) \<le> ss_maxQueuedBytes x"
      "length (ss_send x) < PerClientSendQueueDepth"
    | (dropped) "enqueue x m = (x, False)"
      "queuedBytes x + int (length (RelayToClientMsg_AppendTo m [])) > ss_maxQueuedBytes x
       \<or> int (length (RelayToClientMsg_AppendTo m [])) > ss_maxQueuedBytes x
       \<or> length (ss_send x) \<ge> PerClientSendQueueDepth"
proof -
  have "x\<lparr>queuedBytes := queuedBytes x\<rparr> = x" by simp
  then show thesis
    using that by (fastforce simp: enqueue_def enqueue_reserve_def enqueue_send_def Let_def split: if_splits)
qed

interpretation bounded: session_invariant session_ok "\<lambda>_ _. True" "\<lambda>_ _. True"
proof
  show "session_ok (newSession eid v q)" if "0 \<le> q" for eid v q
    using that by (simp add: session_ok_def newSession_def)
  show "session_ok (fst (enqueue x m))" if "session_ok x" for x m
    using that by (cases rule: enqueue_cases [of x m]) (auto simp: session_ok_def)
  show "session_ok (noteSentTo x p)" if "session_ok x" for x p
    using that length_sadd_le [of p "sentTo x"]
    by (auto simp: session_ok_def noteSentTo_def Let_def length_sadd maxSentTo_def)
  show "session_ok (fst (writeLoop_turn x))" if "session_ok x" for x
    using that by (auto simp: session_ok_def writeLoop_turn_def writeLoop_take_def writeLoop_release_def
      split: option.splits list.splits)
qed (auto simp: session_ok_def session_replace_def)

definition server_inv :: "Server \<Rightarrow> bool" where
  "server_inv s \<longleftrightarrow> linked s \<and> all_sessions session_ok s \<and> 0 \<le> srv_maxQueuedBytes s
     \<and> pendingAuth s \<le> defaultMaxPendingAuth"

lemma pendingAuth_notifyGone [simp]: "pendingAuth (notifyGone e p s) = pendingAuth s"
  by (auto simp: notifyGone_def split: option.splits)

lemma pendingAuth_fold [simp]: "pendingAuth (fold (notifyGone e) ps s) = pendingAuth s"
  by (induction ps arbitrary: s) simp_all

lemma pendingAuth_step: "pendingAuth s \<le> defaultMaxPendingAuth \<Longrightarrow> pendingAuth (fst (Server_step s e)) \<le> defaultMaxPendingAuth"
  by (cases e) (auto simp: takePendingAuth_def releasePendingAuth_def closeSession_def unregister_def
    handleClientMsg_def acceptSession_registered registered_def Let_def case_prod_beta split: option.splits sum.splits)

interpretation relay_server: io_machine Server_step server_inv
proof
  show "server_inv s'" if "server_inv s" "Server_step s e = (s', out)" for s e s' out
  proof -
    have "bounded.good s" using that(1) by (simp add: server_inv_def bounded.good_def)
    then have "bounded.good (fst (Server_step s e))" by (rule bounded.good_step) simp
    with that pendingAuth_step [of s e] show ?thesis
      by (simp add: server_inv_def bounded.good_def)
  qed
qed

lemma server_inv_New: "server_inv NewServer"
  by (simp add: server_inv_def NewServer_def linked_def all_sessions_def defaultMaxQueuedBytes_def)

lemma queue_step_inv:
  assumes "queue_step x y"
    and "queuedBytes (fst x) = (\<Sum>b\<leftarrow>ss_send (fst x) @ fst (snd x) @ snd (snd x). int (length b))"
    and "queuedBytes (fst x) \<le> ss_maxQueuedBytes (fst x)" and "length (ss_send (fst x)) \<le> PerClientSendQueueDepth"
  shows "queuedBytes (fst y) = (\<Sum>b\<leftarrow>ss_send (fst y) @ fst (snd y) @ snd (snd y). int (length b))
    \<and> queuedBytes (fst y) \<le> ss_maxQueuedBytes (fst y) \<and> length (ss_send (fst y)) \<le> PerClientSendQueueDepth"
  using assms
proof cases
  case (take s s' b reserved taken)
  with assms show ?thesis by (auto simp: writeLoop_take_def split: list.splits)
qed (use assms in \<open>auto simp: enqueue_reserve_def enqueue_send_def writeLoop_release_def Let_def split: if_splits\<close>)

section \<open>Where frames come from\<close>

text \<open>
  The log of a run holds the messages the server parsed, each with the endpoint id authenticated
  for the session that sent it.
\<close>

type_synonym relay_log = "(EndpointID \<times> ClientToRelayMsg) list"

definition logged :: "Server \<Rightarrow> srv_event \<Rightarrow> relay_log" where
  "logged s e =
     (case e of
        Frame h E c r data \<Rightarrow>
          (case map_of (sessions s) h of
             None \<Rightarrow> []
           | Some x \<Rightarrow>
             (case fst (ParseClientToRelayMsgNoCopy E c r data) of Inl _ \<Rightarrow> [] | Inr m \<Rightarrow> [(ss_id x, m)]))
      | _ \<Rightarrow> [])"

definition log_step :: "Server \<times> relay_log \<Rightarrow> srv_event \<Rightarrow> (Server \<times> relay_log) \<times> srv_output list" where
  "log_step sl e = (let (s', out) = Server_step (fst sl) e in ((s', snd sl @ logged (fst sl) e), out))"

definition wrote_to :: "relay_log \<Rightarrow> EndpointID \<Rightarrow> EndpointID \<Rightarrow> bool" where
  "wrote_to log src dst \<longleftrightarrow> (\<exists>c. (src, c) \<in> set log \<and> is_datagram c \<and> DstEndpointID c = dst)"

definition explains :: "relay_log \<Rightarrow> EndpointID \<Rightarrow> RelayToClientMsg \<Rightarrow> bool" where
  "explains log eid m \<longleftrightarrow>
     (\<exists>src c. (src, c) \<in> set log \<and> is_datagram c \<and> DstEndpointID c = eid \<and> m = forwardMsg src (ctr_Datagrams c))
   \<or> (\<exists>c. (eid, c) \<in> set log \<and> ctr_Type c = FramePing \<and> m = pongMsg (ctr_Ping c))
   \<or> (\<exists>src. wrote_to log src eid \<and> m = goneMsg src)"

definition origin :: "relay_log \<Rightarrow> session \<Rightarrow> bool" where
  "origin log x \<longleftrightarrow> (\<forall>f \<in> set (ss_send x). \<exists>m. explains log (ss_id x) m \<and> f = RelayToClientMsg_AppendTo m [])
     \<and> (\<forall>p \<in> set (sentTo x). wrote_to log (ss_id x) p)
     \<and> (\<forall>b. replaced x = Some b \<longrightarrow> b = RelayToClientMsg_AppendTo sameIdMsg [])"

lemma explains_mono: "explains log eid m \<Longrightarrow> explains (log @ l) eid m"
  by (auto simp: explains_def wrote_to_def)

lemma origin_mono: "origin log x \<Longrightarrow> origin (log @ l) x"
  by (fastforce simp: origin_def wrote_to_def intro: explains_mono)

interpretation origin: session_invariant "origin log" "explains log" "wrote_to log" for log
proof
  show "origin log (newSession eid v q)" for eid v q
    by (simp add: origin_def newSession_def)
  show "origin log (fst (enqueue x m))" if "origin log x" "explains log (ss_id x) m" for x m
    using that by (cases rule: enqueue_cases [of x m]) (auto simp: origin_def)
  show "origin log (noteSentTo x p)" if "origin log x" "wrote_to log (ss_id x) p" for x p
    using that by (auto simp: origin_def noteSentTo_def Let_def)
  show "explains log p (goneMsg e)" if "wrote_to log e p" for e p
    using that by (auto simp: explains_def)
  show "origin log (fst (writeLoop_turn x))" if "origin log x" for x
    using that by (auto simp: origin_def writeLoop_turn_def writeLoop_take_def writeLoop_release_def
      split: option.splits list.splits)
qed (auto simp: origin_def session_replace_def)

definition log_inv :: "Server \<times> relay_log \<Rightarrow> bool" where
  "log_inv sl \<longleftrightarrow> linked (fst sl) \<and> all_sessions (origin (snd sl)) (fst sl) \<and> 0 \<le> srv_maxQueuedBytes (fst sl)"

lemma log_step_inv:
  assumes "log_inv sl" and "log_step sl e = (sl', out)"
  shows "log_inv sl'"
proof -
  let ?s = "fst sl" and ?log = "snd sl @ logged (fst sl) e"
  have "origin.good ?log ?s"
    using assms(1) by (auto simp: log_inv_def origin.good_def all_sessions_def intro: origin_mono)
  then have "origin.good ?log (fst (Server_step ?s e))"
  proof (rule origin.good_step)
    fix h E c r data x msg
    assume "e = Frame h E c r data" "map_of (sessions ?s) h = Some x"
      "fst (ParseClientToRelayMsgNoCopy E c r data) = Inr msg"
    then have "(ss_id x, msg) \<in> set ?log" by (simp add: logged_def)
    then show "(is_datagram msg \<longrightarrow> wrote_to ?log (ss_id x) (DstEndpointID msg)
        \<and> explains ?log (DstEndpointID msg) (forwardMsg (ss_id x) (ctr_Datagrams msg)))
      \<and> (ctr_Type msg = FramePing \<longrightarrow> explains ?log (ss_id x) (pongMsg (ctr_Ping msg)))"
      by (auto simp: wrote_to_def explains_def)
  qed
  with assms(2) show ?thesis
    by (auto simp: log_step_def log_inv_def origin.good_def case_prod_beta)
qed

lemma log_step_output:
  assumes "log_inv sl" and "log_step sl e = (sl', out)" and "Wrote h eid b \<in> set out"
  shows "b = RelayToClientMsg_AppendTo sameIdMsg [] \<or> (\<exists>m. explains (snd sl) eid m \<and> b = RelayToClientMsg_AppendTo m [])"
proof -
  from assms(2,3) obtain x where x: "map_of (sessions (fst sl)) h = Some x" "eid = ss_id x"
    "\<exists>d. snd (writeLoop_turn x) = Some (b, d)"
    by (cases e) (auto simp: log_step_def case_prod_beta split: option.splits sum.splits)
  then have "origin (snd sl) x" using assms(1) by (auto simp: log_inv_def dest: all_sessionsD)
  with x show ?thesis
    by (auto simp: origin_def writeLoop_turn_def writeLoop_take_def split: option.splits list.splits)
qed

interpretation relay_log: io_machine log_step log_inv
  by unfold_locales (rule log_step_inv)

lemma run_log_grows: "\<exists>l. snd (fst (run_machine log_step sl es)) = snd sl @ l"
proof (induction es arbitrary: sl)
  case (Cons e es)
  obtain s out where "Server_step (fst sl) e = (s, out)" by fastforce
  with Cons [of "(s, snd sl @ logged (fst sl) e)"] show ?case
    by (auto simp: log_step_def case_prod_beta)
qed simp

lemma run_log_output:
  assumes "log_inv sl" and "run_machine log_step sl es = (sl', out)" and "Wrote h eid b \<in> set out"
  shows "b = RelayToClientMsg_AppendTo sameIdMsg [] \<or> (\<exists>m. explains (snd sl') eid m \<and> b = RelayToClientMsg_AppendTo m [])"
  using assms
proof (induction es arbitrary: sl out)
  case (Cons e es)
  obtain sl1 out1 where st: "log_step sl e = (sl1, out1)" by fastforce
  obtain out2 where rn: "run_machine log_step sl1 es = (sl', out2)" and out: "out = out1 @ out2"
    using Cons.prems(2) st by (auto split: prod.splits)
  have inv: "log_inv sl1" using log_step_inv [OF Cons.prems(1) st] .
  have mono: "\<exists>l. snd sl' = snd sl @ l"
    using run_log_grows [of sl "e # es"] Cons.prems(2) by simp
  show ?case
    using Cons.IH [OF inv rn] log_step_output [OF Cons.prems(1) st] Cons.prems(3) out mono explains_mono by fastforce
qed simp

section \<open>Forwarding and departures\<close>


lemma sentTo_only [simp]: "ss_send (noteSentTo x p) = ss_send x" "queuedBytes (noteSentTo x p) = queuedBytes x"
  "ss_maxQueuedBytes (noteSentTo x p) = ss_maxQueuedBytes x"
  by (simp_all add: noteSentTo_def Let_def)




section \<open>The relay server's guarantees\<close>

definition demo_id :: "byte \<Rightarrow> EndpointID" where
  "demo_id b = replicate 32 b"

definition demo_server :: Server where
  "demo_server = fst (run_machine Server_step NewServer
     [Arrive, Accepted (demo_id 7) ProtocolV2, Arrive, Accepted (demo_id 8) ProtocolV1])"




text \<open>
  C33: the accounting of a send queue is right under every interleaving of concurrent senders and
  the writer: between the halves of an enqueue or of a write, the counter equals the bytes in the
  queue, reserved for it and taken from it, and never exceeds the limit; so the frames buffered for
  one client never exceed \<open>maxQueuedBytes\<close> bytes.
\<close>
theorem relay_queue_accounting:
  assumes "queue_step\<^sup>*\<^sup>* (newSession eid v q, [], []) (s, reserved, taken)" and "0 \<le> q"
  shows "queuedBytes s = (\<Sum>b\<leftarrow>ss_send s @ reserved @ taken. int (length b))
    \<and> (\<Sum>b\<leftarrow>ss_send s. int (length b)) \<le> ss_maxQueuedBytes s \<and> length (ss_send s) \<le> PerClientSendQueueDepth"
proof -
  let ?I = "\<lambda>y. queuedBytes (fst y) = (\<Sum>b\<leftarrow>ss_send (fst y) @ fst (snd y) @ snd (snd y). int (length b))
    \<and> queuedBytes (fst y) \<le> ss_maxQueuedBytes (fst y) \<and> length (ss_send (fst y)) \<le> PerClientSendQueueDepth"
  have I: "?I (s, reserved, taken)"
    using assms(1)
  proof (rule rtranclp_induct)
    show "?I (newSession eid v q, [], [])" using assms(2) by (simp add: newSession_def)
  qed (rule queue_step_inv, auto)
  have nn: "0 \<le> (\<Sum>b\<leftarrow>bs. int (length b))" for bs :: "bytes list" by (induction bs) auto
  show ?thesis using I nn [of reserved] nn [of taken] by simp
qed

theorem relay_queue_accounting_witness:
  "let s = (newSession (demo_id 7) ProtocolV2 100)\<lparr>queuedBytes := 2\<rparr>; t = fst (enqueue_send s [1, 2]) in
   queuedBytes t = (\<Sum>b\<leftarrow>ss_send t. int (length b)) \<and> ss_send t = [[1, 2]]"
proof -
  let ?n = "newSession (demo_id 7) ProtocolV2 100"
  let ?s = "?n\<lparr>queuedBytes := 2\<rparr>"
  have "queue_step (?n, [], []) (?s, [[1, 2]], [])"
    by (rule queue_step.reserve) (simp add: enqueue_reserve_def newSession_def)
  moreover have "queue_step (?s, [[1, 2]], []) (fst (enqueue_send ?s [1, 2]), [], [])"
    using queue_step.send [of ?s "[]" "[1, 2]" "[]" "[]"] by simp
  ultimately have "queue_step\<^sup>*\<^sup>* (?n, [], []) (fst (enqueue_send ?s [1, 2]), [], [])" by simp
  from relay_queue_accounting [OF this] show ?thesis
    by (simp add: enqueue_send_def newSession_def PerClientSendQueueDepth_def)
qed


lemma demo_server_inv: "server_inv demo_server"
  unfolding demo_server_def by (rule relay_server.run_inv [OF server_inv_New])

lemma demo_server_sessions:
  "map_of (sessions demo_server) 0 = Some (newSession (demo_id 7) ProtocolV2 defaultMaxQueuedBytes)"
  "map_of (sessions demo_server) 1 = Some (newSession (demo_id 8) ProtocolV1 defaultMaxQueuedBytes)"
  "map_of (clients demo_server) (demo_id 7) = Some 0" "map_of (clients demo_server) (demo_id 8) = Some 1"
  by code_simp+




text \<open>
  C6: no client is ever sent a frame that other clients did not cause: in every run, each frame
  written to the session of an endpoint is the forwarded form of a datagram that an authenticated
  session addressed to this endpoint, the pong for a ping of this endpoint, the departure notice of
  a peer that had written to this endpoint, or the notice that the endpoint connected again.
\<close>
theorem relay_server_origin:
  assumes "run_machine log_step (NewServer, []) es = ((s, log), out)" and "Wrote h eid b \<in> set out"
  shows "b = RelayToClientMsg_AppendTo sameIdMsg [] \<or> (\<exists>m. explains log eid m \<and> b = RelayToClientMsg_AppendTo m [])"
proof -
  have "log_inv (NewServer, [])"
    by (simp add: log_inv_def NewServer_def linked_def all_sessions_def defaultMaxQueuedBytes_def)
  from run_log_output [OF this assms] show ?thesis by simp
qed

theorem relay_server_origin_witness:
  "let es = [Accepted (demo_id 7) ProtocolV2, Accepted (demo_id 7) ProtocolV2, Write 0];
     out = snd (run_machine log_step (NewServer, []) es) in
   \<exists>b. out = [Wrote 0 (demo_id 7) b] \<and> (b = RelayToClientMsg_AppendTo sameIdMsg []
     \<or> (\<exists>log m. explains log (demo_id 7) m \<and> b = RelayToClientMsg_AppendTo m []))"
proof -
  let ?es = "[Accepted (demo_id 7) ProtocolV2, Accepted (demo_id 7) ProtocolV2, Write 0]"
  obtain s log out where r: "run_machine log_step (NewServer, []) ?es = ((s, log), out)"
    by (metis surj_pair)
  have "snd (run_machine log_step (NewServer, []) ?es) = [Wrote 0 (demo_id 7) (RelayToClientMsg_AppendTo sameIdMsg [])]"
    by code_simp
  with r have o: "out = [Wrote 0 (demo_id 7) (RelayToClientMsg_AppendTo sameIdMsg [])]" by simp
  then have "Wrote 0 (demo_id 7) (RelayToClientMsg_AppendTo sameIdMsg []) \<in> set out" by simp
  from relay_server_origin [OF r this] r o show ?thesis by (auto simp: Let_def)
qed

lemma sameIdMsg_parse:
  "fst (parseRelayToClientMsg E c r (RelayToClientMsg_AppendTo sameIdMsg []) ProtocolV1 noCopy) = Inl ErrFrameNotAllowedInVersion"
proof -
  have "RelayToClientMsg_AppendTo sameIdMsg [] = writeFrameType [] FrameStatus @ [StatusSameEndpointIDConnected]"
    by (simp add: sameIdMsg_def RelayToClientMsg_AppendTo_def RelayToClientMsg_frameType_def FrameType_defs Let_def)
  moreover have "readFrameType (writeFrameType [] FrameStatus @ rest) = Inr (FrameStatus, rest)" for rest
    by (rule readFrameType_write) (simp add: knownFrameType_def)
  ultimately show ?thesis
    by (simp add: parseRelayToClientMsg_def MaxPacketSize_def FrameType_defs ProtocolV1_def ProtocolV2_def)
qed

text \<open>
  C40: when an endpoint connects again, the session it replaces is handed a \<open>Status\<close> frame to
  write, whatever protocol version that session negotiated.  A client of version 2 parses it; the
  parser of a client of version 1 refuses the frame as not allowed in its version, so such a client
  sees a protocol error in place of the reason.
\<close>
theorem relay_replacement_notice:
  assumes "server_inv s" and "map_of (clients s) eid = Some p" and "map_of (sessions s) p = Some x"
    and "\<not> replaceDone x" and "keyCache_inv E c"
  shows "map_option replaced (map_of (sessions (fst (acceptSession s eid v))) p)
      = Some (Some (RelayToClientMsg_AppendTo sameIdMsg []))
    \<and> fst (parseRelayToClientMsg E c r (RelayToClientMsg_AppendTo sameIdMsg []) ProtocolV2 noCopy) = Inr sameIdMsg
    \<and> fst (parseRelayToClientMsg E c r (RelayToClientMsg_AppendTo sameIdMsg []) ProtocolV1 noCopy)
      = Inl ErrFrameNotAllowedInVersion"
proof -
  have "p \<noteq> nextSession s" using assms(1,3) by (auto simp: server_inv_def linked_def)
  then have "map_option replaced (map_of (sessions (fst (acceptSession s eid v))) p)
      = Some (Some (RelayToClientMsg_AppendTo sameIdMsg []))"
    using assms(2-4) by (simp add: acceptSession_registered registered_sessions session_replace_def)
  moreover have "rtc_wf E ProtocolV2 sameIdMsg"
    by (simp add: rtc_wf_def sameIdMsg_def zeroRelayToClientMsg_def FrameType_defs Let_def)
  ultimately show ?thesis using rtc_roundtrip [OF assms(5)] sameIdMsg_parse by simp
qed

theorem relay_replacement_notice_witness:
  "map_option replaced (map_of (sessions (fst (acceptSession demo_server (demo_id 8) ProtocolV2))) 1)
     = Some (Some (RelayToClientMsg_AppendTo sameIdMsg []))"
  using relay_replacement_notice [OF demo_server_inv demo_server_sessions(4,2) _ keyCache_inv_Nil [of toy_ed25519]]
  by (simp add: newSession_def)

end
