(* ===== verification/Frame_Sorter.thy ===== *)
theory Frame_Sorter
  imports Go_Prelude
begin

text \<open>
  Reassembly of a QUIC byte stream: \<open>internal/qng/frame_sorter.go\<close>, with the doubly linked list
  of \<open>internal/qng/internal/utils/linkedlist\<close> that holds its gaps.  STREAM and CRYPTO frames
  arrive in any order, duplicated and overlapping; \<open>Push\<close> stores the bytes that are new and
  \<open>Pop\<close> returns them in order.

  A linked list is the list of its elements, each with the address that identifies it; an
  element pointer is an address.  The queue is a Go map.  A buffer handed back to its pool
  (\<open>frame.PutBack()\<close>) is recorded in \<open>returned\<close>.  Byte counts are \<open>int64\<close> in the
  code and \<open>int\<close> here: offsets end below \<open>MaxByteCount = 2^62 - 1\<close>, so no sum overflows.
  A panic is the \<open>Inl\<close> of the result, a returned error a value beside the state.
\<close>

section \<open>Linked lists\<close>

type_synonym 'a linked = "(nat \<times> 'a) list"

text \<open>An address that is not in the list: what the pool's \<open>Get\<close> returns.\<close>

definition fresh_addr :: "'a linked \<Rightarrow> nat" where
  "fresh_addr l = foldr (\<lambda>e n. max (Suc (fst e)) n) l 0"

definition list_Front :: "'a linked \<Rightarrow> (nat \<times> 'a) option" where
  "list_Front l = (case l of [] \<Rightarrow> None | e # _ \<Rightarrow> Some e)"

fun list_from :: "nat \<Rightarrow> 'a linked \<Rightarrow> 'a linked" where
  "list_from e [] = []"
| "list_from e ((a, v) # l) = (if a = e then (a, v) # l else list_from e l)"

definition elem_Next :: "nat \<Rightarrow> 'a linked \<Rightarrow> (nat \<times> 'a) option" where
  "elem_Next e l = (case list_from e l of _ # x # _ \<Rightarrow> Some x | _ \<Rightarrow> None)"

definition elem_Prev :: "nat \<Rightarrow> 'a linked \<Rightarrow> (nat \<times> 'a) option" where
  "elem_Prev e l = elem_Next e (rev l)"

definition list_Remove :: "nat \<Rightarrow> 'a linked \<Rightarrow> 'a linked" where
  "list_Remove e l = filter (\<lambda>x. fst x \<noteq> e) l"

definition list_PushFront :: "'a \<Rightarrow> 'a linked \<Rightarrow> 'a linked" where
  "list_PushFront v l = (fresh_addr l, v) # l"

definition list_InsertAfter :: "'a \<Rightarrow> nat \<Rightarrow> 'a linked \<Rightarrow> 'a linked" where
  "list_InsertAfter v mark l =
     concat (map (\<lambda>x. if fst x = mark then [x, (fresh_addr l, v)] else [x]) l)"

text \<open>Assignment through an element pointer: \<open>e.Value = f(e.Value)\<close>.\<close>

definition elem_set :: "nat \<Rightarrow> ('a \<Rightarrow> 'a) \<Rightarrow> 'a linked \<Rightarrow> 'a linked" where
  "elem_set e f l = map (\<lambda>x. if fst x = e then (fst x, f (snd x)) else x) l"

section \<open>The sorter\<close>

record byteInterval =
  Start :: int
  End :: int

record frameSorterEntry =
  Data :: bytes
  Frame :: "nat option"

record frameSorter =
  queue :: "(int, frameSorterEntry) gomap"
  readPos :: int
  gaps :: "byteInterval linked"
  returned :: "nat list"

datatype fs_error = errDuplicateStreamData | errTooManyGaps

datatype fs_panic = NilDereference | SliceBounds | NoGapFound | ReadPositionBug

definition MaxByteCount :: int where "MaxByteCount = 4611686018427387903"
definition MinStreamFrameBufferSize :: nat where "MinStreamFrameBufferSize = 128"
definition MaxStreamFrameSorterGaps :: nat where "MaxStreamFrameSorterGaps = 1000"

definition newFrameSorter :: frameSorter where
  "newFrameSorter =
     \<lparr>queue = [], readPos = 0, gaps = list_PushFront \<lparr>Start = 0, End = MaxByteCount\<rparr> [], returned = []\<rparr>"

definition blen :: "frameSorterEntry \<Rightarrow> int" where
  "blen e = int (length (Data e))"

text \<open>The buffer of a frame goes back to its pool when there is one.\<close>

definition putBack :: "nat option \<Rightarrow> nat list \<Rightarrow> nat list" where
  "putBack f r = (case f of None \<Rightarrow> r | Some x \<Rightarrow> r @ [x])"

text \<open>Go slicing, which panics outside of the slice.\<close>

definition slice_from :: "int \<Rightarrow> bytes \<Rightarrow> fs_panic + bytes" where
  "slice_from i d = (if 0 \<le> i \<and> i \<le> int (length d) then Inr (drop (nat i) d) else Inl SliceBounds)"

definition slice_to :: "int \<Rightarrow> bytes \<Rightarrow> fs_panic + bytes" where
  "slice_to i d = (if 0 \<le> i \<and> i \<le> int (length d) then Inr (take (nat i) d) else Inl SliceBounds)"

fun findStartGap :: "int \<Rightarrow> byteInterval linked \<Rightarrow> fs_panic + ((nat \<times> byteInterval) \<times> bool)" where
  "findStartGap offset [] = Inl NoGapFound"
| "findStartGap offset (gap # l) =
     (if Start (snd gap) \<le> offset \<and> offset \<le> End (snd gap) then Inr (gap, True)
      else if offset < Start (snd gap) then Inr (gap, False)
      else findStartGap offset l)"

fun findEndGap_loop ::
  "byteInterval linked \<Rightarrow> int \<Rightarrow> byteInterval linked \<Rightarrow> fs_panic + ((nat \<times> byteInterval) option \<times> bool)"
where
  "findEndGap_loop gs offset [] = Inl NoGapFound"
| "findEndGap_loop gs offset (gap # l) =
     (if Start (snd gap) \<le> offset \<and> offset < End (snd gap) then Inr (Some gap, True)
      else if offset < Start (snd gap) then Inr (elem_Prev (fst gap) gs, False)
      else findEndGap_loop gs offset l)"

definition findEndGap ::
  "nat \<Rightarrow> int \<Rightarrow> byteInterval linked \<Rightarrow> fs_panic + ((nat \<times> byteInterval) option \<times> bool)" where
  "findEndGap startGap offset gs = findEndGap_loop gs offset (list_from startGap gs)"

text \<open>The queue and the returned buffers are threaded through the deleting loops together.\<close>

type_synonym fs_store = "(int, frameSorterEntry) gomap \<times> nat list"

lemma length_mdel: "map_of q k = Some v \<Longrightarrow> length (mdel k q) < length q"
  by (induction q) (auto simp: AList.delete_eq less_Suc_eq_le split: if_splits)

function deleteConsecutive :: "int \<Rightarrow> fs_store \<Rightarrow> fs_store" where
  "deleteConsecutive pos (q, r) =
     (case map_of q pos of
        None \<Rightarrow> (q, r)
      | Some oldEntry \<Rightarrow>
          deleteConsecutive (pos + blen oldEntry) (mdel pos q, putBack (Frame oldEntry) r))"
  by pat_completeness auto
termination
  by (relation "measure (\<lambda>(pos, q, r). length q)") (auto simp: length_mdel)

text \<open>
  The loop of \<open>push\<close> over the queued frames that start where the new one does: \<open>None\<close> when the
  new frame is a duplicate, otherwise the position reached, \<open>hasReplacedAtLeastOne\<close> and whether
  the new frame is cut there.
\<close>

function replaceOld :: "int \<Rightarrow> int \<Rightarrow> bool \<Rightarrow> fs_store \<Rightarrow> (int \<times> bool \<times> bool \<times> fs_store) option" where
  "replaceOld endp pos replaced (q, r) =
     (case map_of q pos of
        None \<Rightarrow> Some (pos, replaced, False, (q, r))
      | Some oldEntry \<Rightarrow>
          let oldEntryLen = blen oldEntry in
          if endp - pos > oldEntryLen \<or> (replaced \<and> endp - pos = oldEntryLen)
          then replaceOld endp (pos + oldEntryLen) True (mdel pos q, putBack (Frame oldEntry) r)
          else if \<not> replaced then None
          else Some (pos, replaced, True, (q, r)))"
  by pat_completeness auto
termination
  by (relation "measure (\<lambda>(endp, pos, replaced, q, r). length q)") (auto simp: length_mdel)

declare deleteConsecutive.simps [simp del] replaceOld.simps [simp del]

text \<open>
  The stages of \<open>push\<close>, in the order of the code: the start of the frame is cut or the gap it
  starts in is shortened (\<open>adjustStartGap\<close>), the frames and gaps between the first and the last
  gap are dropped (\<open>dropCovered\<close>), the end of the frame is cut and the last gap is shortened
  (\<open>adjustEndGap\<close>), and the frame is stored (\<open>storeFrame\<close>).
\<close>

definition adjustStartGap ::
  "int \<Rightarrow> int \<Rightarrow> bool \<Rightarrow> nat \<times> byteInterval \<Rightarrow> byteInterval linked \<Rightarrow> byteInterval linked \<times> bool" where
  "adjustStartGap start endp replaced sg gs =
     (if start \<le> Start (snd sg) then
        (if endp \<ge> End (snd sg) then list_Remove (fst sg) gs
         else elem_set (fst sg) (\<lambda>g. g\<lparr>Start := endp\<rparr>) gs, False)
      else if \<not> replaced then (elem_set (fst sg) (\<lambda>g. g\<lparr>End := start\<rparr>) gs, True)
      else (gs, False))"

fun dropGaps ::
  "int \<Rightarrow> byteInterval linked \<Rightarrow> fs_store \<Rightarrow> byteInterval linked \<Rightarrow> fs_panic + (fs_store \<times> byteInterval linked)"
where
  "dropGaps endGapStart [] st gs = Inl NilDereference"
| "dropGaps endGapStart (gap # l) st gs =
     (if End (snd gap) < endGapStart
      then dropGaps endGapStart l (deleteConsecutive (End (snd gap)) st) (list_Remove (fst gap) gs)
      else Inr (st, gs))"

definition dropCovered ::
  "bool \<Rightarrow> int \<Rightarrow> int \<Rightarrow> byteInterval linked \<Rightarrow> fs_store \<Rightarrow> byteInterval linked
   \<Rightarrow> fs_panic + (fs_store \<times> byteInterval linked)" where
  "dropCovered startGapEqualsEndGap startGapEnd endGapStart next st gs =
     (if \<not> startGapEqualsEndGap
      then dropGaps endGapStart next (deleteConsecutive startGapEnd st) gs
      else Inr (st, gs))"

definition adjustEndGap ::
  "int \<Rightarrow> bool \<Rightarrow> bool \<Rightarrow> nat \<Rightarrow> int \<Rightarrow> nat \<Rightarrow> int \<Rightarrow> byteInterval linked \<Rightarrow> byteInterval linked" where
  "adjustEndGap endp startGapEqualsEndGap adjusted sg startGapEnd eg endGapEnd gs =
     (if endp = endGapEnd then
        (if \<not> startGapEqualsEndGap then list_Remove eg gs else gs)
      else if startGapEqualsEndGap \<and> adjusted then
        list_InsertAfter \<lparr>Start = endp, End = startGapEnd\<rparr> sg gs
      else if \<not> startGapEqualsEndGap then elem_set eg (\<lambda>g. g\<lparr>Start := endp\<rparr>) gs
      else gs)"

definition storeFrame ::
  "int \<Rightarrow> bytes \<Rightarrow> nat option \<Rightarrow> bool \<Rightarrow> fs_store \<Rightarrow> byteInterval linked \<Rightarrow> frameSorter
   \<Rightarrow> fs_error option \<times> frameSorter" where
  "storeFrame start data frame wasCut st gs s =
     (let copied = wasCut \<and> length data < MinStreamFrameBufferSize;
          r = (if copied then putBack frame (snd st) else snd st);
          frame = (if copied then None else frame)
      in if length gs > MaxStreamFrameSorterGaps
         then (Some errTooManyGaps, s\<lparr>queue := fst st, gaps := gs, returned := r\<rparr>)
         else (None, s\<lparr>queue := mput start \<lparr>Data = data, Frame = frame\<rparr> (fst st), gaps := gs, returned := r\<rparr>))"

definition push_fast :: "bytes \<Rightarrow> int \<Rightarrow> int \<Rightarrow> nat option \<Rightarrow> frameSorter \<Rightarrow> frameSorter option" where
  "push_fast data start endp frame s =
     (if start = readPos s \<and> map_of (queue s) start = None then
        (case list_Front (gaps s) of
           Some gap \<Rightarrow>
             if Start (snd gap) = start \<and> endp \<le> End (snd gap)
             then Some (s\<lparr>gaps := (if endp = End (snd gap) then list_Remove (fst gap) (gaps s)
                                   else elem_set (fst gap) (\<lambda>g. g\<lparr>Start := endp\<rparr>) (gaps s)),
                          queue := mput start \<lparr>Data = data, Frame = frame\<rparr> (queue s)\<rparr>)
             else None
         | None \<Rightarrow> None)
      else None)"

definition push_overlap ::
  "bytes \<Rightarrow> int \<Rightarrow> int \<Rightarrow> nat option \<Rightarrow> nat \<times> byteInterval \<Rightarrow> bool \<Rightarrow> nat \<times> byteInterval \<Rightarrow> bool \<Rightarrow> frameSorter
   \<Rightarrow> fs_panic + (fs_error option \<times> frameSorter)" where
  "push_overlap data start endp frame sg startsInGap eg endsInGap s =
     (let startGapEqualsEndGap = (fst sg = fst eg);
          next = tl (list_from (fst sg) (gaps s))
      in case replaceOld endp start False (queue s, returned s) of
        None \<Rightarrow> Inr (Some errDuplicateStreamData, s)
      | Some (pos, replaced, cutEnd, st) \<Rightarrow>
          rbind (if cutEnd then slice_to (pos - start) data else Inr data) (\<lambda>data.
          let endp = (if cutEnd then pos else endp);
              cutFront = (\<not> startsInGap \<and> \<not> replaced)
          in rbind (if cutFront then slice_from (Start (snd sg) - start) data else Inr data) (\<lambda>data.
          let start = (if cutFront then Start (snd sg) else start);
              (gs, adjusted) = adjustStartGap start endp replaced sg (gaps s)
          in rbind (dropCovered startGapEqualsEndGap (End (snd sg)) (Start (snd eg)) next st gs) (\<lambda>(st, gs).
          let cutBack = (\<not> endsInGap \<and> start \<noteq> End (snd eg) \<and> endp > End (snd eg))
          in rbind (if cutBack then slice_to (End (snd eg) - start) data else Inr data) (\<lambda>data.
          let endp = (if cutBack then End (snd eg) else endp);
              gs = adjustEndGap endp startGapEqualsEndGap adjusted (fst sg) (End (snd sg)) (fst eg)
                     (End (snd eg)) gs
          in Inr (storeFrame start data frame (cutEnd \<or> cutFront \<or> cutBack) st gs s))))))"

definition push :: "bytes \<Rightarrow> int \<Rightarrow> nat option \<Rightarrow> frameSorter \<Rightarrow> fs_panic + (fs_error option \<times> frameSorter)" where
  "push data offset frame s =
     (if data = [] then Inr (Some errDuplicateStreamData, s)
      else
        let start = offset; endp = offset + int (length data) in
        case push_fast data start endp frame s of
          Some s' \<Rightarrow> Inr (None, s')
        | None \<Rightarrow>
        (case list_Front (gaps s) of
           None \<Rightarrow> Inl NilDereference
         | Some front \<Rightarrow>
             if endp \<le> Start (snd front) then Inr (Some errDuplicateStreamData, s)
             else rbind (findStartGap start (gaps s)) (\<lambda>(sg, startsInGap).
                  rbind (findEndGap (fst sg) endp (gaps s)) (\<lambda>(eg, endsInGap).
                  case eg of
                    None \<Rightarrow> Inl NilDereference
                  | Some eg \<Rightarrow>
                      if (fst sg = fst eg \<and> endp \<le> Start (snd sg)) \<or>
                         (fst sg \<noteq> fst eg \<and> End (snd sg) \<ge> Start (snd eg) \<and> endp \<le> Start (snd sg))
                      then Inr (Some errDuplicateStreamData, s)
                      else push_overlap data start endp frame sg startsInGap eg endsInGap s))))"

definition Push :: "bytes \<Rightarrow> int \<Rightarrow> nat option \<Rightarrow> frameSorter \<Rightarrow> fs_panic + (fs_error option \<times> frameSorter)" where
  "Push data offset frame s =
     rbind (push data offset frame s) (\<lambda>(err, s).
       if err = Some errDuplicateStreamData
       then Inr (None, s\<lparr>returned := putBack frame (returned s)\<rparr>)
       else Inr (err, s))"

text \<open>\<open>Pop\<close> returns the offset, the data (nil when there is none) and the frame.\<close>

definition Pop :: "frameSorter \<Rightarrow> fs_panic + ((int \<times> bytes option \<times> nat option) \<times> frameSorter)" where
  "Pop s =
     (case map_of (queue s) (readPos s) of
        None \<Rightarrow> Inr ((readPos s, None, None), s)
      | Some entry \<Rightarrow>
          let s' = s\<lparr>queue := mdel (readPos s) (queue s), readPos := readPos s + blen entry\<rparr> in
          case list_Front (gaps s') of
            None \<Rightarrow> Inl NilDereference
          | Some front \<Rightarrow>
              if End (snd front) \<le> readPos s' then Inl ReadPositionBug
              else Inr ((readPos s, Some (Data entry), Frame entry), s'))"

definition HasMoreData :: "frameSorter \<Rightarrow> bool" where
  "HasMoreData s \<longleftrightarrow> length (queue s) > 0"

text \<open>
  The two loops of \<open>Peek\<close>; \<open>None\<close> is a loop that does not end (a queued frame without data
  would make them spin).
\<close>

partial_function (option) peek_check :: "(int, frameSorterEntry) gomap \<Rightarrow> int \<Rightarrow> int \<Rightarrow> bool option" where
  "peek_check q pos remaining =
     (if remaining > 0 then
        (case map_of q pos of
           None \<Rightarrow> Some False
         | Some entry \<Rightarrow>
             if remaining \<le> blen entry then Some True
             else peek_check q (pos + blen entry) (remaining - blen entry))
      else Some True)"

partial_function (option) peek_copy :: "(int, frameSorterEntry) gomap \<Rightarrow> int \<Rightarrow> nat \<Rightarrow> bytes \<Rightarrow> bytes option" where
  "peek_copy q pos n copied =
     (if length copied < n then
        let data = (case map_of q pos of None \<Rightarrow> [] | Some entry \<Rightarrow> Data entry)
        in peek_copy q (pos + int (length data)) n (copied @ take (n - length copied) data)
      else Some copied)"

text \<open>\<open>Peek(offset, p)\<close> with \<open>n = len(p)\<close>: \<open>Inl ()\<close> is \<open>errTooLittleData\<close>.\<close>

definition Peek :: "int \<Rightarrow> nat \<Rightarrow> frameSorter \<Rightarrow> (unit + bytes) option" where
  "Peek offset n s =
     (if n = 0 then Some (Inr [])
      else case peek_check (queue s) offset (int n) of
        None \<Rightarrow> None
      | Some False \<Rightarrow> Some (Inl ())
      | Some True \<Rightarrow> map_option Inr (peek_copy (queue s) offset n []))"

end
