(* ===== verification/Frame_Sorter_Inv.thy ===== *)
theory Frame_Sorter_Inv
  imports Frame_Sorter
begin

text \<open>
  Correctness of the frame sorter.  The gaps and the queued frames tile the part of the stream
  that has not been read: gaps are sorted and apart, queued frames do not overlap, and every
  position from \<open>readPos\<close> on is in exactly one of them (\<open>tiling\<close>).  \<open>push\<close> of a frame covering
  \<open>{start..<end}\<close> stores one entry covering some \<open>{a..<b}\<close> that contains all the bytes of the
  frame that were missing, and deletes exactly the queued frames inside it (\<open>push_effect\<close>).
\<close>

section \<open>Regions of the stream\<close>

definition gap_region :: "byteInterval linked \<Rightarrow> int set" where
  "gap_region gs = {p. \<exists>x\<in>set gs. Start (snd x) \<le> p \<and> p < End (snd x)}"

definition queue_region :: "(int \<rightharpoonup> frameSorterEntry) \<Rightarrow> int set" where
  "queue_region m = {p. \<exists>k e. m k = Some e \<and> k \<le> p \<and> p < k + blen e}"

definition gaps_ok :: "int \<Rightarrow> byteInterval linked \<Rightarrow> bool" where
  "gaps_ok r gs \<longleftrightarrow>
     distinct (map fst gs) \<and> sorted_wrt (\<lambda>x y. End (snd x) < Start (snd y)) gs \<and>
     (\<forall>x\<in>set gs. r \<le> Start (snd x) \<and> Start (snd x) < End (snd x)) \<and>
     gs \<noteq> [] \<and> End (snd (last gs)) = MaxByteCount"

definition tiles :: "(int \<rightharpoonup> frameSorterEntry) \<Rightarrow> bool" where
  "tiles m \<longleftrightarrow> (\<forall>k e. m k = Some e \<longrightarrow> 0 < blen e) \<and>
     (\<forall>k e k' e'. m k = Some e \<longrightarrow> m k' = Some e' \<longrightarrow> k < k' \<longrightarrow> k + blen e \<le> k')"

definition tiling :: "int \<Rightarrow> byteInterval linked \<Rightarrow> (int \<rightharpoonup> frameSorterEntry) \<Rightarrow> bool" where
  "tiling r gs m \<longleftrightarrow> gaps_ok r gs \<and> tiles m \<and> queue_region m = {r..<MaxByteCount} - gap_region gs"

text \<open>No queued frame has the position strictly inside.\<close>

definition boundary :: "(int \<rightharpoonup> frameSorterEntry) \<Rightarrow> int \<Rightarrow> bool" where
  "boundary m p \<longleftrightarrow> (\<forall>k e. m k = Some e \<longrightarrow> \<not> (k < p \<and> p < k + blen e))"

text \<open>The queue without the frames that start in \<open>{a..<b}\<close>.\<close>

definition mdrop :: "int \<Rightarrow> int \<Rightarrow> (int \<rightharpoonup> 'b) \<Rightarrow> (int \<rightharpoonup> 'b)" where
  "mdrop a b m = (\<lambda>k. if a \<le> k \<and> k < b then None else m k)"

lemma queue_regionI: "m k = Some e \<Longrightarrow> k \<le> p \<Longrightarrow> p < k + blen e \<Longrightarrow> p \<in> queue_region m"
  unfolding queue_region_def by blast

lemma queue_regionE:
  assumes "p \<in> queue_region m"
  obtains k e where "m k = Some e" "k \<le> p" "p < k + blen e"
  using assms unfolding queue_region_def by blast

lemma tiles_pos: "tiles m \<Longrightarrow> m k = Some e \<Longrightarrow> 0 < blen e"
  unfolding tiles_def by blast

lemma tiles_le: "tiles m \<Longrightarrow> m k = Some e \<Longrightarrow> m k' = Some e' \<Longrightarrow> k < k' \<Longrightarrow> k + blen e \<le> k'"
  unfolding tiles_def by blast

lemma boundaryD: "boundary m p \<Longrightarrow> m k = Some e \<Longrightarrow> k < p \<Longrightarrow> k + blen e \<le> p"
  unfolding boundary_def by force

lemma mdrop_empty [simp]: "b \<le> a \<Longrightarrow> mdrop a b m = m"
  by (rule ext) (auto simp: mdrop_def)

lemma mdrop_mdrop: "a \<le> b \<Longrightarrow> b \<le> c \<Longrightarrow> mdrop b c (mdrop a b m) = mdrop a c m"
  by (rule ext) (auto simp: mdrop_def)

lemma mdrop_Some: "mdrop a b m k = Some e \<longleftrightarrow> m k = Some e \<and> \<not> (a \<le> k \<and> k < b)"
  by (auto simp: mdrop_def)

lemma mdrop_extend:
  assumes "\<And>k. c \<le> k \<Longrightarrow> k < d \<Longrightarrow> m k = None" "c \<le> d"
  shows "mdrop a c m = mdrop a d m"
  by (rule ext) (use assms in \<open>auto simp: mdrop_def\<close>)

lemma tiles_mdrop: "tiles m \<Longrightarrow> tiles (mdrop a b m)"
  unfolding tiles_def mdrop_Some by blast

lemma boundary_mdrop: "boundary m p \<Longrightarrow> boundary (mdrop a b m) p"
  unfolding boundary_def mdrop_Some by blast

lemma queue_region_mdrop: "queue_region (mdrop a b m) \<subseteq> queue_region m"
  unfolding queue_region_def mdrop_Some by blast

lemma boundary_outside: "p \<notin> queue_region m \<Longrightarrow> boundary m p"
  unfolding boundary_def queue_region_def by force

lemma boundary_after: "p - 1 \<notin> queue_region m \<Longrightarrow> boundary m p"
  unfolding boundary_def queue_region_def by force

lemma boundary_key: "tiles m \<Longrightarrow> m p = Some e \<Longrightarrow> boundary m p"
  unfolding boundary_def using tiles_le by fastforce

lemma boundary_next:
  assumes t: "tiles m" and e: "m p = Some e"
  shows "boundary m (p + blen e)"
  unfolding boundary_def
proof (intro allI impI notI, elim conjE)
  fix k x assume k: "m k = Some x" "k < p + blen e" "p + blen e < k + blen x"
  then consider "k < p" | "k = p" | "p < k" by linarith
  then show False
    by cases (use k tiles_le [OF t k(1) e] tiles_le [OF t e k(1)] tiles_pos [OF t e] e in auto)
qed

lemma key_in_region: "tiles m \<Longrightarrow> m k = Some e \<Longrightarrow> k \<in> queue_region m"
  using tiles_pos by (fastforce intro: queue_regionI)

lemma entry_in_region: "m k = Some e \<Longrightarrow> {k..<k + blen e} \<subseteq> queue_region m"
  by (auto intro: queue_regionI)

lemma mdrop_entry:
  assumes t: "tiles m" and e: "m k = Some e"
  shows "m(k := None) = mdrop k (k + blen e) m"
proof (rule ext)
  fix x
  have "m x = None" if "k < x" "x < k + blen e"
    using that tiles_le [OF t e, of x] by (cases "m x") auto
  then show "(m(k := None)) x = mdrop k (k + blen e) m x"
    using tiles_pos [OF t e] by (cases "x = k") (auto simp: mdrop_def)
qed

lemma map_of_mdel: "map_of (mdel k q) = (map_of q)(k := None)"
  by (rule ext) (simp add: mget_mdel)

lemma region_key:
  assumes "boundary m p" "m p = None" shows "p \<notin> queue_region m"
proof
  assume "p \<in> queue_region m"
  then obtain k e where k: "m k = Some e" "k \<le> p" "p < k + blen e" by (rule queue_regionE)
  with assms have "k < p" by (cases "k = p") auto
  with boundaryD [OF assms(1) k(1)] k(3) show False by simp
qed

lemma region_mdrop_high: "p \<in> queue_region m \<Longrightarrow> boundary m b \<Longrightarrow> b \<le> p \<Longrightarrow> p \<in> queue_region (mdrop a b m)"
  by (elim queue_regionE) (rule queue_regionI, auto simp: mdrop_Some dest: boundaryD)

section \<open>The deleting loops\<close>

lemma deleteConsecutive_run:
  assumes "tiles (map_of (fst st))" "boundary (map_of (fst st)) pos"
  shows "\<exists>p. pos \<le> p \<and> {pos..<p} \<subseteq> queue_region (map_of (fst st)) \<and> p \<notin> queue_region (map_of (fst st)) \<and>
             map_of (fst (deleteConsecutive pos st)) = mdrop pos p (map_of (fst st))"
  using assms
proof (induction pos st rule: deleteConsecutive.induct)
  case (1 pos q r)
  let ?m = "map_of q"
  show ?case
  proof (cases "?m pos")
    case None
    with 1 show ?thesis by (intro exI [of _ pos]) (simp add: deleteConsecutive.simps region_key)
  next
    case (Some e)
    let ?n = "pos + blen e"
    have t: "tiles ?m" using "1.prems" by simp
    note pos = tiles_pos [OF t Some] and bn = boundary_next [OF t Some]
    have m1: "map_of (mdel pos q) = mdrop pos ?n ?m"
      using mdrop_entry [OF t Some] by (simp add: map_of_mdel)
    obtain p where p: "?n \<le> p" "{?n..<p} \<subseteq> queue_region (mdrop pos ?n ?m)"
      "p \<notin> queue_region (mdrop pos ?n ?m)"
      "map_of (fst (deleteConsecutive ?n (mdel pos q, putBack (Frame e) r))) = mdrop ?n p (mdrop pos ?n ?m)"
      using "1.IH" [OF Some] t bn m1 by (auto simp: tiles_mdrop boundary_mdrop)
    have "{pos..<p} \<subseteq> queue_region ?m"
      using p(2) queue_region_mdrop [of pos ?n ?m] entry_in_region [of ?m, OF Some] by fastforce
    moreover have "p \<notin> queue_region ?m"
      using p(1,3) bn region_mdrop_high by blast
    ultimately show ?thesis
      using p(1,4) pos Some by (intro exI [of _ p]) (simp add: deleteConsecutive.simps mdrop_mdrop)
  qed
qed

text \<open>
  What the replacing loop of \<open>push\<close> does from a position where no queued frame is cut: it
  deletes the queued frames of \<open>{pos..<p}\<close> and stops at the end of the run of queued frames, or
  in front of a frame that reaches beyond the new one.
\<close>

definition replaced_run ::
  "(int \<rightharpoonup> frameSorterEntry) \<Rightarrow> int \<Rightarrow> int \<Rightarrow> bool \<Rightarrow> int \<times> bool \<times> bool \<times> fs_store \<Rightarrow> bool" where
  "replaced_run m endp pos replaced res \<longleftrightarrow>
     (case res of (p, rep, cutEnd, st) \<Rightarrow>
        pos \<le> p \<and> p \<le> endp \<and> {pos..<p} \<subseteq> queue_region m \<and> boundary m p \<and>
        map_of (fst st) = mdrop pos p m \<and> (rep \<longleftrightarrow> replaced \<or> pos < p) \<and>
        (\<not> cutEnd \<longrightarrow> p \<notin> queue_region m) \<and>
        (cutEnd \<longrightarrow> rep \<and> {p..endp} \<subseteq> queue_region m))"

lemma replaceOld_run:
  assumes "tiles (map_of (fst st))" "boundary (map_of (fst st)) pos" "pos \<le> endp"
    and "replaceOld endp pos replaced st = Some res"
  shows "replaced_run (map_of (fst st)) endp pos replaced res"
  using assms
proof (induction endp pos replaced st rule: replaceOld.induct)
  case (1 endp pos replaced q r)
  let ?m = "map_of q"
  have t: "tiles ?m" and b: "boundary ?m pos" using "1.prems" by simp_all
  show ?case
  proof (cases "?m pos")
    case None
    with 1 show ?thesis
      by (auto simp: replaceOld.simps [of endp pos replaced q r] replaced_run_def region_key)
  next
    case (Some e)
    let ?n = "pos + blen e"
    note pos = tiles_pos [OF t Some] and bn = boundary_next [OF t Some]
    have m1: "map_of (mdel pos q) = mdrop pos ?n ?m"
      using mdrop_entry [OF t Some] by (simp add: map_of_mdel)
    show ?thesis
    proof (cases "endp - pos > blen e \<or> (replaced \<and> endp - pos = blen e)")
      case True
      obtain p rep ce st where res: "res = (p, rep, ce, st)" by (cases res) auto
      from True have le: "?n \<le> endp" by linarith
      have "replaced_run (mdrop pos ?n ?m) endp ?n True res"
        using "1.IH" [OF Some refl True] "1.prems"(4) t bn m1 True Some le
        by (simp add: tiles_mdrop boundary_mdrop replaceOld.simps [of endp pos replaced q r])
      then have p: "?n \<le> p" "p \<le> endp" "{?n..<p} \<subseteq> queue_region (mdrop pos ?n ?m)" "boundary (mdrop pos ?n ?m) p"
        "map_of (fst st) = mdrop ?n p (mdrop pos ?n ?m)" "rep"
        "\<not> ce \<longrightarrow> p \<notin> queue_region (mdrop pos ?n ?m)" "ce \<longrightarrow> {p..endp} \<subseteq> queue_region (mdrop pos ?n ?m)"
        by (simp_all add: replaced_run_def res)
      note sub = queue_region_mdrop [of pos ?n ?m]
      have "{pos..<p} \<subseteq> queue_region ?m"
        using p(3) sub entry_in_region [of ?m, OF Some] by fastforce
      moreover have "boundary ?m p"
        unfolding boundary_def
      proof (intro allI impI notI, elim conjE)
        fix k x assume k: "?m k = Some x" "k < p" "p < k + blen x"
        have "k < ?n" using p(4) k boundaryD [of "mdrop pos ?n ?m" p k x] by (force simp: mdrop_Some)
        with boundaryD [OF bn k(1)] p(1) k(3) show False by simp
      qed
      moreover have "\<not> ce \<longrightarrow> p \<notin> queue_region ?m"
        using p(1,7) bn region_mdrop_high by blast
      ultimately show ?thesis
        using p pos sub by (simp add: replaced_run_def res mdrop_mdrop) blast
    next
      case False
      then have "replaced" "res = (pos, replaced, True, (q, r))" "endp - pos < blen e"
        using "1.prems"(4) Some by (auto simp: replaceOld.simps [of endp pos replaced q r] split: if_splits)
      then show ?thesis
        using "1.prems" Some entry_in_region [of ?m, OF Some] by (auto simp: replaced_run_def)
    qed
  qed
qed

lemma replaceOld_True: "replaceOld endp pos True st \<noteq> None"
proof -
  have "replaced \<Longrightarrow> \<exists>x. replaceOld endp pos replaced st = Some x" for replaced
  proof (induction endp pos replaced st rule: replaceOld.induct)
    case (1 endp pos replaced q r)
    then show ?case
      by (cases "map_of q pos") (auto simp: replaceOld.simps [of endp pos True q r] Let_def)
  qed
  then show ?thesis by simp
qed

lemma replaceOld_None:
  assumes "replaceOld endp pos False (q, r) = None"
  shows "\<exists>e. map_of q pos = Some e \<and> endp \<le> pos + blen e"
  using assms
  by (auto simp: replaceOld.simps [of endp pos False q r] replaceOld_True Let_def split: option.splits if_splits)

text \<open>
  The deleting loops hand the buffers of deleted frames back: together, queue and returned
  buffers own the same buffers before and after.
\<close>

definition frames_of :: "(int, frameSorterEntry) gomap \<Rightarrow> nat multiset" where
  "frames_of q = (\<Sum>x\<leftarrow>q. mset (putBack (Frame (snd x)) []))"

definition same_owner :: "fs_store \<Rightarrow> fs_store \<Rightarrow> bool" where
  "same_owner st st' \<longleftrightarrow> (mwf (fst st) \<longrightarrow> mwf (fst st') \<and>
     frames_of (fst st') + mset (snd st') = frames_of (fst st) + mset (snd st))"

lemma mset_putBack: "mset (putBack f r) = mset (putBack f []) + mset r"
  by (simp add: putBack_def split: option.splits)

lemma frames_of_mdel:
  "mwf q \<Longrightarrow> map_of q k = Some e \<Longrightarrow> frames_of q = mset (putBack (Frame e) []) + frames_of (mdel k q)"
  by (induction q) (auto simp: frames_of_def mwf_def add.left_commute image_iff split: if_splits)

lemma frames_of_mput: "map_of q k = None \<Longrightarrow> frames_of (mput k e q) = frames_of q + mset (putBack (Frame e) [])"
  by (induction q) (auto simp: frames_of_def ac_simps split: if_splits)

lemma same_owner_refl [simp]: "same_owner st st"
  by (simp add: same_owner_def)

lemma same_owner_trans: "same_owner st st' \<Longrightarrow> same_owner st' st'' \<Longrightarrow> same_owner st st''"
  by (simp add: same_owner_def)

lemma same_owner_delete:
  "map_of q k = Some e \<Longrightarrow> same_owner (q, r) (mdel k q, putBack (Frame e) r)"
  using mset_putBack [of "Frame e" r] by (auto simp: same_owner_def frames_of_mdel ac_simps)

lemma deleteConsecutive_owner: "same_owner st (deleteConsecutive pos st)"
proof (induction pos st rule: deleteConsecutive.induct)
  case (1 pos q r)
  then show ?case
    by (cases "map_of q pos")
      (auto simp: deleteConsecutive.simps [of pos q r] intro: same_owner_trans same_owner_delete)
qed

lemma delete_runs_owner:
  "same_owner st (foldl (\<lambda>st x. deleteConsecutive (End (snd x)) st) st l)"
proof (induction l arbitrary: st)
  case (Cons x l)
  then show ?case using deleteConsecutive_owner same_owner_trans by fastforce
qed simp

lemma replaceOld_owner: "replaceOld endp pos rep st = Some (p, rep', ce, st') \<Longrightarrow> same_owner st st'"
proof (induction endp pos rep st rule: replaceOld.induct)
  case (1 endp pos rep q r)
  show ?case
  proof (cases "map_of q pos")
    case None
    with "1.prems" show ?thesis by (simp add: replaceOld.simps)
  next
    case (Some e)
    show ?thesis
    proof (cases "endp - pos > blen e \<or> (rep \<and> endp - pos = blen e)")
      case True
      then show ?thesis
        using "1.IH" [OF Some refl True] "1.prems" Some same_owner_delete [OF Some]
        by (auto simp: replaceOld.simps [of endp pos rep q r] intro: same_owner_trans)
    next
      case False
      then show ?thesis
        using "1.prems" Some by (auto simp: replaceOld.simps [of endp pos rep q r] split: if_splits)
    qed
  qed
qed

section \<open>Linked lists with distinct addresses\<close>

lemma filter_other: "k \<notin> fst ` set l \<Longrightarrow> filter (\<lambda>x. fst x \<noteq> k) l = l"
  by (induction l) auto

lemma list_Remove_split [simp]:
  "distinct (map fst (pre @ x # post)) \<Longrightarrow> list_Remove (fst x) (pre @ x # post) = pre @ post"
  by (simp add: list_Remove_def filter_other)

lemma elem_set_other [simp]: "a \<notin> fst ` set l \<Longrightarrow> elem_set a f l = l"
  unfolding elem_set_def by (rule map_idI) auto

lemma elem_set_append [simp]: "elem_set a f (l @ l') = elem_set a f l @ elem_set a f l'"
  by (simp add: elem_set_def)

lemma elem_set_Cons [simp]:
  "elem_set a f (x # l) = (if fst x = a then (a, f (snd x)) else x) # elem_set a f l"
  by (auto simp: elem_set_def)

lemma list_from_split [simp]:
  "fst x \<notin> fst ` set pre \<Longrightarrow> list_from (fst x) (pre @ x # post) = x # post"
  by (induction pre) (auto simp: list_from.simps(2) [of _ "fst x" "snd x", simplified])

lemma fresh_addr_notin [simp]: "fresh_addr l \<notin> fst ` set l"
proof -
  have "\<forall>x\<in>set l. fst x < fresh_addr l"
    by (induction l) (auto simp: fresh_addr_def)
  then show ?thesis by auto
qed

lemma concat_other: "k \<notin> fst ` set l \<Longrightarrow> concat (map (\<lambda>y. if fst y = k then [y, n] else [y]) l) = l"
  by (induction l) auto

lemma list_InsertAfter_split:
  "distinct (map fst (pre @ x # post)) \<Longrightarrow>
   list_InsertAfter v (fst x) (pre @ x # post) = pre @ x # (fresh_addr (pre @ x # post), v) # post"
  by (simp add: list_InsertAfter_def concat_other)

lemma elem_Prev_split:
  assumes "distinct (map fst (pre @ x # post))"
  shows "elem_Prev (fst x) (pre @ x # post) = (if pre = [] then None else Some (last pre))"
proof -
  have "list_from (fst x) (rev post @ x # rev pre) = x # rev pre"
    using assms by (intro list_from_split) auto
  then show ?thesis
    by (cases pre rule: rev_cases) (simp_all add: elem_Prev_def elem_Next_def)
qed

section \<open>Finding the first and the last gap of a frame\<close>

lemma gap_regionI: "x \<in> set gs \<Longrightarrow> Start (snd x) \<le> p \<Longrightarrow> p < End (snd x) \<Longrightarrow> p \<in> gap_region gs"
  unfolding gap_region_def by blast

lemma gap_region_append [simp]: "gap_region (gs @ gs') = gap_region gs \<union> gap_region gs'"
  by (auto simp: gap_region_def)

lemma gap_region_Cons [simp]: "gap_region (x # gs) = {Start (snd x)..<End (snd x)} \<union> gap_region gs"
  by (auto simp: gap_region_def)

lemma gap_region_Nil [simp]: "gap_region [] = {}"
  by (simp add: gap_region_def)

lemma findStartGap_split:
  assumes "gs \<noteq> []" "off \<le> End (snd (last gs))"
  shows "\<exists>pre x post. gs = pre @ x # post \<and> findStartGap off gs = Inr (x, Start (snd x) \<le> off) \<and>
           off \<le> max (End (snd x)) (Start (snd x)) \<and> (\<forall>y\<in>set pre. End (snd y) < off)"
  using assms
proof (induction gs)
  case (Cons x l)
  show ?case
  proof (cases "Start (snd x) \<le> off \<and> End (snd x) < off")
    case True
    then have l: "l \<noteq> []" "off \<le> End (snd (last l))" using Cons.prems by (auto split: if_splits)
    from Cons.IH [OF l] obtain pre y post where "l = pre @ y # post"
      "findStartGap off l = Inr (y, Start (snd y) \<le> off)" "off \<le> max (End (snd y)) (Start (snd y))"
      "\<forall>z\<in>set pre. End (snd z) < off" by (elim exE conjE)
    with True show ?thesis by (intro exI [of _ "x # pre"] exI [of _ y] exI [of _ post]) auto
  next
    case False
    then show ?thesis by (intro exI [of _ "[]"] exI [of _ x] exI [of _ l]) auto
  qed
qed simp

lemma findEndGap_loop_split:
  assumes "l \<noteq> []" "off < End (snd (last l))"
  shows "\<exists>u x v. l = u @ x # v \<and> (\<forall>y\<in>set u. Start (snd y) \<le> off \<and> End (snd y) \<le> off) \<and>
           ((findEndGap_loop gs off l = Inr (Some x, True) \<and> Start (snd x) \<le> off \<and> off < End (snd x)) \<or>
            (findEndGap_loop gs off l = Inr (elem_Prev (fst x) gs, False) \<and> off < Start (snd x)))"
  using assms
proof (induction l)
  case (Cons x l)
  show ?case
  proof (cases "Start (snd x) \<le> off \<and> End (snd x) \<le> off")
    case True
    then have l: "l \<noteq> []" "off < End (snd (last l))" using Cons.prems by (auto split: if_splits)
    from Cons.IH [OF l] obtain u y v where "l = u @ y # v" "\<forall>z\<in>set u. Start (snd z) \<le> off \<and> End (snd z) \<le> off"
      "(findEndGap_loop gs off l = Inr (Some y, True) \<and> Start (snd y) \<le> off \<and> off < End (snd y)) \<or>
       (findEndGap_loop gs off l = Inr (elem_Prev (fst y) gs, False) \<and> off < Start (snd y))" by (elim exE conjE)
    with True show ?thesis by (intro exI [of _ "x # u"] exI [of _ y] exI [of _ v]) auto
  next
    case False
    then show ?thesis by (intro exI [of _ "[]"] exI [of _ x] exI [of _ l]) auto
  qed
qed simp

text \<open>
  The last gap: it is the first one (\<open>mid\<close> is \<open>None\<close>), or follows it after the gaps \<open>mid\<close>; the
  frame ends in it or in the run of received bytes behind it.
\<close>

definition end_gap ::
  "(nat \<times> byteInterval) \<Rightarrow> byteInterval linked \<Rightarrow> int \<Rightarrow> (nat \<times> byteInterval) \<Rightarrow> bool \<Rightarrow> byteInterval linked option \<Rightarrow> byteInterval linked \<Rightarrow> bool"
where
  "end_gap sg post endp eg inGap mid rest \<longleftrightarrow>
     (case mid of None \<Rightarrow> eg = sg \<and> rest = post
      | Some ms \<Rightarrow> post = ms @ eg # rest \<and> End (snd sg) \<le> endp) \<and>
     Start (snd eg) \<le> endp \<and> (inGap \<longleftrightarrow> endp < End (snd eg)) \<and> (\<forall>y\<in>set rest. endp < Start (snd y))"

lemma findEndGap_split:
  assumes ok: "gaps_ok r (pre @ sg # post)" and e: "endp < MaxByteCount" "Start (snd sg) \<le> endp"
  shows "\<exists>eg inGap mid rest. findEndGap (fst sg) endp (pre @ sg # post) = Inr (Some eg, inGap) \<and>
           end_gap sg post endp eg inGap mid rest"
proof -
  let ?gs = "pre @ sg # post"
  from ok have d: "distinct (map fst ?gs)" and srt: "sorted_wrt (\<lambda>x y. End (snd x) < Start (snd y)) ?gs"
    and pos: "\<And>x. x \<in> set ?gs \<Longrightarrow> Start (snd x) < End (snd x)" and lst: "End (snd (last (sg # post))) = MaxByteCount"
    by (auto simp: gaps_ok_def)
  have loop: "findEndGap (fst sg) endp ?gs = findEndGap_loop ?gs endp (sg # post)"
    using d by (simp add: findEndGap_def)
  have "endp < End (snd (last (sg # post)))" using lst e by simp
  from findEndGap_loop_split [OF list.distinct(2) this, of ?gs] obtain u x v where
    u: "sg # post = u @ x # v" "\<forall>y\<in>set u. Start (snd y) \<le> endp \<and> End (snd y) \<le> endp"
    and res: "(findEndGap_loop ?gs endp (sg # post) = Inr (Some x, True) \<and> Start (snd x) \<le> endp \<and> endp < End (snd x)) \<or>
      (findEndGap_loop ?gs endp (sg # post) = Inr (elem_Prev (fst x) ?gs, False) \<and> endp < Start (snd x))"
    by (elim exE conjE)
  have gs: "?gs = (pre @ u) @ x # v" using u(1) by simp
  have later: "\<forall>y\<in>set v. End (snd x) < Start (snd y)" using srt unfolding gs by (simp add: sorted_wrt_append)
  from res show ?thesis
  proof
    assume r: "findEndGap_loop ?gs endp (sg # post) = Inr (Some x, True) \<and> Start (snd x) \<le> endp \<and> endp < End (snd x)"
    have "end_gap sg post endp x True (if u = [] then None else Some (tl u)) v"
      using u r later by (cases u) (fastforce simp: end_gap_def)+
    with loop r show ?thesis by auto
  next
    assume r: "findEndGap_loop ?gs endp (sg # post) = Inr (elem_Prev (fst x) ?gs, False) \<and> endp < Start (snd x)"
    with e u(1) have "u \<noteq> []" by auto
    then obtain w y where w: "u = w @ [y]" by (cases u rule: rev_cases) auto
    have "elem_Prev (fst x) ?gs = Some y"
      using elem_Prev_split [of "pre @ u" x v] d gs w by simp
    moreover have "\<forall>z\<in>set (x # v). endp < Start (snd z)"
      using r later pos [of x] gs by fastforce
    then have "end_gap sg post endp y False (if w = [] then None else Some (tl w)) (x # v)"
      using u w by (cases w) (auto simp: end_gap_def)
    ultimately show ?thesis using loop r by auto
  qed
qed

section \<open>Gaps and queued frames tile the stream\<close>

lemma gap_not_queued: "tiling r gs m \<Longrightarrow> p \<in> gap_region gs \<Longrightarrow> p \<notin> queue_region m"
  by (auto simp: tiling_def)

lemma run_queued:
  "tiling r gs m \<Longrightarrow> r \<le> p \<Longrightarrow> p < MaxByteCount \<Longrightarrow> p \<notin> gap_region gs \<Longrightarrow> p \<in> queue_region m"
  by (auto simp: tiling_def)

lemma tiling_tiles: "tiling r gs m \<Longrightarrow> tiles m"
  by (simp add: tiling_def)

lemma gap_no_key:
  assumes "tiling r gs m" "x \<in> set gs" "Start (snd x) \<le> k" "k < End (snd x)"
  shows "m k = None"
proof (rule ccontr)
  assume "m k \<noteq> None"
  then obtain e where "m k = Some e" by auto
  from key_in_region [OF tiling_tiles [OF assms(1)] this] gap_not_queued [OF assms(1) gap_regionI [OF assms(2-4)]]
  show False by blast
qed

lemma gap_boundary:
  assumes t: "tiling r gs m" and x: "x \<in> set gs" and p: "Start (snd x) \<le> p" "p \<le> End (snd x)"
  shows "boundary m p"
proof (cases "p < End (snd x)")
  case True
  then show ?thesis using gap_not_queued [OF t gap_regionI [OF x p(1)]] boundary_outside by blast
next
  case False
  have "Start (snd x) < End (snd x)" using t x by (auto simp: tiling_def gaps_ok_def)
  with p False have "Start (snd x) \<le> p - 1" "p - 1 < End (snd x)" by auto
  then show ?thesis using gap_not_queued [OF t gap_regionI [OF x]] boundary_after by blast
qed

text \<open>Between two neighbouring gaps everything is queued.\<close>

lemma between_gaps:
  assumes ok: "gaps_ok r (pre @ x # y # post)" and p: "End (snd x) \<le> p" "p < Start (snd y)"
  shows "p \<notin> gap_region (pre @ x # y # post)"
proof
  assume "p \<in> gap_region (pre @ x # y # post)"
  then obtain z where z: "z \<in> set (pre @ x # y # post)" "Start (snd z) \<le> p" "p < End (snd z)"
    unfolding gap_region_def by blast
  from ok have "\<forall>z\<in>set pre. End (snd z) < Start (snd x)" "\<forall>z\<in>set post. End (snd y) < Start (snd z)"
    "Start (snd x) < End (snd x)" "Start (snd y) < End (snd y)"
    by (auto simp: gaps_ok_def sorted_wrt_append)
  with z p show False by fastforce
qed

lemma gap_bounds:
  assumes ok: "gaps_ok r gs" and x: "x \<in> set gs"
  shows "r \<le> Start (snd x)" "Start (snd x) < End (snd x)" "End (snd x) \<le> MaxByteCount"
proof -
  show "r \<le> Start (snd x)" "Start (snd x) < End (snd x)" using ok x by (auto simp: gaps_ok_def)
  from x obtain u v where gs: "gs = u @ x # v" by (auto simp: in_set_conv_decomp)
  show "End (snd x) \<le> MaxByteCount"
  proof (cases "v = []")
    case True
    then show ?thesis using ok gs by (simp add: gaps_ok_def)
  next
    case False
    then have l: "last v \<in> set v" "last v = last gs" using gs by simp_all
    then have "End (snd x) < Start (snd (last v))" using ok gs by (simp add: gaps_ok_def sorted_wrt_append)
    moreover have "last v \<in> set gs" using l gs by simp
    then have "Start (snd (last v)) < End (snd (last v))" using ok unfolding gaps_ok_def by blast
    moreover have "End (snd (last v)) = MaxByteCount" using l ok by (simp add: gaps_ok_def)
    ultimately show ?thesis by simp
  qed
qed

lemma deleteConsecutive_gap:
  assumes t: "tiling r gs m" and gs: "gs = pre @ x # y # post"
    and st: "map_of (fst st) = mdrop a (End (snd x)) m" and a: "a \<le> End (snd x)"
  shows "map_of (fst (deleteConsecutive (End (snd x)) st)) = mdrop a (Start (snd y)) m"
proof -
  let ?x = "End (snd x)" and ?y = "Start (snd y)" and ?m1 = "mdrop a (End (snd x)) m"
  have ok: "gaps_ok r gs" using t by (simp add: tiling_def)
  have xy: "?x < ?y" using ok gs by (auto simp: gaps_ok_def sorted_wrt_append)
  have b: "boundary m ?x"
    using gap_boundary [OF t, of x ?x] gap_bounds [OF ok, of x] gs by simp
  obtain p where p: "?x \<le> p" "{?x..<p} \<subseteq> queue_region ?m1" "p \<notin> queue_region ?m1"
    "map_of (fst (deleteConsecutive ?x st)) = mdrop ?x p ?m1"
    using deleteConsecutive_run [of st ?x] tiles_mdrop [OF tiling_tiles [OF t]] boundary_mdrop [OF b] st
    by auto
  have "?y \<notin> queue_region m"
    using gap_not_queued [OF t gap_regionI, of y ?y] gap_bounds [OF ok, of y] gs by simp
  then have le: "p \<le> ?y" using p(2) xy queue_region_mdrop [of a ?x m] by (meson atLeastLessThan_iff le_less_linear less_imp_le subsetD)
  have "\<not> p < ?y"
  proof
    assume lt: "p < ?y"
    have "r \<le> p" "p < MaxByteCount"
      using gap_bounds [OF ok, of x] gap_bounds [OF ok, of y] gs p(1) lt by auto
    moreover have "p \<notin> gap_region gs" using between_gaps ok gs p(1) lt by blast
    ultimately have "p \<in> queue_region m" using run_queued [OF t] by blast
    with p(1,3) b region_mdrop_high show False by blast
  qed
  with le have "p = ?y" by simp
  then show ?thesis using p(1,4) a by (simp add: mdrop_mdrop)
qed

lemma mdrop_over_gap:
  assumes t: "tiling r gs m" and x: "x \<in> set gs" and c: "Start (snd x) \<le> c" "c \<le> d" "d \<le> End (snd x)"
  shows "mdrop a c m = mdrop a d m"
  using c gap_no_key [OF t x] by (intro mdrop_extend) auto

abbreviation delete_runs :: "byteInterval linked \<Rightarrow> fs_store \<Rightarrow> fs_store" where
  "delete_runs l st \<equiv> foldl (\<lambda>st x. deleteConsecutive (End (snd x)) st) st l"

lemma delete_runs:
  assumes t: "tiling r gs m" and gs: "gs = pre @ mid @ eg # post"
    and st: "map_of (fst st) = mdrop a (Start (snd (hd (mid @ [eg])))) m"
    and a: "a \<le> Start (snd (hd (mid @ [eg])))"
  shows "map_of (fst (delete_runs mid st)) = mdrop a (Start (snd eg)) m"
  using gs st a
proof (induction mid arbitrary: pre st)
  case (Cons x mid)
  let ?y = "hd (mid @ [eg])"
  obtain rest where rest: "mid @ eg # post = ?y # rest" by (cases mid) auto
  have ok: "gaps_ok r gs" using t by (simp add: tiling_def)
  have x: "x \<in> set gs" "?y \<in> set gs" using Cons.prems(1) rest by auto
  note bx = gap_bounds [OF ok x(1)]
  have "End (snd x) < Start (snd ?y)"
    using ok Cons.prems(1) rest by (simp add: gaps_ok_def sorted_wrt_append)
  moreover have "map_of (fst (deleteConsecutive (End (snd x)) st)) = mdrop a (Start (snd ?y)) m"
    using deleteConsecutive_gap [OF t, of pre x ?y rest st a] Cons.prems rest bx
      mdrop_over_gap [OF t x(1), of "Start (snd x)" "End (snd x)" a] by simp
  ultimately show ?case using Cons.IH [of "pre @ [x]" "deleteConsecutive (End (snd x)) st"] Cons.prems bx by simp
qed simp

lemma dropGaps_run:
  assumes "\<forall>x\<in>set mid. End (snd x) < p" "p \<le> End (snd eg)"
  shows "dropGaps p (mid @ eg # post) st gs =
         Inr (delete_runs mid st, filter (\<lambda>x. fst x \<notin> fst ` set mid) gs)"
  using assms
  by (induction mid arbitrary: st gs) (auto simp: list_Remove_def intro: arg_cong2 [where f = filter])

section \<open>The start of a pushed frame\<close>

text \<open>
  Where the stored entry starts (\<open>a\<close>) after the replacing loop: at or before the first gap,
  inside it, or right behind it.
\<close>

definition start_stage ::
  "int \<Rightarrow> (int \<rightharpoonup> frameSorterEntry) \<Rightarrow> int \<Rightarrow> int \<Rightarrow> nat \<times> byteInterval \<Rightarrow> nat \<times> byteInterval \<Rightarrow> int \<Rightarrow> bool \<Rightarrow> (int \<rightharpoonup> frameSorterEntry) \<Rightarrow> bool"
where
  "start_stage r m start endp sg nx a rep m' \<longleftrightarrow>
     r \<le> a \<and> start \<le> a \<and> boundary m a \<and>
     ((a \<le> Start (snd sg) \<and> m' = mdrop a (Start (snd sg)) m) \<or>
      (Start (snd sg) < a \<and> a < End (snd sg) \<and> a = start \<and> \<not> rep \<and> m' = m) \<or>
      (a = End (snd sg) \<and> a = start \<and> rep \<and> m' = mdrop a (Start (snd nx)) m))"

lemma start_inside:
  assumes t: "tiling r gs m" and sg: "sg \<in> set gs" and s: "Start (snd sg) \<le> start" "start < End (snd sg)"
    and m: "m = map_of q"
  shows "replaceOld endp start False (q, rt) = Some (start, False, False, (q, rt))"
    and "start_stage r m start endp sg nx start False m"
proof -
  show "replaceOld endp start False (q, rt) = Some (start, False, False, (q, rt))"
    using gap_no_key [OF t sg s] m by (simp add: replaceOld.simps)
  have "r \<le> start" using gap_bounds(1) [of r gs sg] t sg s by (simp add: tiling_def)
  then show "start_stage r m start endp sg nx start False m"
    using s gap_boundary [OF t sg, of start] by (auto simp: start_stage_def)
qed

lemma start_before:
  assumes t: "tiling r gs m" and gs: "gs = pre @ sg # post" and s: "start < Start (snd sg)" "Start (snd sg) < endp"
    and pre: "\<forall>y\<in>set pre. End (snd y) < start" and m: "m = map_of q"
  shows "\<exists>pos rep st. replaceOld endp start False (q, rt) = Some (pos, rep, False, st) \<and>
           start_stage r m start endp sg nx (if rep then start else Start (snd sg)) rep (map_of (fst st))"
proof (cases "m start")
  case None
  have ok: "gaps_ok r gs" using t by (simp add: tiling_def)
  have "start_stage r m start endp sg nx (Start (snd sg)) False m"
    using gap_bounds [OF ok, of sg] gap_boundary [OF t, of sg "Start (snd sg)"] gs s by (auto simp: start_stage_def)
  with None m show ?thesis by (intro exI [of _ start] exI [of _ False] exI [of _ "(q, rt)"]) (simp add: replaceOld.simps)
next
  case (Some e)
  have ok: "gaps_ok r gs" using t by (simp add: tiling_def)
  note ti = tiling_tiles [OF t]
  have sgq: "Start (snd sg) \<notin> queue_region m"
    using gap_not_queued [OF t gap_regionI, of sg "Start (snd sg)"] gap_bounds [OF ok, of sg] gs by simp
  have b: "boundary m start" by (rule boundary_key [OF ti Some])
  have "replaceOld endp start False (q, rt) \<noteq> None"
  proof
    assume "replaceOld endp start False (q, rt) = None"
    then obtain e' where "map_of q start = Some e'" "endp \<le> start + blen e'" by (meson replaceOld_None)
    with m s sgq show False by (auto intro: queue_regionI)
  qed
  then obtain pos rep ce st where res: "replaceOld endp start False (q, rt) = Some (pos, rep, ce, st)"
    by (metis option.exhaust prod_cases4)
  have run: "start \<le> pos" "{start..<pos} \<subseteq> queue_region m" "map_of (fst st) = mdrop start pos m"
    "rep \<longleftrightarrow> start < pos" "\<not> ce \<longrightarrow> pos \<notin> queue_region m" "ce \<longrightarrow> {pos..endp} \<subseteq> queue_region m"
    using replaceOld_run [OF _ _ _ res] ti b s m by (auto simp: replaced_run_def)
  have le: "pos \<le> Start (snd sg)" using run(2) sgq s by (meson atLeastLessThan_iff le_less_linear less_imp_le subsetD)
  with run(6) s sgq have ce: "\<not> ce" by force
  have "start \<in> queue_region m" by (rule key_in_region [OF ti Some])
  then have r: "r \<le> start" "start < pos" using t run(1,5) ce by (auto simp: tiling_def order_le_less)
  have "\<not> pos < Start (snd sg)"
  proof
    assume lt: "pos < Start (snd sg)"
    have "\<forall>y\<in>set post. End (snd sg) < Start (snd y)" using ok gs by (simp add: gaps_ok_def sorted_wrt_append)
    then have "pos \<notin> gap_region gs"
      using lt pre r(2) gap_bounds [OF ok, of sg] gs by (fastforce simp: gap_region_def)
    moreover have "pos < MaxByteCount" using lt gap_bounds [OF ok, of sg] gs by simp
    ultimately show False using run_queued [OF t, of pos] run(5) ce r by auto
  qed
  with le have "pos = Start (snd sg)" by simp
  then show ?thesis using res ce run b r s by (auto simp: start_stage_def)
qed

text \<open>A frame that starts right behind a gap: there is a queued frame at that position.\<close>

lemma start_behind:
  assumes t: "tiling r gs m" and gs: "gs = pre @ sg # post" and s: "start = End (snd sg)" "start < endp"
    and e: "endp < MaxByteCount" and m: "m = map_of q"
    and eg: "end_gap sg post endp eg inGap mid rest"
  shows "(replaceOld endp start False (q, rt) = None \<and> {start..<endp} \<inter> gap_region gs = {}) \<or>
         (\<exists>pos st. replaceOld endp start False (q, rt) = Some (pos, True, True, st) \<and> mid = None \<and> start < pos \<and> pos \<le> endp \<and>
            r \<le> start \<and> boundary m start \<and> boundary m pos \<and> map_of (fst st) = mdrop start pos m \<and> {start..<endp} \<inter> gap_region gs = {}) \<or>
         (\<exists>pos ms st. replaceOld endp start False (q, rt) = Some (pos, True, False, st) \<and> mid = Some ms \<and>
            start_stage r m start endp sg (hd (ms @ [eg])) start True (map_of (fst st)))"
proof -
  have ok: "gaps_ok r gs" using t by (simp add: tiling_def)
  note ti = tiling_tiles [OF t] and sb = gap_bounds [OF ok, of sg]
  have b: "boundary m start" using gap_boundary [OF t, of sg start] sb gs s by simp
  have pre: "\<forall>y\<in>set pre. End (snd y) < Start (snd sg)" and post: "\<forall>y\<in>set post. End (snd sg) < Start (snd y)"
    using ok gs by (auto simp: gaps_ok_def sorted_wrt_append)
  have r: "r \<le> start" using sb gs s by simp
  have "start \<notin> gap_region gs" using pre post sb gs s by (fastforce simp: gap_region_def)
  then have sq: "start \<in> queue_region m" using run_queued [OF t r] e s by simp
  show ?thesis
  proof (cases "replaceOld endp start False (q, rt)")
    case None
    then obtain e' where "map_of q start = Some e'" "endp \<le> start + blen e'" by (meson replaceOld_None)
    then have "{start..<endp} \<subseteq> queue_region m" using m by (auto intro: queue_regionI)
    with None gap_not_queued [OF t] show ?thesis by blast
  next
    case (Some res)
    obtain pos rep ce st where res: "res = (pos, rep, ce, st)" by (cases res) auto
    have run: "start \<le> pos" "pos \<le> endp" "{start..<pos} \<subseteq> queue_region m" "boundary m pos" "map_of (fst st) = mdrop start pos m"
      "rep \<longleftrightarrow> start < pos" "\<not> ce \<longrightarrow> pos \<notin> queue_region m" "ce \<longrightarrow> rep \<and> {pos..endp} \<subseteq> queue_region m"
      using replaceOld_run [OF _ _ _ Some] ti b s m res by (auto simp: replaced_run_def)
    have rep: "rep" "start < pos" using run(1,6,7,8) sq by (cases ce; auto simp: order_le_less)+
    show ?thesis
    proof (cases mid)
      case None
      have rest: "\<forall>y\<in>set post. endp < Start (snd y)" using eg None by (simp add: end_gap_def)
      have "pos \<notin> gap_region gs" using pre rest sb gs s rep run(2) by (fastforce simp: gap_region_def)
      then have "ce" using run_queued [OF t, of pos] run(2,7) r rep e by auto
      moreover from this have "{start..<endp} \<subseteq> queue_region m" using run(3,8) by fastforce
      ultimately show ?thesis using Some res rep run None r b gap_not_queued [OF t] by auto
    next
      case (Some ms)
      let ?y = "hd (ms @ [eg])"
      obtain tl where tl: "post = ?y # tl" using eg Some by (cases ms) (auto simp: end_gap_def)
      have yg: "?y \<in> set gs" using tl gs by simp
      have ye: "Start (snd ?y) \<le> endp"
        using eg Some ok gs by (cases ms) (auto simp: end_gap_def gaps_ok_def sorted_wrt_append)
      have yq: "Start (snd ?y) \<notin> queue_region m"
        using gap_not_queued [OF t gap_regionI, of ?y "Start (snd ?y)"] gap_bounds [OF ok yg] yg by simp
      have sy: "start < Start (snd ?y)" using post tl s by simp
      have le: "pos \<le> Start (snd ?y)" using run(3) yq sy by (meson atLeastLessThan_iff le_less_linear less_imp_le subsetD)
      then have ce: "\<not> ce" using run(8) yq ye by force
      have "\<not> pos < Start (snd ?y)"
        using between_gaps [of r pre sg ?y tl pos] ok gs tl s rep run_queued [OF t, of pos] run(7) ce r
          gap_bounds [OF ok yg] by auto
      with le have "pos = Start (snd ?y)" by simp
      then show ?thesis
        using \<open>replaceOld endp start False (q, rt) = Some res\<close> res ce rep run b r s Some by (auto simp: start_stage_def)
    qed
  qed
qed

section \<open>The gaps after a push\<close>

text \<open>
  The entry \<open>{a..<b}\<close> is stored for the frame \<open>{start..<endp}\<close>: it contains every missing byte
  of the frame, the gaps lose exactly it, and the queued frames that start in it go.
\<close>

definition effect ::
  "int \<Rightarrow> byteInterval linked \<Rightarrow> (int \<rightharpoonup> frameSorterEntry) \<Rightarrow> int \<Rightarrow> int \<Rightarrow> int \<Rightarrow> int \<Rightarrow> byteInterval linked \<Rightarrow> (int \<rightharpoonup> frameSorterEntry) \<Rightarrow> bool"
where
  "effect r gs m start endp a b gs' m' \<longleftrightarrow>
     r \<le> a \<and> start \<le> a \<and> a < b \<and> b \<le> endp \<and> {start..<endp} \<inter> gap_region gs \<subseteq> {a..<b} \<and>
     gaps_ok r gs' \<and> gap_region gs' = gap_region gs - {a..<b} \<and>
     boundary m a \<and> boundary m b \<and> m' = mdrop a b m \<and> length gs' \<le> Suc (length gs)"

text \<open>Replacing one gap, or a stretch of gaps, by the parts that remain.\<close>

lemma gaps_ok_replace:
  assumes ok: "gaps_ok r (pre @ old @ post)" and old: "old \<noteq> []"
    and new: "sorted_wrt (\<lambda>x y. End (snd x) < Start (snd y)) new" "distinct (map fst new)"
      "\<forall>x\<in>set new. Start (snd (hd old)) \<le> Start (snd x) \<and> Start (snd x) < End (snd x) \<and> End (snd x) \<le> End (snd (last old))"
      "\<forall>x\<in>set new. fst x \<notin> fst ` set (pre @ post)"
    and last: "if post = [] then new \<noteq> [] \<and> End (snd (last new)) = End (snd (last old)) else True"
  shows "gaps_ok r (pre @ new @ post)"
proof -
  have h: "hd old \<in> set old" "last old \<in> set old" using old by auto
  have "\<forall>x\<in>set pre. End (snd x) < Start (snd (hd old))" "\<forall>x\<in>set post. End (snd (last old)) < Start (snd x)"
    "r \<le> Start (snd (hd old))"
    using ok h by (auto simp: gaps_ok_def sorted_wrt_append)
  then have "\<forall>x\<in>set pre. \<forall>y\<in>set new. End (snd x) < Start (snd y)" "\<forall>x\<in>set new. \<forall>y\<in>set post. End (snd x) < Start (snd y)"
    "\<forall>x\<in>set new. r \<le> Start (snd x)"
    using new(3) by force+
  moreover have "End (snd (last (pre @ new @ post))) = MaxByteCount" "pre @ new @ post \<noteq> []"
    using ok last old by (auto simp: gaps_ok_def split: if_splits)
  moreover have "distinct (map fst (pre @ new @ post))"
  proof -
    have "set (map fst new) \<inter> set (map fst (pre @ post)) = {}" using new(4) by auto
    then show ?thesis using ok new(2) by (simp add: gaps_ok_def) blast
  qed
  moreover have "sorted_wrt (\<lambda>x y. End (snd x) < Start (snd y)) pre" "sorted_wrt (\<lambda>x y. End (snd x) < Start (snd y)) post"
    "\<forall>x\<in>set pre. \<forall>y\<in>set post. End (snd x) < Start (snd y)" "\<forall>x\<in>set (pre @ post). r \<le> Start (snd x) \<and> Start (snd x) < End (snd x)"
    using ok by (simp_all add: gaps_ok_def sorted_wrt_append ball_Un)
  ultimately show ?thesis
    using new(1,3) unfolding gaps_ok_def sorted_wrt_append by (simp add: ball_Un)
qed

text \<open>The parts of a gap that remain outside of \<open>{a..<b}\<close>.\<close>

lemma effect_one_gap:
  assumes t: "tiling r gs m" and gs: "gs = pre @ sg # post" and pre: "\<forall>y\<in>set pre. End (snd y) < start"
    and eg: "end_gap sg post endp sg inGap None post" and e: "endp < MaxByteCount" "Start (snd sg) < endp" "start < endp"
    and st: "start_stage r m start endp sg nx a rep m'" and a: "a < End (snd sg)" "start \<le> End (snd sg)"
      "start < Start (snd sg) \<or> a = start"
    and b: "b = min endp (End (snd sg))"
    and new: "new = (if Start (snd sg) < a then [(fst sg, (snd sg)\<lparr>End := a\<rparr>)] else []) @
                    (if b < End (snd sg) then [(k, \<lparr>Start = b, End = End (snd sg)\<rparr>)] else [])"
    and k: "k \<notin> fst ` set (pre @ post)" "Start (snd sg) < a \<longrightarrow> k \<noteq> fst sg"
  shows "effect r gs m start endp a b (pre @ new @ post) m'"
proof -
  have ok: "gaps_ok r gs" using t by (simp add: tiling_def)
  have sgs: "sg \<in> set gs" using gs by simp
  note sb = gap_bounds [OF ok sgs]
  have ab: "a < b" "Start (snd sg) < b" using st a b e sb by (auto simp: start_stage_def)
  have m': "m' = mdrop a b m"
    using st a(1) b sb e mdrop_over_gap [OF t sgs, of "Start (snd sg)" b a] mdrop_over_gap [OF t sgs, of a b a] ab
    by (auto simp: start_stage_def)
  have d: "fst sg \<notin> fst ` set pre" "fst sg \<notin> fst ` set post" using ok gs by (auto simp: gaps_ok_def)
  have lst: "post = [] \<longrightarrow> b < End (snd sg)" using ok gs b e by (auto simp: gaps_ok_def)
  have "gaps_ok r (pre @ new @ post)"
    by (rule gaps_ok_replace [of r pre "[sg]" post])
      (use ok gs new sb ab a k d lst in \<open>auto split: if_splits\<close>)
  moreover have new': "gap_region new = {Start (snd sg)..<End (snd sg)} - {a..<b}"
    using new ab a b by auto
  moreover have out: "gap_region pre \<inter> {start..<endp} = {}" "gap_region post \<inter> {start..<endp} = {}"
    using pre eg by (fastforce simp: gap_region_def end_gap_def)+
  moreover have sa: "start \<le> a" "r \<le> a" "boundary m a" using st by (auto simp: start_stage_def)
  moreover have sub: "{a..<b} \<subseteq> {start..<endp}" using sa b by auto
  have "{start..<endp} \<inter> {Start (snd sg)..<End (snd sg)} \<subseteq> {a..<b}"
    using a(3) st b by (auto simp: start_stage_def)
  then have "{start..<endp} \<inter> gap_region gs \<subseteq> {a..<b}" unfolding gs using out by auto
  moreover have "gap_region (pre @ new @ post) = gap_region gs - {a..<b}"
    unfolding gs using out sub new' by auto
  moreover have "boundary m b" using gap_boundary [OF t sgs, of b] ab b by simp
  moreover have "b \<le> endp" using b by simp
  moreover have "length (pre @ new @ post) \<le> Suc (length gs)" using new gs by simp
  ultimately show ?thesis
    unfolding effect_def using ab m' by blast
qed

lemma deleted_between:
  assumes t: "tiling r gs m" and gs: "gs = pre @ sg # ms @ eg # rest"
    and st: "start_stage r m start endp sg (hd (ms @ [eg])) a rep (map_of (fst st))"
  shows "map_of (fst (delete_runs ms (deleteConsecutive (End (snd sg)) st))) = mdrop a (Start (snd eg)) m"
proof -
  let ?y = "hd (ms @ [eg])"
  obtain tl where tl: "ms @ eg # rest = ?y # tl" by (cases ms) auto
  have ok: "gaps_ok r gs" and sgs: "sg \<in> set gs" using t gs by (simp_all add: tiling_def)
  note sb = gap_bounds [OF ok sgs]
  have sy: "End (snd sg) < Start (snd ?y)" using ok gs tl by (simp add: gaps_ok_def sorted_wrt_append)
  have ae: "a \<le> End (snd sg)" using st sb by (auto simp: start_stage_def)
  have "map_of (fst (deleteConsecutive (End (snd sg)) st)) = mdrop a (Start (snd ?y)) m"
  proof (cases "a = End (snd sg)")
    case True
    then have "map_of (fst st) = mdrop a (Start (snd ?y)) m" using st sb by (auto simp: start_stage_def)
    moreover from this have "map_of (fst st) (End (snd sg)) = None" using True sy by (simp add: mdrop_def)
    ultimately show ?thesis by (cases st) (simp add: deleteConsecutive.simps)
  next
    case False
    then have "map_of (fst st) = mdrop a (End (snd sg)) m"
      using st sb mdrop_over_gap [OF t sgs, of "Start (snd sg)" "End (snd sg)" a] mdrop_over_gap [OF t sgs, of a "End (snd sg)" a]
      by (auto simp: start_stage_def)
    then show ?thesis using deleteConsecutive_gap [OF t, of pre sg ?y tl] gs tl ae by simp
  qed
  then show ?thesis
    using delete_runs [OF t, of "pre @ [sg]" ms eg rest] gs ae sy by simp
qed

lemma effect_gaps:
  assumes t: "tiling r gs m" and gs: "gs = pre @ sg # ms @ eg # rest" and pre: "\<forall>y\<in>set pre. End (snd y) < start"
    and eg: "end_gap sg (ms @ eg # rest) endp eg inGap (Some ms) rest" and e: "endp < MaxByteCount"
    and st: "start_stage r m start endp sg (hd (ms @ [eg])) a rep m1"
    and a: "start < Start (snd sg) \<or> a = start"
    and b: "b = min endp (End (snd eg))"
    and new: "new = (if Start (snd sg) < a then [(fst sg, (snd sg)\<lparr>End := a\<rparr>)] else []) @
                    (if b < End (snd eg) then [(fst eg, (snd eg)\<lparr>Start := b\<rparr>)] else [])"
  shows "effect r gs m start endp a b (pre @ new @ rest) (mdrop a (Start (snd eg)) m)"
proof -
  have ok: "gaps_ok r gs" using t by (simp add: tiling_def)
  have sgs: "sg \<in> set gs" "eg \<in> set gs" using gs by simp_all
  note sb = gap_bounds [OF ok sgs(1)] and eb = gap_bounds [OF ok sgs(2)]
  have se: "End (snd sg) < Start (snd eg)" "\<forall>x\<in>set ms. End (snd sg) < Start (snd x) \<and> End (snd x) < Start (snd eg)"
    "fst sg \<noteq> fst eg" "fst sg \<notin> fst ` set (pre @ rest)" "fst eg \<notin> fst ` set (pre @ rest)"
    using ok gs by (auto simp: gaps_ok_def sorted_wrt_append)
  have e': "Start (snd eg) \<le> endp" "\<forall>y\<in>set rest. endp < Start (snd y)" using eg by (auto simp: end_gap_def)
  have ab: "a \<le> End (snd sg)" "Start (snd eg) \<le> b" "a < b" "b \<le> endp" "b \<le> End (snd eg)"
    using st b e' se sb eb by (auto simp: start_stage_def)
  have lst: "rest = [] \<longrightarrow> b < End (snd eg)" using ok gs b e by (auto simp: gaps_ok_def)
  have "gaps_ok r (pre @ new @ rest)"
    by (rule gaps_ok_replace [of r pre "sg # ms @ [eg]" rest])
      (use ok gs new sb eb ab se lst in \<open>auto split: if_splits\<close>)
  moreover have new': "gap_region new = gap_region (sg # ms @ [eg]) - {a..<b}"
    using new ab se(1,2) st by (fastforce simp: gap_region_def start_stage_def)
  moreover have out: "gap_region pre \<inter> {start..<endp} = {}" "gap_region rest \<inter> {start..<endp} = {}"
    using pre e'(2) by (fastforce simp: gap_region_def)+
  moreover have sa: "start \<le> a" "r \<le> a" "boundary m a" using st by (auto simp: start_stage_def)
  moreover have sub: "{a..<b} \<subseteq> {start..<endp}" using sa ab by auto
  have "{start..<endp} \<inter> gap_region (sg # ms @ [eg]) \<subseteq> {a..<b}"
    using a st b ab se(1,2) by (fastforce simp: gap_region_def start_stage_def)
  then have "{start..<endp} \<inter> gap_region gs \<subseteq> {a..<b}" unfolding gs using out by auto
  moreover have "gap_region (pre @ new @ rest) = gap_region gs - {a..<b}"
    unfolding gs using out sub new' by auto
  moreover have "boundary m b" using gap_boundary [OF t sgs(2), of b] ab by simp
  moreover have "mdrop a (Start (snd eg)) m = mdrop a b m" using mdrop_over_gap [OF t sgs(2)] ab by simp
  moreover have "length (pre @ new @ rest) \<le> Suc (length gs)" using new gs by simp
  ultimately show ?thesis
    unfolding effect_def using ab by blast
qed

section \<open>What a push does\<close>

definition push_effect ::
  "bytes \<Rightarrow> int \<Rightarrow> nat option \<Rightarrow> frameSorter \<Rightarrow> fs_panic + (fs_error option \<times> frameSorter) \<Rightarrow> bool" where
  "push_effect data start frame s res \<longleftrightarrow>
     (let endp = start + int (length data) in
      (res = Inr (Some errDuplicateStreamData, s) \<and> {start..<endp} \<inter> gap_region (gaps s) = {}) \<or>
      (\<exists>a b wc st gs. res = Inr (storeFrame a (take (nat (b - a)) (drop (nat (a - start)) data)) frame wc st gs s) \<and>
         effect (readPos s) (gaps s) (map_of (queue s)) start endp a b gs (map_of (fst st)) \<and>
         same_owner (queue s, returned s) st))"

lemma slice_from_drop: "start \<le> a \<Longrightarrow> a \<le> start + int (length d) \<Longrightarrow> slice_from (a - start) d = Inr (drop (nat (a - start)) d)"
  by (simp add: slice_from_def)

lemma push_overlap_eval:
  assumes rep: "replaceOld endp start False (queue s, returned s) = Some (pos, rep, False, st)"
    and len: "endp = start + int (length data)"
    and a: "a = (if \<not> startsInGap \<and> \<not> rep then Start (snd sg) else start)" "start \<le> a" "a < b"
    and adj: "adjustStartGap a endp rep sg (gaps s) = (gs1, adj)"
    and dc: "dropCovered (fst sg = fst eg) (End (snd sg)) (Start (snd eg)) (tl (list_from (fst sg) (gaps s))) st gs1 = Inr (stx, gsx)"
    and b: "b = min endp (End (snd eg))" and eg: "inGap \<longleftrightarrow> endp < End (snd eg)"
  shows "\<exists>wc. push_overlap data start endp frame sg startsInGap eg inGap s =
           Inr (storeFrame a (take (nat (b - a)) (drop (nat (a - start)) data)) frame wc stx
             (adjustEndGap b (fst sg = fst eg) adj (fst sg) (End (snd sg)) (fst eg) (End (snd eg)) gsx) s)"
proof -
  let ?d = "drop (nat (a - start)) data"
  have ale: "a \<le> start + int (length data)" using a(3) b len by simp
  have front: "(if \<not> startsInGap \<and> \<not> rep then slice_from (Start (snd sg) - start) data else Inr data) = Inr ?d"
    using slice_from_drop [OF a(2) ale] a(1) by (cases "\<not> startsInGap \<and> \<not> rep") auto
  let ?cb = "\<not> inGap \<and> a \<noteq> End (snd eg) \<and> End (snd eg) < endp"
  have l: "int (length ?d) = endp - a" using a(2) ale len by (simp add: of_nat_diff)
  have behind: "(if ?cb then slice_to (End (snd eg) - a) ?d else Inr ?d) = Inr (take (nat (b - a)) ?d)"
  proof (cases ?cb)
    case True
    then show ?thesis using l a(3) b by (simp add: slice_to_def)
  next
    case False
    then have "b = endp" using a(3) b eg by (auto simp: min_def split: if_splits)
    then have "length ?d \<le> nat (b - a)" using l by linarith
    then show ?thesis unfolding if_not_P [OF False] by (simp only: take_all)
  qed
  have b': "(if ?cb then End (snd eg) else endp) = b" using a(3) b eg by (auto simp: min_def split: if_splits)
  show ?thesis
    unfolding push_overlap_def Let_def rep option.case prod.case if_False rbind_Inr front
      a(1) [symmetric] adj dc behind b'
    by (simp only: simp_thms) blast
qed

lemma gaps_after_one:
  assumes d: "distinct (map fst (pre @ sg # post))" and a: "a < End (snd sg)" "Start (snd sg) < a \<longrightarrow> \<not> rep"
    and b: "b = min endp (End (snd sg))" and adj: "adjustStartGap a endp rep sg (pre @ sg # post) = (gs1, adj)"
  shows "\<exists>k. adjustEndGap b True adj (fst sg) (End (snd sg)) (fst sg) (End (snd sg)) gs1 =
             pre @ ((if Start (snd sg) < a then [(fst sg, (snd sg)\<lparr>End := a\<rparr>)] else []) @
                    (if b < End (snd sg) then [(k, \<lparr>Start = b, End = End (snd sg)\<rparr>)] else [])) @ post \<and>
             k \<notin> fst ` set (pre @ post) \<and> (Start (snd sg) < a \<longrightarrow> k \<noteq> fst sg)"
proof (cases "Start (snd sg) < a")
  case True
  let ?sg = "(fst sg, (snd sg)\<lparr>End := a\<rparr>)"
  have gs1: "gs1 = pre @ ?sg # post" "adj" using True adj a d by (auto simp: adjustStartGap_def)
  have d': "distinct (map fst (pre @ ?sg # post))" using d by simp
  have "fresh_addr (pre @ ?sg # post) \<notin> fst ` set (pre @ ?sg # post)" by (rule fresh_addr_notin)
  then show ?thesis
    using True gs1 b list_InsertAfter_split [OF d'] 
    by (intro exI [of _ "fresh_addr (pre @ ?sg # post)"]) (auto simp: adjustEndGap_def)
next
  case False
  have r: "(snd sg)\<lparr>Start := endp\<rparr> = \<lparr>Start = endp, End = End (snd sg)\<rparr>" by simp
  show ?thesis
    using False adj b d r
    by (intro exI [of _ "fst sg"]) (auto simp: adjustStartGap_def adjustEndGap_def split: if_splits)
qed

lemma gaps_after_several:
  assumes d: "distinct (map fst (pre @ sg # ms @ eg # rest))"
    and a: "a \<le> End (snd sg)" "Start (snd sg) < a \<longrightarrow> rep \<longrightarrow> a = End (snd sg)" "End (snd sg) \<le> endp"
    and adj: "adjustStartGap a endp rep sg (pre @ sg # ms @ eg # rest) = (gs1, adj)"
    and b: "b \<le> End (snd eg)"
  shows "adjustEndGap b False adj (fst sg) (End (snd sg)) (fst eg) (End (snd eg)) (filter (\<lambda>x. fst x \<notin> fst ` set ms) gs1) =
         pre @ ((if Start (snd sg) < a then [(fst sg, (snd sg)\<lparr>End := a\<rparr>)] else []) @
                (if b < End (snd eg) then [(fst eg, (snd eg)\<lparr>Start := b\<rparr>)] else [])) @ rest"
proof -
  let ?l = "if Start (snd sg) < a then [(fst sg, (snd sg)\<lparr>End := a\<rparr>)] else []"
  have "gs1 = pre @ ?l @ ms @ eg # rest"
    using adj a d by (auto simp: adjustStartGap_def split: if_splits)
  moreover have flt: "filter (\<lambda>x. fst x \<notin> fst ` set ms) l = l" if "fst ` set ms \<inter> fst ` set l = {}" for l
    using that by (induction l) auto
  have "filter (\<lambda>x. fst x \<notin> fst ` set ms) pre = pre" "filter (\<lambda>x. fst x \<notin> fst ` set ms) rest = rest"
    using d by (intro flt, auto)+
  moreover have "filter (\<lambda>x. fst x \<notin> fst ` set ms) ms = []" by (auto simp: filter_empty_conv)
  ultimately have f: "filter (\<lambda>x. fst x \<notin> fst ` set ms) gs1 = (pre @ ?l) @ eg # rest"
    using d \<open>filter (\<lambda>x. fst x \<notin> fst ` set ms) ms = []\<close> by simp
  have "distinct (map fst ((pre @ ?l) @ eg # rest))" using d by auto
  from list_Remove_split [OF this] show ?thesis
    unfolding f adjustEndGap_def using d b by auto
qed

text \<open>The invariant of the sorter.\<close>

definition fs_inv :: "frameSorter \<Rightarrow> bool" where
  "fs_inv s \<longleftrightarrow> 0 \<le> readPos s \<and> mwf (queue s) \<and> length (gaps s) \<le> MaxStreamFrameSorterGaps \<and>
     tiling (readPos s) (gaps s) (map_of (queue s))"

lemma push_effectI:
  assumes "endp = start + int (length data)"
    and "res = Inr (storeFrame a (take (nat (b - a)) (drop (nat (a - start)) data)) frame wc st gs s)"
    and "effect (readPos s) (gaps s) (map_of (queue s)) start endp a b gs (map_of (fst st))"
    and "same_owner (queue s, returned s) st"
  shows "push_effect data start frame s res"
  using assms unfolding push_effect_def Let_def by blast

lemma push_overlap_one_stage:
  assumes t: "tiling (readPos s) (gaps s) (map_of (queue s))" and gs: "gaps s = pre @ sg # post"
    and pre: "\<forall>y\<in>set pre. End (snd y) < start" and s: "start < endp" "start \<le> End (snd sg)"
    and e: "endp < MaxByteCount" "Start (snd sg) < endp" and len: "endp = start + int (length data)"
    and eg: "end_gap sg post endp sg inGap None post"
    and rep: "replaceOld endp start False (queue s, returned s) = Some (pos, rep, False, st)"
    and st: "start_stage (readPos s) (map_of (queue s)) start endp sg nx a rep (map_of (fst st))"
    and a: "a = (if \<not> Start (snd sg) \<le> start \<and> \<not> rep then Start (snd sg) else start)" "a < End (snd sg)"
  shows "push_effect data start frame s (push_overlap data start endp frame sg (Start (snd sg) \<le> start) sg inGap s)"
proof -
  let ?e = "min endp (End (snd sg))"
  have d: "distinct (map fst (pre @ sg # post))" using t gs by (simp add: tiling_def gaps_ok_def)
  have inG: "inGap \<longleftrightarrow> endp < End (snd sg)" using eg by (simp add: end_gap_def)
  obtain gs1 adj where adj: "adjustStartGap a endp rep sg (pre @ sg # post) = (gs1, adj)" by fastforce
  have sa: "start \<le> a" "a < ?e" "Start (snd sg) < a \<longrightarrow> \<not> rep" "start < Start (snd sg) \<or> a = start"
    using st a s e by (auto simp: start_stage_def)
  obtain k where k: "adjustEndGap ?e True adj (fst sg) (End (snd sg)) (fst sg) (End (snd sg)) gs1 =
           pre @ ((if Start (snd sg) < a then [(fst sg, (snd sg)\<lparr>End := a\<rparr>)] else []) @
                  (if ?e < End (snd sg) then [(k, \<lparr>Start = ?e, End = End (snd sg)\<rparr>)] else [])) @ post"
           "k \<notin> fst ` set (pre @ post)" "Start (snd sg) < a \<longrightarrow> k \<noteq> fst sg"
    using gaps_after_one [OF d a(2) sa(3) refl adj] by blast
  have "adjustStartGap a endp rep sg (gaps s) = (gs1, adj)" using adj gs by simp
  from push_overlap_eval [OF rep len a(1) sa(1,2) this, of sg st gs1 inGap frame] inG obtain wc where
    "push_overlap data start endp frame sg (Start (snd sg) \<le> start) sg inGap s =
         Inr (storeFrame a (take (nat (?e - a)) (drop (nat (a - start)) data)) frame wc st
           (adjustEndGap ?e True adj (fst sg) (End (snd sg)) (fst sg) (End (snd sg)) gs1) s)"
    by (auto simp: dropCovered_def)
  then show ?thesis unfolding k(1)
    by (rule push_effectI [OF len _ effect_one_gap [OF t gs pre eg e s(1) st a(2) s(2) sa(4) refl refl k(2,3)]
          replaceOld_owner [OF rep]])
qed

text \<open>The frame starts right behind a gap and ends inside a frame queued there.\<close>

lemma push_overlap_cut:
  assumes ok: "gaps_ok (readPos s) (gaps s)" and sg: "start = End (snd sg)" "Start (snd sg) < End (snd sg)"
    and cut: "replaceOld endp start False (queue s, returned s) = Some (pos, True, True, st)" "start < pos" "pos \<le> endp"
      "readPos s \<le> start" "boundary (map_of (queue s)) start" "boundary (map_of (queue s)) pos"
      "map_of (fst st) = mdrop start pos (map_of (queue s))" "{start..<endp} \<inter> gap_region (gaps s) = {}"
    and len: "endp = start + int (length data)"
  shows "push_effect data start frame s (push_overlap data start endp frame sg (Start (snd sg) \<le> start) sg inGap s)"
proof (rule push_effectI [OF len])
  show "push_overlap data start endp frame sg (Start (snd sg) \<le> start) sg inGap s =
        Inr (storeFrame start (take (nat (pos - start)) (drop (nat (start - start)) data)) frame True st (gaps s) s)"
    using cut(1-3) sg len
    by (simp add: push_overlap_def slice_to_def adjustStartGap_def dropCovered_def adjustEndGap_def Let_def)
  have "gap_region (gaps s) \<inter> {start..<pos} = {}" using cut(3,8) by fastforce
  then have "gap_region (gaps s) = gap_region (gaps s) - {start..<pos}" by blast
  then show "effect (readPos s) (gaps s) (map_of (queue s)) start endp start pos (gaps s) (map_of (fst st))"
    using cut ok by (simp add: effect_def)
  show "same_owner (queue s, returned s) st" by (rule replaceOld_owner [OF cut(1)])
qed

lemma push_overlap_one:
  assumes t: "tiling (readPos s) (gaps s) (map_of (queue s))" and gs: "gaps s = pre @ sg # post"
    and pre: "\<forall>y\<in>set pre. End (snd y) < start" and s: "start < endp" "start \<le> End (snd sg)"
    and e: "endp < MaxByteCount" "Start (snd sg) < endp" and len: "endp = start + int (length data)"
    and eg: "end_gap sg post endp sg inGap None post"
  shows "push_effect data start frame s (push_overlap data start endp frame sg (Start (snd sg) \<le> start) sg inGap s)"
proof -
  have ok: "gaps_ok (readPos s) (gaps s)" and sgs: "sg \<in> set (gaps s)" using t gs by (simp_all add: tiling_def)
  note sb = gap_bounds [OF ok sgs] and stage = push_overlap_one_stage [OF t gs pre s e len eg]
  consider "Start (snd sg) \<le> start" "start < End (snd sg)" | "start < Start (snd sg)" | "start = End (snd sg)"
    using s by linarith
  then show ?thesis
  proof cases
    case 1
    then show ?thesis
      by (intro stage [OF start_inside(1) [OF t sgs 1 refl], of sg start]) (use start_inside(2) [OF t sgs 1 refl] in auto)
  next
    case 2
    from start_before [OF t gs 2 e(2) pre refl, of "returned s" sg] obtain pos rep st where
      "replaceOld endp start False (queue s, returned s) = Some (pos, rep, False, st)"
      "start_stage (readPos s) (map_of (queue s)) start endp sg sg (if rep then start else Start (snd sg)) rep (map_of (fst st))"
      by blast
    from stage [OF this] show ?thesis using 2 sb by simp
  next
    case 3
    from start_behind [OF t gs 3 s(1) e(1) refl eg, of "returned s"]
    consider "replaceOld endp start False (queue s, returned s) = None" "{start..<endp} \<inter> gap_region (gaps s) = {}"
      | pos st where "replaceOld endp start False (queue s, returned s) = Some (pos, True, True, st)" "start < pos" "pos \<le> endp"
          "readPos s \<le> start" "boundary (map_of (queue s)) start" "boundary (map_of (queue s)) pos"
          "map_of (fst st) = mdrop start pos (map_of (queue s))" "{start..<endp} \<inter> gap_region (gaps s) = {}"
      by auto
    then show ?thesis
    proof cases
      case 1
      then show ?thesis by (simp add: push_overlap_def push_effect_def len)
    next
      case 2
      show ?thesis by (rule push_overlap_cut [OF ok 3 sb(2) 2 len])
    qed
  qed
qed

lemma push_overlap_several:
  assumes t: "tiling (readPos s) (gaps s) (map_of (queue s))" and gs: "gaps s = pre @ sg # ms @ eg # rest"
    and pre: "\<forall>y\<in>set pre. End (snd y) < start" and s: "start < endp" "start \<le> End (snd sg)"
    and e: "endp < MaxByteCount" and len: "endp = start + int (length data)"
    and eg: "end_gap sg (ms @ eg # rest) endp eg inGap (Some ms) rest"
  shows "push_effect data start frame s (push_overlap data start endp frame sg (Start (snd sg) \<le> start) eg inGap s)"
proof -
  let ?e = "min endp (End (snd eg))"
  have ok: "gaps_ok (readPos s) (gaps s)" and sgs: "sg \<in> set (gaps s)" "eg \<in> set (gaps s)" using t gs by (simp_all add: tiling_def)
  note sb = gap_bounds [OF ok sgs(1)] and eb = gap_bounds [OF ok sgs(2)]
  have d: "distinct (map fst (pre @ sg # ms @ eg # rest))" using ok gs by (simp add: gaps_ok_def)
  have ms: "\<forall>x\<in>set ms. End (snd x) < Start (snd eg)" "End (snd sg) < Start (snd eg)"
    using ok gs by (auto simp: gaps_ok_def sorted_wrt_append)
  have inG: "inGap \<longleftrightarrow> endp < End (snd eg)" "Start (snd eg) \<le> endp" "End (snd sg) \<le> endp" using eg by (auto simp: end_gap_def)
  have main: ?thesis if rep: "replaceOld endp start False (queue s, returned s) = Some (pos, rep, False, st)"
      and st: "start_stage (readPos s) (map_of (queue s)) start endp sg (hd (ms @ [eg])) a rep (map_of (fst st))"
      and a: "a = (if \<not> Start (snd sg) \<le> start \<and> \<not> rep then Start (snd sg) else start)"
    for pos rep st a
  proof -
    obtain gs1 adj where adj: "adjustStartGap a endp rep sg (pre @ sg # ms @ eg # rest) = (gs1, adj)" by fastforce
    have sa: "start \<le> a" "a < ?e" "a \<le> End (snd sg)" "Start (snd sg) < a \<longrightarrow> rep \<longrightarrow> a = End (snd sg)" "start < Start (snd sg) \<or> a = start"
      using st a s inG ms sb eb by (auto simp: start_stage_def)
    let ?st = "delete_runs ms (deleteConsecutive (End (snd sg)) st)"
    have "dropCovered (fst sg = fst eg) (End (snd sg)) (Start (snd eg)) (tl (list_from (fst sg) (gaps s))) st gs1 =
          Inr (?st, filter (\<lambda>x. fst x \<notin> fst ` set ms) gs1)"
      using dropGaps_run [OF ms(1), of eg rest] eb d gs by (auto simp: dropCovered_def)
    from push_overlap_eval [OF rep len a sa(1,2) _ this refl inG(1), of adj frame] adj gs d
      gaps_after_several [OF d sa(3,4) inG(3) adj, of ?e] obtain wc where
      "push_overlap data start endp frame sg (Start (snd sg) \<le> start) eg inGap s =
        Inr (storeFrame a (take (nat (?e - a)) (drop (nat (a - start)) data)) frame wc ?st
          (pre @ ((if Start (snd sg) < a then [(fst sg, (snd sg)\<lparr>End := a\<rparr>)] else []) @
                (if ?e < End (snd eg) then [(fst eg, (snd eg)\<lparr>Start := ?e\<rparr>)] else [])) @ rest) s)"
      by auto
    then show ?thesis
    proof (rule push_effectI [OF len])
      show "same_owner (queue s, returned s) ?st"
        using replaceOld_owner [OF rep] deleteConsecutive_owner delete_runs_owner by (blast intro: same_owner_trans)
    qed (use effect_gaps [OF t gs pre eg e st sa(5) refl refl] deleted_between [OF t gs st] in simp)
  qed
  consider "Start (snd sg) \<le> start" "start < End (snd sg)" | "start < Start (snd sg)" | "start = End (snd sg)"
    using s by linarith
  then show ?thesis
  proof cases
    case 1
    then show ?thesis
      by (intro main [OF start_inside(1) [OF t sgs(1) 1 refl]]) (use start_inside(2) [OF t sgs(1) 1 refl] in auto)
  next
    case 2
    have "Start (snd sg) < endp" using inG(3) sb by simp
    from start_before [OF t gs 2 this pre refl, of "returned s" "hd (ms @ [eg])"] obtain pos rep st where
      "replaceOld endp start False (queue s, returned s) = Some (pos, rep, False, st)"
      "start_stage (readPos s) (map_of (queue s)) start endp sg (hd (ms @ [eg])) (if rep then start else Start (snd sg)) rep (map_of (fst st))"
      by blast
    from main [OF this] show ?thesis using 2 sb by simp
  next
    case 3
    from start_behind [OF t gs 3 s(1) e(1) refl eg, of "returned s"]
    consider "replaceOld endp start False (queue s, returned s) = None" "{start..<endp} \<inter> gap_region (gaps s) = {}"
      | pos st where "replaceOld endp start False (queue s, returned s) = Some (pos, True, False, st)"
          "start_stage (readPos s) (map_of (queue s)) start endp sg (hd (ms @ [eg])) start True (map_of (fst st))"
      by auto
    then show ?thesis
    proof cases
      case 1
      then show ?thesis by (simp add: push_overlap_def push_effect_def len)
    next
      case 2
      from main [OF this] show ?thesis by simp
    qed
  qed
qed

end
