(* ===== verification/Frame_Sorter_Run.thy ===== *)
theory Frame_Sorter_Run
  imports Frame_Sorter_Inv
begin

text \<open>
  Whole runs of the frame sorter: every operation keeps the invariant \<open>fs_inv\<close>, whatever the
  peer sends; when the frames are cut from one stream, what \<open>Pop\<close> returns is that stream, and
  nothing that arrived is lost; every frame buffer is owned by exactly one party.
\<close>

lemma storeFrame_fields [simp]:
  "readPos (snd (storeFrame a d f wc st gs s)) = readPos s"
  "gaps (snd (storeFrame a d f wc st gs s)) = gs"
  by (simp_all add: storeFrame_def Let_def)

lemma storeFrame_None:
  "fst (storeFrame a d f wc st gs s) = None \<Longrightarrow>
   length gs \<le> MaxStreamFrameSorterGaps \<and>
   (\<exists>e. Data e = d \<and> queue (snd (storeFrame a d f wc st gs s)) = mput a e (fst st))"
  by (rule conjI, simp add: storeFrame_def Let_def split: if_splits)
    (rule exI [of _ "\<lparr>Data = d, Frame = (if wc \<and> length d < MinStreamFrameBufferSize then None else f)\<rparr>"],
     simp add: storeFrame_def Let_def split: if_splits)

lemma push_fast_effect:
  assumes inv: "fs_inv s" and len: "endp = start + int (length data)" "data \<noteq> []" and e: "endp < MaxByteCount"
    and fast: "push_fast data start endp frame s = Some s'"
  shows "push_effect data start frame s (Inr (None, s'))"
proof -
  from fast obtain x post where gs: "gaps s = x # post" and x: "Start (snd x) = start" "endp \<le> End (snd x)" "start = readPos s"
    and s': "s' = s\<lparr>gaps := (if endp = End (snd x) then list_Remove (fst x) (gaps s) else elem_set (fst x) (\<lambda>g. g\<lparr>Start := endp\<rparr>) (gaps s)),
                   queue := mput start \<lparr>Data = data, Frame = frame\<rparr> (queue s)\<rparr>"
    by (auto simp: push_fast_def list_Front_def split: if_splits list.splits option.splits)
  have t: "tiling (readPos s) (gaps s) (map_of (queue s))" using inv by (simp add: fs_inv_def)
  have xlt: "Start (snd x) < End (snd x)" using t gs by (simp add: tiling_def gaps_ok_def)
  have d: "distinct (map fst ([] @ x # post))" using t gs by (simp add: tiling_def gaps_ok_def)
  let ?new = "if endp < End (snd x) then [(fst x, \<lparr>Start = endp, End = End (snd x)\<rparr>)] else []"
  have g: "gaps s' = [] @ ?new @ post"
    using s' x gs d list_Remove_split [OF d] by (auto simp: order_le_less)
  have later: "\<forall>y\<in>set post. End (snd x) < Start (snd y)" using t gs by (simp add: tiling_def gaps_ok_def)
  have "end_gap x post endp x (endp < End (snd x)) None post"
    using x len later by (fastforce simp: end_gap_def)
  moreover have "start_stage (readPos s) (map_of (queue s)) start endp x x start False (map_of (queue s))"
    using x gap_boundary [OF t, of x start] gs gap_bounds(2) [of "readPos s" "gaps s" x] t by (simp add: start_stage_def tiling_def)
  ultimately have "effect (readPos s) (gaps s) (map_of (queue s)) start endp start endp ([] @ ?new @ post) (map_of (queue s))"
    by (intro effect_one_gap [where sg = x and k = "fst x"]) (use t gs e x len d xlt in auto)
  moreover have "length (gaps s') \<le> MaxStreamFrameSorterGaps" using inv g gs by (auto simp: fs_inv_def split: if_splits)
  then have "(None, s') = storeFrame start data frame False (queue s, returned s) (gaps s') s"
    using s' by (simp add: storeFrame_def)
  ultimately show ?thesis
    using len g by (intro push_effectI [where a = start and b = endp and wc = False and st = "(queue s, returned s)" and gs = "gaps s'"]) auto
qed

lemma push_spec:
  assumes inv: "fs_inv s" and e: "start + int (length data) < MaxByteCount"
  shows "push_effect data start frame s (push data start frame s)"
proof (cases "data = []")
  case True
  then show ?thesis by (simp add: push_def push_effect_def)
next
  case False
  let ?e = "start + int (length data)"
  have t: "tiling (readPos s) (gaps s) (map_of (queue s))" using inv by (simp add: fs_inv_def)
  then have ok: "gaps_ok (readPos s) (gaps s)" by (simp add: tiling_def)
  have lt: "start < ?e" using False by simp
  have nil: "gaps s \<noteq> []" "start \<le> End (snd (last (gaps s)))" using ok e by (auto simp: gaps_ok_def)
  obtain pre sg post where gs: "gaps s = pre @ sg # post"
    and sg: "findStartGap start (gaps s) = Inr (sg, Start (snd sg) \<le> start)"
    and se: "start \<le> max (End (snd sg)) (Start (snd sg))" and pre: "\<forall>y\<in>set pre. End (snd y) < start"
    using findStartGap_split [OF nil] by blast
  have s2: "start \<le> End (snd sg)" using se gap_bounds(2) [OF ok, of sg] gs by simp
  have later: "\<forall>y\<in>set post. End (snd sg) < Start (snd y)" using ok gs by (simp add: gaps_ok_def sorted_wrt_append)
  have dup: "push_effect data start frame s (Inr (Some errDuplicateStreamData, s))" if le: "?e \<le> Start (snd sg)"
  proof -
    have "p \<notin> gap_region (gaps s)" if "start \<le> p" "p < ?e" for p
      using that le pre later gap_bounds(2) [OF ok, of sg] gs by (fastforce simp: gap_region_def)
    then show ?thesis unfolding push_effect_def Let_def by auto
  qed
  have d: "distinct (map fst (pre @ sg # post))" using ok gs by (simp add: gaps_ok_def)
  obtain front where front: "list_Front (gaps s) = Some front" "pre = [] \<longrightarrow> front = sg" "front \<in> set (pre @ [sg])"
    using gs by (cases pre) (auto simp: list_Front_def)
  show ?thesis
  proof (cases "push_fast data start ?e frame s")
    case (Some s')
    then show ?thesis using push_fast_effect [OF inv refl False e Some] False by (simp add: push_def)
  next
    case fast: None
    show ?thesis
    proof (cases "?e < Start (snd sg)")
      case True
      have "findEndGap (fst sg) ?e (gaps s) = Inr (elem_Prev (fst sg) (gaps s), False)"
        using True d gs by (simp add: findEndGap_def)
      moreover have "elem_Prev (fst sg) (gaps s) = (if pre = [] then None else Some (last pre))"
        using elem_Prev_split [OF d] gs by simp
      moreover have "fst sg \<noteq> fst (last pre) \<and> Start (snd (last pre)) \<le> End (snd sg)" if "pre \<noteq> []"
      proof -
        have l: "last pre \<in> set pre" using that by simp
        then have "End (snd (last pre)) < Start (snd sg)" using ok gs by (simp add: gaps_ok_def sorted_wrt_append)
        moreover have "fst sg \<noteq> fst (last pre)" using d l by (auto simp: image_iff)
        ultimately show ?thesis using gap_bounds(2) [OF ok, of "last pre"] gap_bounds(2) [OF ok, of sg] gs l by simp
      qed
      ultimately have "push data start frame s = Inr (Some errDuplicateStreamData, s)"
        using False fast front sg True by (auto simp: push_def Let_def)
      then show ?thesis using dup True by simp
    next
      case nlt: False
      then obtain eg inGap mid rest where eg: "findEndGap (fst sg) ?e (gaps s) = Inr (Some eg, inGap)"
        "end_gap sg post ?e eg inGap mid rest"
        using findEndGap_split [of "readPos s" pre sg post ?e] ok gs e by auto
      show ?thesis
      proof (cases "?e \<le> Start (snd sg)")
        case True
        have "mid = None" using True eg(2) gap_bounds(2) [OF ok, of sg] gs by (cases mid) (auto simp: end_gap_def)
        then have "push data start frame s = Inr (Some errDuplicateStreamData, s)"
          using False fast front sg eg True by (auto simp: push_def Let_def end_gap_def)
        then show ?thesis using dup True by simp
      next
        case gt: False
        have nf: "\<not> ?e \<le> Start (snd front)" using front(3) gt pre lt gs gap_bounds(2) [OF ok, of front] by (cases "front = sg") auto
        have p: "push data start frame s = push_overlap data start ?e frame sg (Start (snd sg) \<le> start) eg inGap s"
          using False fast front(1) sg eg(1) gt nf by (simp add: push_def Let_def)
        show ?thesis
        proof (cases mid)
          case None
          then show ?thesis unfolding p
            using push_overlap_one [OF t gs pre lt s2 e _ refl] gt eg(2) by (simp add: end_gap_def)
        next
          case (Some ms)
          then show ?thesis unfolding p
            using push_overlap_several [OF t _ pre lt s2 e refl] gs eg(2) by (simp add: end_gap_def)
        qed
      qed
    qed
  qed
qed

section \<open>Storing a frame and popping one keep the invariant\<close>

text \<open>The part of the stream received so far, read or not.\<close>

definition received :: "frameSorter \<Rightarrow> int set" where
  "received s = {0..<MaxByteCount} - gap_region (gaps s)"

text \<open>The queued frames hold the bytes of the stream \<open>S\<close>.\<close>

definition slice_of :: "(int \<Rightarrow> byte) \<Rightarrow> int \<Rightarrow> bytes \<Rightarrow> bool" where
  "slice_of S off d \<longleftrightarrow> (\<forall>i<length d. d ! i = S (off + int i))"

definition agrees :: "(int \<Rightarrow> byte) \<Rightarrow> frameSorter \<Rightarrow> bool" where
  "agrees S s \<longleftrightarrow> (\<forall>k e. map_of (queue s) k = Some e \<longrightarrow> slice_of S k (Data e))"

text \<open>The buffers the sorter holds or has handed back.\<close>

definition buffers :: "frameSorter \<Rightarrow> nat multiset" where
  "buffers s = frames_of (queue s) + mset (returned s)"

lemma slice_of_sub: "slice_of S off d \<Longrightarrow> slice_of S (off + int n) (take l (drop n d))"
  by (auto simp: slice_of_def add.assoc)

lemma tiling_store:
  assumes t: "tiling r gs m" and eff: "effect r gs m start endp a b gs' m'" and len: "blen e = b - a" and b: "b \<le> MaxByteCount"
  shows "tiling r gs' (m'(a \<mapsto> e))"
proof -
  from eff have ab: "r \<le> a" "a < b" "gaps_ok r gs'" "gap_region gs' = gap_region gs - {a..<b}"
    and bd: "boundary m a" "boundary m b" and m': "m' = mdrop a b m" by (auto simp: effect_def)
  note ti = tiling_tiles [OF t]
  have sep: "k + blen x \<le> a \<or> b \<le> k" if "m' k = Some x" for k x
    using that boundaryD [OF bd(1), of k x] by (auto simp: m' mdrop_Some)
  have "tiles (m'(a \<mapsto> e))"
    unfolding tiles_def
  proof (intro conjI allI impI)
    fix k x assume "(m'(a \<mapsto> e)) k = Some x"
    then show "0 < blen x" using ab len tiles_pos [OF ti, of k x] by (auto simp: m' mdrop_Some split: if_splits)
  next
    fix k x k' x' assume k: "(m'(a \<mapsto> e)) k = Some x" "(m'(a \<mapsto> e)) k' = Some x'" "k < k'"
    consider "k = a" "m' k' = Some x'" "x = e" | "k' = a" "m' k = Some x" | "m' k = Some x" "m' k' = Some x'"
      using k by (cases "k = a"; cases "k' = a") simp_all
    then show "k + blen x \<le> k'"
    proof cases
      case 1
      then show ?thesis using sep [of k' x'] len k(3) tiles_pos [OF ti, of k' x'] by (auto simp: m' mdrop_Some)
    next
      case 2
      then show ?thesis using sep [of k x] ab k(3) by auto
    next
      case 3
      then show ?thesis using tiles_le [OF ti, of k x k' x'] k(3) by (simp add: m' mdrop_Some)
    qed
  qed
  moreover have "queue_region (m'(a \<mapsto> e)) = queue_region m \<union> {a..<b}"
  proof (intro equalityI subsetI)
    fix p assume "p \<in> queue_region (m'(a \<mapsto> e))"
    then obtain k x where k: "(m'(a \<mapsto> e)) k = Some x" "k \<le> p" "p < k + blen x" by (rule queue_regionE)
    then show "p \<in> queue_region m \<union> {a..<b}"
      using len queue_regionI [of m k x p] by (auto simp: m' mdrop_Some split: if_splits)
  next
    fix p assume p: "p \<in> queue_region m \<union> {a..<b}"
    show "p \<in> queue_region (m'(a \<mapsto> e))"
    proof (cases "p \<in> {a..<b}")
      case True
      then show ?thesis using len by (intro queue_regionI [of _ a e]) auto
    next
      case False
      with p obtain k x where k: "m k = Some x" "k \<le> p" "p < k + blen x" by (auto elim: queue_regionE)
      have "\<not> (a \<le> k \<and> k < b)" using k False boundaryD [OF bd(2) k(1)] by auto
      then show ?thesis using k ab by (intro queue_regionI [of _ k x]) (auto simp: m' mdrop_Some)
    qed
  qed
  ultimately show ?thesis using t ab b by (auto simp: tiling_def)
qed

lemma push_inv:
  assumes inv: "fs_inv s" and e: "start + int (length data) < MaxByteCount"
    and p: "push data start frame s = Inr (None, s')"
  shows "fs_inv s'" "received s' = received s \<union> ({0..<MaxByteCount} \<inter> {start..<start + int (length data)})" "readPos s' = readPos s"
    "agrees S s \<Longrightarrow> slice_of S start data \<Longrightarrow> agrees S s'"
    "buffers s' = buffers s + mset (putBack frame [])" "length (gaps s') \<le> Suc (length (gaps s))"
proof -
  let ?e = "start + int (length data)" and ?m = "map_of (queue s)"
  have "push_effect data start frame s (Inr (None, s'))" using push_spec [OF inv e, of frame] p by simp
  then obtain a b wc st gs where res: "(None, s') = storeFrame a (take (nat (b - a)) (drop (nat (a - start)) data)) frame wc st gs s"
    and eff: "effect (readPos s) (gaps s) ?m start ?e a b gs (map_of (fst st))" and own: "same_owner (queue s, returned s) st"
    unfolding push_effect_def Let_def sum.inject prod.inject by blast
  let ?d = "take (nat (b - a)) (drop (nat (a - start)) data)"
  from eff have ab: "start \<le> a" "a < b" "b \<le> ?e" "{start..<?e} \<inter> gap_region (gaps s) \<subseteq> {a..<b}"
    "gap_region gs = gap_region (gaps s) - {a..<b}" "map_of (fst st) = mdrop a b ?m" by (auto simp: effect_def)
  have s': "s' = snd (storeFrame a ?d frame wc st gs s)" "fst (storeFrame a ?d frame wc st gs s) = None"
    by (simp_all add: res [symmetric])
  then obtain x where x: "Data x = ?d" "queue s' = mput a x (fst st)" "length gs \<le> MaxStreamFrameSorterGaps"
    using storeFrame_None by blast
  have g: "gaps s' = gs" and r: "readPos s' = readPos s" using s'(1) by simp_all
  show "readPos s' = readPos s" by (rule r)
  show "length (gaps s') \<le> Suc (length (gaps s))" using eff g by (simp add: effect_def)
  have bl: "blen x = b - a" using x ab by (simp add: blen_def)
  have mq: "map_of (queue s') = (map_of (fst st))(a \<mapsto> x)" using x by (auto simp: mget_mput)
  have wf: "mwf (fst st)" "frames_of (fst st) + mset (snd st) = buffers s" using own inv by (auto simp: same_owner_def fs_inv_def buffers_def)
  show "fs_inv s'"
    using inv tiling_store [OF _ eff bl] e ab x g r wf mq by (simp add: fs_inv_def)
  have sub: "{a..<b} \<subseteq> {start..<?e}" using ab(1,3) by auto
  have "gap_region gs = gap_region (gaps s) - {start..<?e}" unfolding ab(5) using ab(4) sub by blast
  then show "received s' = received s \<union> ({0..<MaxByteCount} \<inter> {start..<?e})"
    unfolding received_def g by (simp only:) blast
  show "agrees S s'" if ag: "agrees S s" "slice_of S start data"
  proof -
    have "slice_of S a ?d" using slice_of_sub [OF ag(2), of "nat (a - start)" "nat (b - a)"] ab by simp
    then show ?thesis using ag(1) x(1) ab(6) by (auto simp: agrees_def mq mdrop_Some)
  qed
  have "map_of (fst st) a = None" using ab by (simp add: mdrop_def)
  note fr = frames_of_mput [OF this]
  define c where "c \<longleftrightarrow> wc \<and> length ?d < MinStreamFrameBufferSize"
  have "queue s' = mput a \<lparr>Data = ?d, Frame = (if c then None else frame)\<rparr> (fst st)"
    "returned s' = (if c then putBack frame (snd st) else snd st)"
    using x(3) unfolding s'(1) storeFrame_def Let_def c_def by simp_all
  then have "buffers s' = frames_of (fst st) + mset (snd st) + mset (putBack frame [])"
    unfolding buffers_def using fr mset_putBack [of frame "snd st"] by (simp add: putBack_def [of None])
  then show "buffers s' = buffers s + mset (putBack frame [])" using wf(2) by simp
qed

lemma pop_inv:
  assumes inv: "fs_inv s"
  shows "map_of (queue s) (readPos s) = None \<Longrightarrow> Pop s = Inr ((readPos s, None, None), s)"
    and "map_of (queue s) (readPos s) = Some e \<Longrightarrow>
         \<exists>s'. Pop s = Inr ((readPos s, Some (Data e), Frame e), s') \<and> fs_inv s' \<and> gaps s' = gaps s \<and>
           readPos s' = readPos s + blen e \<and> (agrees S s \<longrightarrow> agrees S s') \<and>
           buffers s = buffers s' + mset (putBack (Frame e) [])"
proof -
  show "map_of (queue s) (readPos s) = None \<Longrightarrow> Pop s = Inr ((readPos s, None, None), s)" by (simp add: Pop_def)
  assume e: "map_of (queue s) (readPos s) = Some e"
  let ?m = "map_of (queue s)" and ?r = "readPos s" and ?r' = "readPos s + blen e"
  have t: "tiling ?r (gaps s) ?m" and wf: "mwf (queue s)" using inv by (simp_all add: fs_inv_def)
  note ti = tiling_tiles [OF t]
  have ok: "gaps_ok ?r (gaps s)" using t by (simp add: tiling_def)
  have ge: "?r' \<le> Start (snd x)" if "x \<in> set (gaps s)" for x
  proof (rule ccontr)
    assume "\<not> ?r' \<le> Start (snd x)"
    then have "Start (snd x) \<in> queue_region ?m"
      using gap_bounds(1) [OF ok that] e by (intro queue_regionI [of ?m ?r e]) auto
    with gap_not_queued [OF t gap_regionI [OF that]] gap_bounds(2) [OF ok that] show False by simp
  qed
  let ?s = "s\<lparr>queue := mdel ?r (queue s), readPos := ?r'\<rparr>"
  obtain x l where gs: "gaps s = x # l" using ok by (cases "gaps s") (auto simp: gaps_ok_def)
  have p: "Pop s = Inr ((?r, Some (Data e), Frame e), ?s)"
    using e gs ge [of x] gap_bounds(2) [OF ok, of x] by (simp add: Pop_def list_Front_def)
  have m: "map_of (queue ?s) = mdrop ?r ?r' ?m" using mdrop_entry [OF ti e] by (simp add: map_of_mdel)
  have "queue_region (mdrop ?r ?r' ?m) = queue_region ?m - {?r..<?r'}"
  proof (intro equalityI subsetI)
    fix q assume "q \<in> queue_region (mdrop ?r ?r' ?m)"
    then obtain k y where k: "?m k = Some y" "\<not> (?r \<le> k \<and> k < ?r')" "k \<le> q" "q < k + blen y"
      by (auto elim!: queue_regionE simp: mdrop_Some)
    have "?r \<le> k" using key_in_region [OF ti k(1)] t by (simp add: tiling_def)
    with k show "q \<in> queue_region ?m - {?r..<?r'}" using queue_regionI [of ?m k y q] by auto
  next
    fix q assume q: "q \<in> queue_region ?m - {?r..<?r'}"
    then have "?r' \<le> q" using t by (auto simp: tiling_def)
    with q show "q \<in> queue_region (mdrop ?r ?r' ?m)"
      using region_mdrop_high [OF _ boundary_next [OF ti e]] by blast
  qed
  then have "queue_region (mdrop ?r ?r' ?m) = {?r'..<MaxByteCount} - gap_region (gaps s)"
    using t tiles_pos [OF ti e] by (auto simp: tiling_def)
  moreover have "gaps_ok ?r' (gaps s)" using ok ge unfolding gaps_ok_def by blast
  ultimately have "tiling ?r' (gaps s) (mdrop ?r ?r' ?m)" using tiles_mdrop [OF ti] by (simp add: tiling_def)
  then have "fs_inv ?s" using inv m tiles_pos [OF ti e] by (simp add: fs_inv_def)
  moreover have "agrees S s \<longrightarrow> agrees S ?s" unfolding agrees_def m by (simp add: mdrop_Some)
  moreover have "buffers s = buffers ?s + mset (putBack (Frame e) [])"
    using frames_of_mdel [OF wf e] by (simp add: buffers_def)
  ultimately show "\<exists>s'. Pop s = Inr ((?r, Some (Data e), Frame e), s') \<and> fs_inv s' \<and> gaps s' = gaps s \<and>
     readPos s' = ?r' \<and> (agrees S s \<longrightarrow> agrees S s') \<and> buffers s = buffers s' + mset (putBack (Frame e) [])"
    using p by (intro exI [of _ ?s]) simp
qed

lemma newFrameSorter_inv: "fs_inv newFrameSorter" "received newFrameSorter = {}" "agrees S newFrameSorter"
  by (simp_all add: newFrameSorter_def fs_inv_def list_PushFront_def tiling_def gaps_ok_def tiles_def queue_region_def
      MaxByteCount_def MaxStreamFrameSorterGaps_def received_def agrees_def)

lemma Push_cases:
  assumes inv: "fs_inv s" and e: "start + int (length data) < MaxByteCount" and lo: "0 \<le> start"
  shows "(\<exists>s'. Push data start frame s = Inr (Some errTooManyGaps, s')) \<and> MaxStreamFrameSorterGaps \<le> length (gaps s) \<or>
         (\<exists>s'. Push data start frame s = Inr (None, s') \<and> fs_inv s' \<and> readPos s' = readPos s \<and>
            length (gaps s') \<le> Suc (length (gaps s)) \<and>
            received s' = received s \<union> {start..<start + int (length data)} \<and>
            (agrees S s \<longrightarrow> slice_of S start data \<longrightarrow> agrees S s') \<and>
            buffers s' = buffers s + mset (putBack frame []))"
proof -
  let ?e = "start + int (length data)"
  have sub: "{0..<MaxByteCount} \<inter> {start..<?e} = {start..<?e}" using e lo by auto
  have eff: "push_effect data start frame s (push data start frame s)" by (rule push_spec [OF inv e])
  then obtain err s' where p: "push data start frame s = Inr (err, s')"
    unfolding push_effect_def Let_def by (metis surj_pair)
  show ?thesis
  proof (cases err)
    case None
    then show ?thesis
      using p push_inv [OF inv e p [unfolded None]] sub by (simp add: Push_def)
  next
    case (Some x)
    show ?thesis
    proof (cases x)
      case errTooManyGaps
      then have "push_effect data start frame s (Inr (Some errTooManyGaps, s'))" using eff p Some by simp
      then obtain a b d wc st gs where st: "(Some errTooManyGaps, s') = storeFrame a d frame wc st gs s"
        and "effect (readPos s) (gaps s) (map_of (queue s)) start ?e a b gs (map_of (fst st))"
        unfolding push_effect_def Let_def sum.inject prod.inject by blast
      then have "MaxStreamFrameSorterGaps < length gs" "length gs \<le> Suc (length (gaps s))"
        by (auto simp: storeFrame_def Let_def effect_def split: if_splits)
      then show ?thesis using p Some errTooManyGaps by (simp add: Push_def)
    next
      case errDuplicateStreamData
      have nd: "(Some errDuplicateStreamData, s') \<noteq> storeFrame a d f wc st gs s" for a d f wc st gs
        by (simp add: storeFrame_def Let_def)
      have "push_effect data start frame s (Inr (Some errDuplicateStreamData, s'))"
        using eff p Some errDuplicateStreamData by simp
      then have "s' = s" "{start..<?e} \<inter> gap_region (gaps s) = {}"
        using nd unfolding push_effect_def Let_def sum.inject prod.inject by blast+
      then have "received s = received s \<union> {start..<?e}" "Push data start frame s = Inr (None, s\<lparr>returned := putBack frame (returned s)\<rparr>)"
        using sub p Some errDuplicateStreamData by (auto simp: received_def Push_def)
      then show ?thesis
        using inv mset_putBack [of frame "returned s"] by (simp add: fs_inv_def received_def agrees_def buffers_def)
    qed
  qed
qed

section \<open>Runs\<close>

text \<open>
  A stream pushes the frames it receives and pops what it can deliver; an error of \<open>Push\<close>
  closes the connection.  The outcome of a run is a failure or the frames popped so far, in
  order, with the state.
\<close>

datatype fs_op = FsPush bytes int "nat option" | FsPop

definition fs_step :: "fs_op \<Rightarrow> frameSorter \<Rightarrow> (fs_panic + fs_error) + ((bytes \<times> nat option) list \<times> frameSorter)" where
  "fs_step op s = (case op of
     FsPush d off f \<Rightarrow>
       (case Push d off f s of
          Inl p \<Rightarrow> Inl (Inl p)
        | Inr (Some e, s') \<Rightarrow> Inl (Inr e)
        | Inr (None, s') \<Rightarrow> Inr ([], s'))
   | FsPop \<Rightarrow>
       (case Pop s of
          Inl p \<Rightarrow> Inl (Inl p)
        | Inr ((_, None, _), s') \<Rightarrow> Inr ([], s')
        | Inr ((_, Some d, f), s') \<Rightarrow> Inr ([(d, f)], s')))"

fun fs_run :: "fs_op list \<Rightarrow> frameSorter \<Rightarrow> (fs_panic + fs_error) + ((bytes \<times> nat option) list \<times> frameSorter)" where
  "fs_run [] s = Inr ([], s)"
| "fs_run (op # ops) s =
     rbind (fs_step op s) (\<lambda>(out, s). rbind (fs_run ops s) (\<lambda>(out', s). Inr (out @ out', s)))"

text \<open>What a sequence of operations has pushed: positions and buffers.\<close>

definition pushed :: "fs_op list \<Rightarrow> int set" where
  "pushed ops = (\<Union>op\<in>set ops. case op of FsPush d off f \<Rightarrow> {off..<off + int (length d)} | FsPop \<Rightarrow> {})"

definition pushed_frames :: "fs_op list \<Rightarrow> nat multiset" where
  "pushed_frames ops = (\<Sum>op\<leftarrow>ops. case op of FsPush d off f \<Rightarrow> mset (putBack f []) | FsPop \<Rightarrow> {#})"

definition popped_bytes :: "(bytes \<times> nat option) list \<Rightarrow> bytes" where
  "popped_bytes out = concat (map fst out)"

definition popped_frames :: "(bytes \<times> nat option) list \<Rightarrow> nat multiset" where
  "popped_frames out = (\<Sum>x\<leftarrow>out. mset (putBack (snd x) []))"

text \<open>Frames as the frame parser hands them over: offsets are not negative and end below \<open>MaxByteCount\<close>.\<close>

definition in_range :: "fs_op \<Rightarrow> bool" where
  "in_range op \<longleftrightarrow> (case op of FsPush d off f \<Rightarrow> 0 \<le> off \<and> off + int (length d) < MaxByteCount | FsPop \<Rightarrow> True)"

definition carries :: "(int \<Rightarrow> byte) \<Rightarrow> fs_op \<Rightarrow> bool" where
  "carries S op \<longleftrightarrow> (case op of FsPush d off f \<Rightarrow> slice_of S off d | FsPop \<Rightarrow> True)"

lemma fs_step_cases:
  assumes inv: "fs_inv s" and op: "in_range op"
  shows "fs_step op s = Inl (Inr errTooManyGaps) \<and> MaxStreamFrameSorterGaps \<le> length (gaps s) \<or>
    (\<exists>out s'. fs_step op s = Inr (out, s') \<and> fs_inv s' \<and> length (gaps s') \<le> Suc (length (gaps s)) \<and> received s' = received s \<union> pushed [op] \<and>
       readPos s' = readPos s + int (length (popped_bytes out)) \<and>
       buffers s + pushed_frames [op] = buffers s' + popped_frames out \<and>
       (carries S op \<longrightarrow> agrees S s \<longrightarrow> agrees S s' \<and> slice_of S (readPos s) (popped_bytes out)))"
proof (cases op)
  case (FsPush d off f)
  then have r: "off + int (length d) < MaxByteCount" "0 \<le> off" using op by (simp_all add: in_range_def)
  from Push_cases [OF inv r, of f S] show ?thesis
    by (elim disjE exE conjE)
      (simp_all add: FsPush fs_step_def pushed_def pushed_frames_def popped_bytes_def popped_frames_def carries_def slice_of_def)
next
  case FsPop
  show ?thesis
  proof (cases "map_of (queue s) (readPos s)")
    case None
    from pop_inv(1) [OF inv None] inv show ?thesis
      by (simp add: FsPop fs_step_def pushed_def pushed_frames_def popped_bytes_def popped_frames_def slice_of_def)
  next
    case (Some e)
    from pop_inv(2) [OF inv Some, of S] obtain s' where "Pop s = Inr ((readPos s, Some (Data e), Frame e), s')" "fs_inv s'"
      "gaps s' = gaps s" "readPos s' = readPos s + blen e" "agrees S s \<longrightarrow> agrees S s'"
      "buffers s = buffers s' + mset (putBack (Frame e) [])" by blast
    then show ?thesis using Some
      by (simp add: FsPop fs_step_def received_def pushed_def pushed_frames_def popped_bytes_def popped_frames_def blen_def agrees_def)
  qed
qed

lemma popped_append [simp]:
  "popped_bytes (o1 @ o2) = popped_bytes o1 @ popped_bytes o2" "popped_frames (o1 @ o2) = popped_frames o1 + popped_frames o2"
  by (simp_all add: popped_bytes_def popped_frames_def)

lemma pushed_Cons: "pushed (op # ops) = pushed [op] \<union> pushed ops" "pushed_frames (op # ops) = pushed_frames [op] + pushed_frames ops"
  by (auto simp: pushed_def pushed_frames_def)

lemma slice_of_append: "slice_of S off d \<Longrightarrow> slice_of S (off + int (length d)) d' \<Longrightarrow> slice_of S off (d @ d')"
  by (auto simp: slice_of_def nth_append of_nat_diff)

lemma fs_run_cases:
  assumes "fs_inv s" and "\<forall>op\<in>set ops. in_range op"
  shows "fs_run ops s = Inl (Inr errTooManyGaps) \<and> MaxStreamFrameSorterGaps < length (gaps s) + length ops \<or>
    (\<exists>out s'. fs_run ops s = Inr (out, s') \<and> fs_inv s' \<and> received s' = received s \<union> pushed ops \<and>
       readPos s' = readPos s + int (length (popped_bytes out)) \<and>
       buffers s + pushed_frames ops = buffers s' + popped_frames out \<and>
       ((\<forall>op\<in>set ops. carries S op) \<longrightarrow> agrees S s \<longrightarrow> agrees S s' \<and> slice_of S (readPos s) (popped_bytes out)))"
  using assms
proof (induction ops arbitrary: s)
  case Nil
  then show ?case
    by (simp add: popped_bytes_def popped_frames_def pushed_def pushed_frames_def slice_of_def)
next
  case (Cons op ops)
  then have op: "in_range op" and ops: "\<forall>op\<in>set ops. in_range op" by simp_all
  from fs_step_cases [OF Cons.prems(1) op, of S] show ?case
  proof (elim disjE exE conjE)
    assume "fs_step op s = Inl (Inr errTooManyGaps)" "MaxStreamFrameSorterGaps \<le> length (gaps s)"
    then show ?thesis by simp
  next
    fix out s1
    assume 1: "fs_step op s = Inr (out, s1)" "fs_inv s1" "length (gaps s1) \<le> Suc (length (gaps s))" "received s1 = received s \<union> pushed [op]"
      "readPos s1 = readPos s + int (length (popped_bytes out))" "buffers s + pushed_frames [op] = buffers s1 + popped_frames out"
      "carries S op \<longrightarrow> agrees S s \<longrightarrow> agrees S s1 \<and> slice_of S (readPos s) (popped_bytes out)"
    from Cons.IH [OF 1(2) ops] show ?thesis
    proof (elim disjE exE conjE)
      assume "fs_run ops s1 = Inl (Inr errTooManyGaps)" "MaxStreamFrameSorterGaps < length (gaps s1) + length ops"
      with 1(1,3) show ?thesis by simp
    next
      fix out' s'
      assume 2: "fs_run ops s1 = Inr (out', s')" "fs_inv s'" "received s' = received s1 \<union> pushed ops"
        "readPos s' = readPos s1 + int (length (popped_bytes out'))" "buffers s1 + pushed_frames ops = buffers s' + popped_frames out'"
        "(\<forall>op\<in>set ops. carries S op) \<longrightarrow> agrees S s1 \<longrightarrow> agrees S s' \<and> slice_of S (readPos s1) (popped_bytes out')"
      have "fs_run (op # ops) s = Inr (out @ out', s')" using 1(1) 2(1) by simp
      moreover have "buffers s + pushed_frames (op # ops) = buffers s' + popped_frames (out @ out')"
        using 1(6) 2(5) by (simp add: pushed_Cons(2) [of op ops]) (metis (no_types) add.assoc add.commute)
      moreover have "received s' = received s \<union> pushed (op # ops)" using 1(4) 2(3) pushed_Cons(1) [of op ops] by auto
      moreover have "(\<forall>op\<in>set (op # ops). carries S op) \<longrightarrow> agrees S s \<longrightarrow>
          agrees S s' \<and> slice_of S (readPos s) (popped_bytes (out @ out'))"
        using 1(5,7) 2(6) by (simp add: slice_of_append)
      moreover have "readPos s' = readPos s + int (length (popped_bytes (out @ out')))" using 1(5) 2(4) by simp
      ultimately show ?thesis using 2(2) by blast
    qed
  qed
qed

section \<open>Peeking\<close>

lemma peek_check_spec:
  assumes t: "tiles (map_of q)"
  shows "boundary (map_of q) pos \<Longrightarrow> peek_check q pos (int n) = Some ({pos..<pos + int n} \<subseteq> queue_region (map_of q))"
proof (induction n arbitrary: pos rule: less_induct)
  case (less n)
  show ?case
  proof (cases "map_of q pos")
    case None
    then have "pos \<notin> queue_region (map_of q)" using region_key less.prems by blast
    then have "n = 0 \<or> \<not> {pos..<pos + int n} \<subseteq> queue_region (map_of q)" by force
    then show ?thesis using None by (auto simp: peek_check.simps [of q pos "int n"])
  next
    case (Some e)
    note pos = tiles_pos [OF t Some] and sub = entry_in_region [of "map_of q" pos e, OF Some]
    show ?thesis
    proof (cases "int n \<le> blen e")
      case True
      with sub have "{pos..<pos + int n} \<subseteq> queue_region (map_of q)" by fastforce
      then show ?thesis using True Some by (simp add: peek_check.simps [of q pos "int n"])
    next
      case False
      then have "nat (int n - blen e) < n" "int n - blen e = int (nat (int n - blen e))" using pos by auto
      with less.IH [OF this(1) boundary_next [OF t Some]]
      have "peek_check q (pos + blen e) (int n - blen e) = Some ({pos + blen e..<pos + int n} \<subseteq> queue_region (map_of q))"
        by simp
      moreover have "{pos..<pos + int n} = {pos..<pos + blen e} \<union> {pos + blen e..<pos + int n}" using False pos by auto
      ultimately show ?thesis using False Some sub pos by (simp add: peek_check.simps [of q pos "int n"])
    qed
  qed
qed

lemma peek_copy_spec:
  assumes t: "tiles (map_of q)" and ag: "\<And>k e. map_of q k = Some e \<Longrightarrow> slice_of S k (Data e)"
  shows "boundary (map_of q) pos \<Longrightarrow> {pos..<pos + int (n - length c)} \<subseteq> queue_region (map_of q) \<Longrightarrow>
         peek_copy q pos n c = Some (c @ map (\<lambda>i. S (pos + int i)) [0..<n - length c])"
proof (induction "n - length c" arbitrary: pos c rule: less_induct)
  case less
  show ?case
  proof (cases "length c < n")
    case False
    then show ?thesis by (simp add: peek_copy.simps [of q pos n c])
  next
    case True
    then have "pos \<in> queue_region (map_of q)" using less.prems(2) by auto
    then obtain e where e: "map_of q pos = Some e" using region_key [OF less.prems(1)] by auto
    let ?d = "Data e" and ?k = "n - length c"
    let ?c = "c @ take ?k ?d"
    have pos: "0 < length ?d" using tiles_pos [OF t e] by (simp add: blen_def)
    have d: "take ?k ?d = map (\<lambda>i. S (pos + int i)) [0..<min ?k (length ?d)]"
      using ag [OF e] by (intro nth_equalityI) (auto simp: slice_of_def)
    have lt: "n - length ?c < ?k" using True pos by (simp add: min_def del: length_greater_0_conv) linarith
    have sub: "{pos + blen e..<pos + blen e + int (n - length ?c)} \<subseteq> queue_region (map_of q)"
      using less.prems(2) by (rule subset_trans [rotated]) (auto simp: blen_def min_def)
    have "peek_copy q (pos + blen e) n ?c = Some (?c @ map (\<lambda>i. S (pos + blen e + int i)) [0..<n - length ?c])"
      by (rule less.hyps [OF lt boundary_next [OF t e] sub])
    moreover have "map (\<lambda>i. S (pos + int i)) [0..<?k] =
        map (\<lambda>i. S (pos + int i)) [0..<min ?k (length ?d)] @ map (\<lambda>i. S (pos + blen e + int i)) [0..<n - length ?c]"
      by (rule nth_equalityI) (auto simp: nth_append blen_def min_def add.assoc of_nat_diff)
    ultimately show ?thesis
      using True e d by (simp add: peek_copy.simps [of q pos n c] blen_def Let_def)
  qed
qed

lemma Peek_spec:
  assumes inv: "fs_inv s" and ag: "agrees S s" and len: "readPos s + int n \<le> MaxByteCount"
  shows "Peek (readPos s) n s =
     Some (if {readPos s..<readPos s + int n} \<subseteq> received s then Inr (map (\<lambda>i. S (readPos s + int i)) [0..<n]) else Inl ())"
proof -
  let ?m = "map_of (queue s)" and ?r = "readPos s"
  have t: "tiling ?r (gaps s) ?m" and r0: "0 \<le> ?r" using inv by (simp_all add: fs_inv_def)
  have b: "boundary ?m ?r"
    using boundary_after [of ?r ?m] t by (simp add: tiling_def)
  have iff: "{?r..<?r + int n} \<subseteq> queue_region ?m \<longleftrightarrow> {?r..<?r + int n} \<subseteq> received s"
    using t len r0 by (auto simp: tiling_def received_def)
  show ?thesis
  proof (cases "{?r..<?r + int n} \<subseteq> queue_region ?m")
    case True
    then show ?thesis
      using peek_check_spec [OF tiling_tiles [OF t] b, of n] peek_copy_spec [OF tiling_tiles [OF t] _ b, of S n "[]"] ag iff
      by (cases "n = 0") (simp_all add: Peek_def agrees_def)
  next
    case False
    then show ?thesis
      using peek_check_spec [OF tiling_tiles [OF t] b, of n] iff by (cases "n = 0") (simp_all add: Peek_def)
  qed
qed

section \<open>Properties\<close>

lemmas fs_eval = fs_step_def newFrameSorter_def list_PushFront_def fresh_addr_def Push_def push_def push_fast_def
  push_overlap_def list_Front_def MaxByteCount_def findEndGap_def elem_Prev_def elem_Next_def elem_set_def
  replaceOld.simps deleteConsecutive.simps Let_def adjustStartGap_def dropCovered_def adjustEndGap_def storeFrame_def
  slice_to_def slice_from_def list_InsertAfter_def MaxStreamFrameSorterGaps_def MinStreamFrameBufferSize_def
  list_Remove_def Pop_def blen_def putBack_def

lemma fs_run_new:
  assumes r: "\<forall>op\<in>set ops. in_range op" and run: "fs_run ops newFrameSorter = Inr (out, s)"
  shows "fs_inv s" "received s = pushed ops" "readPos s = int (length (popped_bytes out))"
    "pushed_frames ops = buffers s + popped_frames out"
    "(\<forall>op\<in>set ops. carries S op) \<Longrightarrow> agrees S s \<and> slice_of S 0 (popped_bytes out)"
  using fs_run_cases [OF newFrameSorter_inv(1) r, of S] run newFrameSorter_inv(2) newFrameSorter_inv(3) [of S]
  by (simp_all add: newFrameSorter_def buffers_def frames_of_def)

lemma next_queued:
  assumes inv: "fs_inv s" and len: "readPos s < MaxByteCount"
  shows "readPos s \<in> received s \<longleftrightarrow> map_of (queue s) (readPos s) \<noteq> None"
proof -
  let ?m = "map_of (queue s)" and ?r = "readPos s"
  have t: "tiling ?r (gaps s) ?m" and r0: "0 \<le> ?r" using inv by (simp_all add: fs_inv_def)
  have b: "boundary ?m ?r" using boundary_after [of ?r ?m] t by (simp add: tiling_def)
  have "?r \<in> received s \<longleftrightarrow> ?r \<in> queue_region ?m" using t r0 len by (auto simp: tiling_def received_def)
  then show ?thesis using region_key [OF b] key_in_region [OF tiling_tiles [OF t], of ?r] by blast
qed

lemma read_received:
  assumes inv: "fs_inv s" shows "{0..<readPos s} \<subseteq> received s" "readPos s < MaxByteCount"
proof -
  have ok: "gaps_ok (readPos s) (gaps s)" using inv by (simp add: fs_inv_def tiling_def)
  then obtain x where x: "x \<in> set (gaps s)" by (cases "gaps s") (auto simp: gaps_ok_def)
  show lt: "readPos s < MaxByteCount" using gap_bounds [OF ok x] by simp
  have "p \<notin> gap_region (gaps s)" if "p < readPos s" for p
    using that gap_bounds(1) [OF ok] by (fastforce simp: gap_region_def)
  with lt show "{0..<readPos s} \<subseteq> received s" by (auto simp: received_def)
qed

text \<open>
  C3: the frame sorter reassembles the stream.  Whatever the order, the duplication and the
  overlap in which frames cut from a stream \<open>S\<close> are pushed, and wherever pops are interleaved:
  no panic of the sorter is reached; the bytes popped are a prefix of \<open>S\<close> of \<open>readPos\<close> bytes;
  every byte pushed is accounted as received, and \<open>Pop\<close> finds a frame exactly when the next
  byte has been pushed (so no byte is lost).  The only failure is the limit on gaps, which takes
  more than a thousand operations.
\<close>
theorem frameSorter_reassembles:
  assumes "\<forall>op\<in>set ops. in_range op \<and> carries S op"
  shows "case fs_run ops newFrameSorter of
      Inl e \<Rightarrow> e = Inr errTooManyGaps \<and> MaxStreamFrameSorterGaps \<le> length ops
    | Inr (out, s) \<Rightarrow>
        popped_bytes out = map (\<lambda>i. S (int i)) [0..<nat (readPos s)] \<and>
        {0..<readPos s} \<subseteq> pushed ops \<and> {0..<MaxByteCount} - gap_region (gaps s) = pushed ops \<and>
        (readPos s \<in> pushed ops \<longleftrightarrow> map_of (queue s) (readPos s) \<noteq> None)"
proof -
  have r: "\<forall>op\<in>set ops. in_range op" and c: "\<forall>op\<in>set ops. carries S op" using assms by auto
  show ?thesis
  proof (cases "fs_run ops newFrameSorter")
    case (Inl e)
    then show ?thesis using fs_run_cases [OF newFrameSorter_inv(1) r, of S] by (simp add: newFrameSorter_def list_PushFront_def)
  next
    case (Inr x)
    obtain out s where x: "x = (out, s)" by (cases x)
    note run = fs_run_new [OF r Inr [unfolded x]]
    have "popped_bytes out = map (\<lambda>i. S (int i)) [0..<nat (readPos s)]"
      using run(3) run(5) [OF c] by (intro nth_equalityI) (auto simp: slice_of_def)
    then show ?thesis
      using Inr x run(2) read_received [OF run(1)] next_queued [OF run(1)] by (simp add: received_def)
  qed
qed

theorem frameSorter_reassembles_witness:
  "let ops = [FsPush [2, 3, 4] 2 (Some 7), FsPop, FsPush [0, 1, 2, 3] 0 (Some 8), FsPop, FsPop];
       S = (\<lambda>i. word_of_int i)
   in (\<forall>op\<in>set ops. in_range op \<and> carries S op) \<and>
      (case fs_run ops newFrameSorter of
         Inl e \<Rightarrow> e = Inr errTooManyGaps \<and> MaxStreamFrameSorterGaps \<le> length ops
       | Inr (out, s) \<Rightarrow>
           popped_bytes out = map (\<lambda>i. S (int i)) [0..<nat (readPos s)] \<and>
           {0..<readPos s} \<subseteq> pushed ops \<and> {0..<MaxByteCount} - gap_region (gaps s) = pushed ops \<and>
           (readPos s \<in> pushed ops \<longleftrightarrow> map_of (queue s) (readPos s) \<noteq> None))"
proof -
  let ?ops = "[FsPush [2, 3, 4] 2 (Some 7), FsPop, FsPush [0, 1, 2, 3] 0 (Some 8), FsPop, FsPop]"
  have h: "\<forall>op\<in>set ?ops. in_range op \<and> carries (\<lambda>i. word_of_int i) op"
    by (auto simp: in_range_def carries_def slice_of_def MaxByteCount_def less_Suc_eq nth_Cons')
  show ?thesis unfolding Let_def using h frameSorter_reassembles [OF h] by (rule conjI)
qed

text \<open>
  C38: every frame buffer has exactly one owner.  However the frames overlap, the buffers pushed are,
  with multiplicity, those still queued, those handed back to the pool and those handed out by
  \<open>Pop\<close>: no buffer is returned twice, returned while its data is queued, or leaked.
\<close>
theorem frameSorter_buffers:
  assumes "\<forall>op\<in>set ops. in_range op" and "fs_run ops newFrameSorter = Inr (out, s)"
  shows "pushed_frames ops = frames_of (queue s) + mset (returned s) + popped_frames out"
  using fs_run_new(4) [OF assms] by (simp add: buffers_def)

theorem frameSorter_buffers_witness:
  "let ops = [FsPush [2, 3, 4] 2 (Some 7), FsPush [0, 1, 2, 3] 0 (Some 8), FsPop, FsPush [1] 1 (Some 9)] in
   \<exists>out s. (\<forall>op\<in>set ops. in_range op) \<and> fs_run ops newFrameSorter = Inr (out, s) \<and>
     pushed_frames ops = frames_of (queue s) + mset (returned s) + popped_frames out \<and> returned s = [8, 9]"
proof -
  let ?ops = "[FsPush [2, 3, 4] 2 (Some 7), FsPush [0, 1, 2, 3] 0 (Some 8), FsPop, FsPush [1] 1 (Some 9)]"
  have h: "\<forall>op\<in>set ?ops. in_range op" by (simp add: in_range_def MaxByteCount_def)
  obtain out s where run: "fs_run ?ops newFrameSorter = Inr (out, s)" "returned s = [8, 9]"
    by (simp add: fs_eval)
  show ?thesis unfolding Let_def using h run frameSorter_buffers [OF h run(1)] by blast
qed

text \<open>
  C39: \<open>Peek\<close> at the read position terminates and copies the next \<open>n\<close> bytes of the stream when
  they have all arrived; otherwise it reports too little data.
\<close>
theorem frameSorter_peek:
  assumes "\<forall>op\<in>set ops. in_range op \<and> carries S op" and "fs_run ops newFrameSorter = Inr (out, s)"
    and "readPos s + int n \<le> MaxByteCount"
  shows "Peek (readPos s) n s =
     Some (if {readPos s..<readPos s + int n} \<subseteq> pushed ops then Inr (map (\<lambda>i. S (readPos s + int i)) [0..<n]) else Inl ())"
proof -
  have r: "\<forall>op\<in>set ops. in_range op" and c: "\<forall>op\<in>set ops. carries S op" using assms(1) by auto
  note run = fs_run_new [OF r assms(2)]
  show ?thesis using Peek_spec [OF run(1) _ assms(3), of S] run(5) [OF c] run(2) by simp
qed

theorem frameSorter_peek_witness:
  "let ops = [FsPush [2, 3] 2 None, FsPush [0, 1] 0 None, FsPop]; S = (\<lambda>i. word_of_int i) in
   \<exists>out s. (\<forall>op\<in>set ops. in_range op \<and> carries S op) \<and> fs_run ops newFrameSorter = Inr (out, s) \<and>
     readPos s = 2 \<and> Peek 2 2 s = Some (Inr [2, 3])"
proof -
  let ?ops = "[FsPush [2, 3] 2 None, FsPush [0, 1] 0 None, FsPop]"
  have h: "\<forall>op\<in>set ?ops. in_range op \<and> carries (\<lambda>i. word_of_int i) op"
    by (auto simp: in_range_def carries_def slice_of_def MaxByteCount_def less_Suc_eq nth_Cons')
  obtain out s where run: "fs_run ?ops newFrameSorter = Inr (out, s)" "readPos s = 2"
    by (simp add: fs_eval)
  have len: "readPos s + int 2 \<le> MaxByteCount" using run by (simp add: MaxByteCount_def)
  have "{readPos s..<readPos s + int 2} \<subseteq> pushed ?ops" using run by (auto simp: pushed_def)
  then have "Peek 2 2 s = Some (Inr [2, 3])"
    using frameSorter_peek [OF h run(1) len] run(2) by (simp add: upt_rec)
  then show ?thesis unfolding Let_def using h run by blast
qed

end
