(* ===== verification/Quic_Packet_Number.thy ===== *)
theory Quic_Packet_Number
  imports Quic_Varint
begin

unbundle bit_operations_syntax

text \<open>
  Packet numbers of QUIC: \<open>internal/qng/internal/protocol/packet_number.go\<close> and the short header of
  \<open>internal/qng/internal/wire/short_header.go\<close>.  A packet carries the low bytes of its number; the receiver restores the
  number from the highest one it has seen.  A \<open>PacketNumber\<close> is an \<open>int64\<close> below \<open>2^62\<close> and is
  an \<open>int\<close> here; a length is a number of bytes.
\<close>

type_synonym PacketNumber = int

definition InvalidPacketNumber :: PacketNumber where
  "InvalidPacketNumber = - 1"

definition DecodePacketNumber :: "nat \<Rightarrow> PacketNumber \<Rightarrow> PacketNumber \<Rightarrow> PacketNumber" where
  "DecodePacketNumber len largest truncated =
     (let expected = largest + 1;
          win = push_bit (len * 8) 1;
          hwin = win div 2;
          mask = win - 1;
          candidate = (expected AND NOT mask) OR truncated
      in if candidate \<le> expected - hwin \<and> candidate < push_bit 62 1 - win then candidate + win
         else if candidate > expected + hwin \<and> candidate \<ge> win then candidate - win
         else candidate)"

definition PacketNumberLengthForHeader :: "PacketNumber \<Rightarrow> PacketNumber \<Rightarrow> nat" where
  "PacketNumberLengthForHeader pn largestAcked =
     (let numUnacked = (if largestAcked = InvalidPacketNumber then pn + 1 else pn - largestAcked)
      in if numUnacked < push_bit (16 - 1) 1 then 2
         else if numUnacked < push_bit (24 - 1) 1 then 3
         else 4)"

datatype pn_error =
    InvalidPacketNumberLength nat
  | PnEOF
  | NotShortHeader
  | NotQuic
  | PnIndexOutOfRange

text \<open>\<open>uint16(pn)\<close> and the like keep the low bytes.\<close>

definition appendPacketNumber :: "bytes \<Rightarrow> PacketNumber \<Rightarrow> nat \<Rightarrow> pn_error + bytes" where
  "appendPacketNumber b pn pnLen =
     (let w = word_of_int pn :: u64 in
      if pnLen = 1 then Inr (b @ [ucast w])
      else if pnLen = 2 then Inr (b @ [ucast (drop_bit 8 w), ucast w])
      else if pnLen = 3 then Inr (b @ [ucast (drop_bit 16 w), ucast (drop_bit 8 w), ucast w])
      else if pnLen = 4 then Inr (b @ [ucast (drop_bit 24 w), ucast (drop_bit 16 w), ucast (drop_bit 8 w), ucast w])
      else Inl (InvalidPacketNumberLength pnLen))"

definition readPacketNumber :: "bytes \<Rightarrow> nat \<Rightarrow> pn_error + PacketNumber" where
  "readPacketNumber data pnLen =
     (if pnLen = 1 then
        (if length data < 1 then Inl PnIndexOutOfRange else Inr (uint (data ! 0)))
      else if pnLen = 2 then
        (if length data < 2 then Inl PnIndexOutOfRange
         else Inr (uint (ucast (data ! 1) OR push_bit 8 (ucast (data ! 0)) :: 16 word)))
      else if pnLen = 3 then
        (if length data < 3 then Inl PnIndexOutOfRange
         else Inr (uint (ucast (data ! 2) + push_bit 8 (ucast (data ! 1)) + push_bit 16 (ucast (data ! 0)) :: 32 word)))
      else if pnLen = 4 then
        (if length data < 4 then Inl PnIndexOutOfRange
         else Inr (uint (ucast (data ! 3) OR push_bit 8 (ucast (data ! 2)) OR push_bit 16 (ucast (data ! 1))
            OR push_bit 24 (ucast (data ! 0)) :: 32 word)))
      else Inl (InvalidPacketNumberLength pnLen))"

section \<open>Short headers\<close>

text \<open>
  The last component of a result says that the reserved bits are set, an error that comes with the
  values.  The key phase bit is a \<open>bool\<close>.
\<close>

definition ParseShortHeader :: "bytes \<Rightarrow> nat \<Rightarrow> pn_error + (nat \<times> PacketNumber \<times> nat \<times> bool \<times> bool)" where
  "ParseShortHeader data connIDLen =
     (if data = [] then Inl PnEOF
      else if data ! 0 AND 0x80 > 0 then Inl NotShortHeader
      else if data ! 0 AND 0x40 = 0 then Inl NotQuic
      else
        let pnLen = unat (data ! 0 AND 3) + 1 in
        if length data < 1 + pnLen + connIDLen then Inl PnEOF
        else rbind (readPacketNumber (drop (1 + connIDLen) data) pnLen) (\<lambda>pn.
          Inr (1 + connIDLen + pnLen, pn, pnLen, data ! 0 AND 4 > 0, data ! 0 AND 0x18 \<noteq> 0)))"

definition AppendShortHeader :: "bytes \<Rightarrow> bytes \<Rightarrow> PacketNumber \<Rightarrow> nat \<Rightarrow> bool \<Rightarrow> pn_error + bytes" where
  "AppendShortHeader b connID pn pnLen kp =
     (let typeByte = 0x40 OR (of_nat pnLen - 1);
          typeByte = (if kp then typeByte OR push_bit 2 1 else typeByte)
      in appendPacketNumber (b @ [typeByte] @ connID) pn pnLen)"

definition ShortHeaderLen :: "bytes \<Rightarrow> nat \<Rightarrow> nat" where
  "ShortHeaderLen dest pnLen = 1 + length dest + pnLen"

section \<open>Restoring a number\<close>

lemma and_not_mask: "(x AND NOT (2 ^ n - 1)) = x - x mod 2 ^ n" for x :: int
proof -
  have "x AND NOT (mask n) = push_bit n (drop_bit n x)" by (rule bit_eqI) (auto simp: bit_simps)
  then show ?thesis by (simp add: push_bit_eq_mult drop_bit_eq_div mask_eq_exp_minus_1 minus_mod_eq_div_mult)
qed

lemma or_low:
  fixes x t :: int assumes "0 \<le> t" "t < 2 ^ n"
  shows "(x AND NOT (2 ^ n - 1)) OR t = x - x mod 2 ^ n + t"
proof -
  have t: "take_bit n t = t" using assms by (simp add: take_bit_int_eq_self_iff)
  have "(x AND NOT (mask n)) OR t = (x AND NOT (mask n)) + t"
  proof (rule disjunctive_add [symmetric])
    fix i have "bit t i \<Longrightarrow> i < n" using t by (metis bit_take_bit_iff)
    then show "\<not> bit (x AND NOT (mask n)) i \<or> \<not> bit t i" by (auto simp: bit_simps)
  qed
  then show ?thesis by (simp add: and_not_mask mask_eq_exp_minus_1)
qed

text \<open>A number within half a window of the expected one is restored from its low bits.\<close>

lemma DecodePacketNumber_window:
  assumes pn: "0 \<le> pn" "pn < 2 ^ 62" and len: "0 < len"
    and lo: "largest + 1 - 2 ^ (8 * len - 1) < pn" and hi: "pn \<le> largest + 1 + 2 ^ (8 * len - 1)"
  shows "DecodePacketNumber len largest (pn mod 2 ^ (8 * len)) = pn"
proof -
  define win :: int where "win = 2 ^ (8 * len)"
  define h :: int where "h = 2 ^ (8 * len - 1)"
  have wh: "win = 2 * h" "0 < h" using len by (simp_all add: win_def h_def flip: power_Suc)
  define x where "x = largest + 1"
  define c where "c = x - x mod win + pn mod win"
  have w: "push_bit (len * 8) 1 = win" by (simp add: win_def push_bit_eq_mult mult.commute)
  have "(x AND NOT (win - 1)) OR (pn mod win) = c"
    unfolding c_def win_def by (rule or_low) simp_all
  then have D: "DecodePacketNumber len largest (pn mod win) =
      (if c \<le> x - h \<and> c < 2 ^ 62 - win then c + win else if c > x + h \<and> c \<ge> win then c - win else c)"
    unfolding DecodePacketNumber_def Let_def w x_def [symmetric] using wh by (simp add: push_bit_eq_mult)
  have "c = pn - win * (pn div win - x div win)" unfolding c_def by (simp add: algebra_simps flip: minus_mult_div_eq_mod)
  moreover have "pn div win - x div win \<in> {-1, 0, 1}"
  proof -
    have "(x - win) div win \<le> pn div win" "pn div win \<le> (x + win) div win"
      using lo hi wh by (auto intro!: zdiv_mono1 simp: x_def h_def)
    moreover have "(x - win) div win = x div win - 1" "(x + win) div win = x div win + 1"
      using div_add_self2 [of win x] div_add_self2 [of win "x - win"] wh by simp_all
    ultimately show ?thesis by auto
  qed
  ultimately consider "c = pn + win" | "c = pn" | "c = pn - win" by auto
  then show ?thesis unfolding win_def [symmetric] D using wh pn lo hi unfolding x_def h_def [symmetric] by cases auto
qed

text \<open>The bytes of a packet number.\<close>

lemma uint_concat: "uint (ucast (ucast w :: byte) OR push_bit 8 (ucast (ucast (drop_bit 8 w) :: byte)) :: 16 word) = uint w mod 2 ^ 16"
  for w :: u64
proof -
  have "ucast (ucast w :: byte) OR push_bit 8 (ucast (ucast (drop_bit 8 w) :: byte)) = (ucast w :: 16 word)"
    by (rule bit_word_eqI) (auto simp: bit_simps)
  then show ?thesis by (simp add: unsigned_ucast_eq take_bit_eq_mod)
qed

lemma uint_concat3:
  "uint (ucast (ucast w :: byte) + push_bit 8 (ucast (ucast (drop_bit 8 w) :: byte)) +
     push_bit 16 (ucast (ucast (drop_bit 16 w) :: byte)) :: 32 word) = uint w mod 2 ^ 24"
  for w :: u64
proof -
  let ?a = "ucast (ucast w :: byte) :: 32 word" and ?b = "push_bit 8 (ucast (ucast (drop_bit 8 w) :: byte)) :: 32 word"
  let ?c = "push_bit 16 (ucast (ucast (drop_bit 16 w) :: byte)) :: 32 word"
  have "?a + ?b = ?a OR ?b" by (rule disjunctive_add) (auto simp: bit_simps)
  moreover have "(?a OR ?b) + ?c = (?a OR ?b) OR ?c" by (rule disjunctive_add) (auto simp: bit_simps)
  moreover have "(?a OR ?b) OR ?c = take_bit 24 (ucast w :: 32 word)"
  proof (rule bit_word_eqI)
    fix n show "bit ((?a OR ?b) OR ?c) n = bit (take_bit 24 (ucast w :: 32 word)) n" by (cases "n < 16") (auto simp: bit_simps)
  qed
  ultimately have "uint (?a + ?b + ?c) = uint (take_bit 24 (ucast w :: 32 word))" by simp
  then show ?thesis by (simp add: unsigned_take_bit_eq unsigned_ucast_eq) (simp add: take_bit_eq_mod)
qed

lemma uint_concat4:
  "uint (ucast (ucast w :: byte) OR push_bit 8 (ucast (ucast (drop_bit 8 w) :: byte)) OR
     push_bit 16 (ucast (ucast (drop_bit 16 w) :: byte)) OR push_bit 24 (ucast (ucast (drop_bit 24 w) :: byte)) :: 32 word) = uint w mod 2 ^ 32"
  for w :: u64
proof -
  let ?x = "ucast (ucast w :: byte) OR push_bit 8 (ucast (ucast (drop_bit 8 w) :: byte)) OR
     push_bit 16 (ucast (ucast (drop_bit 16 w) :: byte)) OR push_bit 24 (ucast (ucast (drop_bit 24 w) :: byte)) :: 32 word"
  have "?x = (ucast w :: 32 word)"
  proof (rule bit_word_eqI)
    fix n show "bit ?x n = bit (ucast w :: 32 word) n" by (cases "n < 16"; cases "n < 24") (auto simp: bit_simps)
  qed
  then show ?thesis by (simp add: unsigned_ucast_eq take_bit_eq_mod)
qed

lemma pn_bytes:
  fixes w :: u64
  shows "readPacketNumber ([ucast w] @ rest) 1 = Inr (uint w mod 2 ^ 8)"
    "readPacketNumber ([ucast (drop_bit 8 w), ucast w] @ rest) 2 = Inr (uint w mod 2 ^ 16)"
    "readPacketNumber ([ucast (drop_bit 16 w), ucast (drop_bit 8 w), ucast w] @ rest) 3 = Inr (uint w mod 2 ^ 24)"
    "readPacketNumber ([ucast (drop_bit 24 w), ucast (drop_bit 16 w), ucast (drop_bit 8 w), ucast w] @ rest) 4 = Inr (uint w mod 2 ^ 32)"
proof -
  show "readPacketNumber ([ucast w] @ rest) 1 = Inr (uint w mod 2 ^ 8)"
    by (simp add: readPacketNumber_def unsigned_ucast_eq take_bit_eq_mod)
  have n: "(x # y # zs) ! 1 = y" "(x # y # z # zs) ! 2 = z" "(x # y # z # u # zs) ! 3 = u" for x y z u :: byte and zs
    by (simp_all add: numeral_eq_Suc)
  show "readPacketNumber ([ucast (drop_bit 8 w), ucast w] @ rest) 2 = Inr (uint w mod 2 ^ 16)"
    unfolding readPacketNumber_def append.simps nth_Cons_0 n uint_concat by simp
  show "readPacketNumber ([ucast (drop_bit 16 w), ucast (drop_bit 8 w), ucast w] @ rest) 3 = Inr (uint w mod 2 ^ 24)"
    unfolding readPacketNumber_def append.simps nth_Cons_0 n uint_concat3 by simp
  show "readPacketNumber ([ucast (drop_bit 24 w), ucast (drop_bit 16 w), ucast (drop_bit 8 w), ucast w] @ rest) 4 = Inr (uint w mod 2 ^ 32)"
    unfolding readPacketNumber_def append.simps nth_Cons_0 n uint_concat4 by simp
qed

lemma readPacketNumber_append:
  assumes "appendPacketNumber b pn pnLen = Inr b'"
  shows "\<exists>c. b' = b @ c \<and> length c = pnLen \<and> readPacketNumber (c @ rest) pnLen = Inr (pn mod 2 ^ (8 * pnLen))"
proof -
  define w :: u64 where "w = word_of_int pn"
  have w: "uint w mod 2 ^ k = pn mod 2 ^ k" if "k \<le> 64" for k
    using mod_mod_cancel [OF le_imp_power_dvd [of k 64 "2 :: int", OF that], of pn] by (simp add: w_def uint_word_of_int)
  have r: "readPacketNumber (c @ rest) l = Inr (pn mod 2 ^ (8 * l))" if "readPacketNumber (c @ rest) l = Inr (uint w mod 2 ^ (8 * l))" "l \<le> 4" for c l
    using that w [of "8 * l"] by simp
  note app = assms [unfolded appendPacketNumber_def Let_def w_def [symmetric]]
  consider "pnLen = 1" "b' = b @ [ucast w]" | "pnLen = 2" "b' = b @ [ucast (drop_bit 8 w), ucast w]"
    | "pnLen = 3" "b' = b @ [ucast (drop_bit 16 w), ucast (drop_bit 8 w), ucast w]"
    | "pnLen = 4" "b' = b @ [ucast (drop_bit 24 w), ucast (drop_bit 16 w), ucast (drop_bit 8 w), ucast w]"
    using app by (simp only: sum.inject sum.distinct split: if_splits)
  then show ?thesis
  proof cases
    case 1
    have "readPacketNumber ([ucast w] @ rest) pnLen = Inr (pn mod 2 ^ (8 * pnLen))" by (rule r) (simp_all only: 1 pn_bytes, simp_all)
    then show ?thesis using 1 by (intro exI [of _ "[ucast w]"]) simp
  next
    case 2
    let ?c = "[ucast (drop_bit 8 w), ucast w] :: bytes"
    have "readPacketNumber (?c @ rest) pnLen = Inr (pn mod 2 ^ (8 * pnLen))" by (rule r) (simp_all only: 2 pn_bytes, simp_all)
    then show ?thesis using 2 by (intro exI [of _ ?c]) simp
  next
    case 3
    let ?c = "[ucast (drop_bit 16 w), ucast (drop_bit 8 w), ucast w] :: bytes"
    have "readPacketNumber (?c @ rest) pnLen = Inr (pn mod 2 ^ (8 * pnLen))" by (rule r) (simp_all only: 3 pn_bytes, simp_all)
    then show ?thesis using 3 by (intro exI [of _ ?c]) simp
  next
    case 4
    let ?c = "[ucast (drop_bit 24 w), ucast (drop_bit 16 w), ucast (drop_bit 8 w), ucast w] :: bytes"
    have "readPacketNumber (?c @ rest) pnLen = Inr (pn mod 2 ^ (8 * pnLen))" by (rule r) (simp_all only: 4 pn_bytes, simp_all)
    then show ?thesis using 4 by (intro exI [of _ ?c]) simp
  qed
qed

section \<open>From the sender to the receiver\<close>

lemma pn_length_cases: "PacketNumberLengthForHeader pn largestAcked \<in> {2, 3, 4}"
  by (simp add: PacketNumberLengthForHeader_def Let_def)

lemma pn_length_covers:
  assumes "- 1 \<le> largestAcked" "pn - largestAcked < 2 ^ 31"
  shows "pn - largestAcked < 2 ^ (8 * PacketNumberLengthForHeader pn largestAcked - 1)"
  using assms by (auto simp: PacketNumberLengthForHeader_def InvalidPacketNumber_def push_bit_eq_mult Let_def)

lemma appendPacketNumber_total: "pnLen \<in> {2, 3, 4} \<Longrightarrow> \<exists>b'. appendPacketNumber b pn pnLen = Inr b'"
  by (auto simp: appendPacketNumber_def Let_def)

text \<open>The first byte of a header says how long the packet number is and what the key phase is.\<close>

lemma short_type_byte:
  fixes t :: byte
  assumes "pnLen \<in> {2, 3, 4}" and "t = (if kp then (0x40 OR (of_nat pnLen - 1)) OR push_bit 2 1 else 0x40 OR (of_nat pnLen - 1))"
  shows "\<not> t AND 0x80 > 0" "t AND 0x40 \<noteq> 0" "unat (t AND 3) + 1 = pnLen" "(t AND 4 > 0) = kp" "t AND 0x18 = 0"
  using assms by auto

lemma ParseShortHeader_append:
  assumes l: "pnLen \<in> {2, 3, 4}" and h: "AppendShortHeader [] connID pn pnLen kp = Inr h"
  shows "length h = ShortHeaderLen connID pnLen \<and>
    ParseShortHeader (h @ rest) (length connID) = Inr (length h, pn mod 2 ^ (8 * pnLen), pnLen, kp, False)"
proof -
  define t :: byte where "t = (if kp then (0x40 OR (of_nat pnLen - 1)) OR push_bit 2 1 else 0x40 OR (of_nat pnLen - 1))"
  note tb = short_type_byte [OF l t_def]
  have "appendPacketNumber (t # connID) pn pnLen = Inr h" using h by (simp add: AppendShortHeader_def Let_def t_def split: if_splits)
  from readPacketNumber_append [OF this, of rest] obtain c where c: "h = (t # connID) @ c" "length c = pnLen"
    "readPacketNumber (c @ rest) pnLen = Inr (pn mod 2 ^ (8 * pnLen))" by blast
  have d: "drop (1 + length connID) (h @ rest) = c @ rest" "(h @ rest) ! 0 = t" "h @ rest \<noteq> []" "\<not> length (h @ rest) < 1 + pnLen + length connID"
    "length h = ShortHeaderLen connID pnLen" "1 + length connID + pnLen = length h"
    using c(1,2) by (simp_all add: ShortHeaderLen_def)
  show ?thesis unfolding ParseShortHeader_def Let_def d(1,2,6) tb c(3) rbind_Inr using d(3,4,5) tb by simp
qed

text \<open>
  C37: the receiver of a short header restores the packet number it was sent with.  The sender picks the number of
  bytes from the highest number it saw acknowledged; the receiver has seen at least that one, and
  may have seen up to 32766 later packets before this one.  The header is parsed back with its
  length and key phase.
\<close>
theorem packet_number_delivered:
  assumes pn: "0 \<le> pn" "pn < 2 ^ 62" and acked: "- 1 \<le> largestAcked" "largestAcked \<le> largest" "pn - largestAcked < 2 ^ 31"
    and late: "largest < pn + 2 ^ 15 - 1"
  shows "\<exists>h wire. AppendShortHeader [] connID pn (PacketNumberLengthForHeader pn largestAcked) kp = Inr h \<and>
     ParseShortHeader (h @ payload) (length connID) = Inr (length h, wire, PacketNumberLengthForHeader pn largestAcked, kp, False) \<and>
     DecodePacketNumber (PacketNumberLengthForHeader pn largestAcked) largest wire = pn"
proof -
  let ?l = "PacketNumberLengthForHeader pn largestAcked"
  have l: "?l \<in> {2, 3, 4}" by (rule pn_length_cases)
  obtain h where h: "AppendShortHeader [] connID pn ?l kp = Inr h"
    using appendPacketNumber_total [OF l] unfolding AppendShortHeader_def Let_def by blast
  have "(2 :: int) ^ 15 \<le> 2 ^ (8 * ?l - 1)" using l by (intro power_increasing) auto
  then have "largest + 1 - 2 ^ (8 * ?l - 1) < pn" using late by linarith
  moreover have "pn \<le> largest + 1 + 2 ^ (8 * ?l - 1)" using pn_length_covers [OF acked(1,3)] acked(2) by linarith
  ultimately have "DecodePacketNumber ?l largest (pn mod 2 ^ (8 * ?l)) = pn" using l by (intro DecodePacketNumber_window [OF pn]) auto
  then show ?thesis using ParseShortHeader_append [OF l h, of payload] h by blast
qed

theorem packet_number_delivered_witness:
  "\<exists>h wire. AppendShortHeader [] [9, 8] 70000 (PacketNumberLengthForHeader 70000 65000) True = Inr h \<and>
     ParseShortHeader (h @ [1]) (length [9, 8 :: byte]) = Inr (length h, wire, PacketNumberLengthForHeader 70000 65000, True, False) \<and>
     DecodePacketNumber (PacketNumberLengthForHeader 70000 65000) 70005 wire = 70000"
  by (rule packet_number_delivered) simp_all

end
