(* ===== verification/Docs_Entry.thy ===== *)
theory Docs_Entry
  imports Postcard Iroh_Key "HOL-Library.Product_Lexorder"
begin

text \<open>
  Document entries: \<open>docs/entry.go\<close> and the identifiers of \<open>docs/keys.go\<close>.  A namespace or
  author identifier is the 32 bytes of its public key.  The blake3 hash and the Ed25519
  arithmetic are parameters.  Records are ordered by timestamp, then content hash; identifiers
  by the bytes of namespace, author and key.
\<close>

section \<open>Identifiers, records and entries\<close>

type_synonym NamespaceID = EndpointID
type_synonym AuthorID = EndpointID
type_synonym Hash = bytes
type_synonym Fingerprint = bytes

record RecordIdentifier =
  ri_namespace :: NamespaceID
  ri_author :: AuthorID
  ri_key :: bytes

record Record =
  rec_Len :: u64
  rec_Hash :: Hash
  rec_Timestamp :: u64

record Entry =
  e_ID :: RecordIdentifier
  e_Record :: Record

record EntrySignature =
  es_Author :: Signature
  es_Namespace :: Signature

record SignedEntry =
  se_Signature :: EntrySignature
  se_Entry :: Entry

datatype ContentStatus = ContentComplete | ContentIncomplete | ContentMissing | ContentStatusOther u64

definition EmptyHash :: Hash where
  "EmptyHash = [175, 19, 73, 185, 245, 249, 161, 166, 160, 64, 77, 234, 54, 220, 201, 73,
     155, 203, 37, 201, 173, 193, 18, 183, 204, 154, 147, 202, 228, 31, 50, 98]"

text \<open>\<open>bytes.Compare\<close>, with the sign of its result.\<close>

definition bytesCompare :: "bytes \<Rightarrow> bytes \<Rightarrow> int" where
  "bytesCompare a b = (if a < b then -1 else if a = b then 0 else 1)"

definition ri_bytes :: "RecordIdentifier \<Rightarrow> bytes" where
  "ri_bytes i = ri_namespace i @ ri_author i @ ri_key i"

definition RecordIdentifier_Compare :: "RecordIdentifier \<Rightarrow> RecordIdentifier \<Rightarrow> int" where
  "RecordIdentifier_Compare i other = bytesCompare (ri_bytes i) (ri_bytes other)"

definition NewRecord :: "Hash \<Rightarrow> u64 \<Rightarrow> u64 \<Rightarrow> Record" where
  "NewRecord hash len timestamp = \<lparr>rec_Len = len, rec_Hash = hash, rec_Timestamp = timestamp\<rparr>"

definition EmptyRecord :: "u64 \<Rightarrow> Record" where
  "EmptyRecord timestamp = NewRecord EmptyHash 0 timestamp"

definition Record_IsEmpty :: "Record \<Rightarrow> bool" where
  "Record_IsEmpty r \<longleftrightarrow> rec_Hash r = EmptyHash"

definition Record_Compare :: "Record \<Rightarrow> Record \<Rightarrow> int" where
  "Record_Compare r other =
     (if rec_Timestamp r < rec_Timestamp other then -1
      else if rec_Timestamp r > rec_Timestamp other then 1
      else bytesCompare (rec_Hash r) (rec_Hash other))"

definition Entry_Compare :: "Entry \<Rightarrow> Entry \<Rightarrow> int" where
  "Entry_Compare e other =
     (let c = RecordIdentifier_Compare (e_ID e) (e_ID other) in
      if c \<noteq> 0 then c else Record_Compare (e_Record e) (e_Record other))"

definition ValidateEmpty :: "Entry \<Rightarrow> bool" where
  "ValidateEmpty e \<longleftrightarrow>
     (rec_Hash (e_Record e) = EmptyHash \<and> rec_Len (e_Record e) = 0) \<or>
     (rec_Hash (e_Record e) \<noteq> EmptyHash \<and> rec_Len (e_Record e) \<noteq> 0)"

text \<open>Big-endian 64-bit integers.\<close>

definition putUint64BE :: "u64 \<Rightarrow> bytes" where
  "putUint64BE x = [ucast (drop_bit 56 x), ucast (drop_bit 48 x), ucast (drop_bit 40 x), ucast (drop_bit 32 x),
     ucast (drop_bit 24 x), ucast (drop_bit 16 x), ucast (drop_bit 8 x), ucast x]"

definition Entry_Encode :: "Entry \<Rightarrow> bytes" where
  "Entry_Encode e = ri_bytes (e_ID e) @ putUint64BE (rec_Len (e_Record e)) @ rec_Hash (e_Record e)
     @ putUint64BE (rec_Timestamp (e_Record e))"

text \<open>The input of the fingerprint hash: everything that orders an entry, not its length or signatures.\<close>

definition fingerprint_input :: "SignedEntry \<Rightarrow> bytes" where
  "fingerprint_input s =
     (let e = se_Entry s in
      ri_namespace (e_ID e) @ ri_author (e_ID e) @ ri_key (e_ID e) @ putUint64BE (rec_Timestamp (e_Record e))
      @ rec_Hash (e_Record e))"

definition SignedEntry_Fingerprint :: "(bytes \<Rightarrow> bytes) \<Rightarrow> SignedEntry \<Rightarrow> Fingerprint" where
  "SignedEntry_Fingerprint blake3 s = blake3 (fingerprint_input s)"

definition MaxTimestampFutureShift :: u64 where
  "MaxTimestampFutureShift = 10 * 60 * 1000000"

text \<open>\<open>now\<close> is \<open>uint64(time.Now().UnixMicro())\<close>; the sum is taken modulo \<open>2^64\<close>.\<close>

definition acceptTimestamp :: "u64 \<Rightarrow> Entry \<Rightarrow> bool" where
  "acceptTimestamp now e \<longleftrightarrow> rec_Timestamp (e_Record e) \<le> now + MaxTimestampFutureShift"

section \<open>Signatures\<close>

definition SignEntry :: "ed25519 \<Rightarrow> Entry \<Rightarrow> SecretKey \<Rightarrow> SecretKey \<Rightarrow> EntrySignature" where
  "SignEntry E e namespace author =
     (let b = Entry_Encode e in
      \<lparr>es_Author = SecretKey_Sign E author b, es_Namespace = SecretKey_Sign E namespace b\<rparr>)"

definition NewSignedEntry :: "ed25519 \<Rightarrow> Entry \<Rightarrow> SecretKey \<Rightarrow> SecretKey \<Rightarrow> SignedEntry" where
  "NewSignedEntry E e namespace author =
     \<lparr>se_Signature = SignEntry E e namespace author, se_Entry = e\<rparr>"

definition EntrySignature_Verify ::
  "ed25519 \<Rightarrow> EntrySignature \<Rightarrow> Entry \<Rightarrow> NamespaceID \<Rightarrow> AuthorID \<Rightarrow> key_error + unit" where
  "EntrySignature_Verify E sig e namespace author =
     (let b = Entry_Encode e in
      rbind (PublicKey_Verify E namespace b (es_Namespace sig)) (\<lambda>_. PublicKey_Verify E author b (es_Author sig)))"

definition SignedEntry_Verify :: "ed25519 \<Rightarrow> SignedEntry \<Rightarrow> key_error + unit" where
  "SignedEntry_Verify E s =
     EntrySignature_Verify E (se_Signature s) (se_Entry s) (ri_namespace (e_ID (se_Entry s)))
       (ri_author (e_ID (se_Entry s)))"

section \<open>Codecs\<close>

definition enc_RecordIdentifier :: "RecordIdentifier \<Rightarrow> pc_error + bytes" where
  "enc_RecordIdentifier i = enc_bytes (ri_bytes i)"

definition dec_RecordIdentifier :: "ed25519 \<Rightarrow> RecordIdentifier dec" where
  "dec_RecordIdentifier E d = rbind (dec_bytes d) (\<lambda>(b, d').
     if length b < 64 then Inl (ErrCustom ''docs: record identifier too short'')
     else case NewEndpointID E (take 32 b) of
       Inl _ \<Rightarrow> Inl (ErrCustom ''key: invalid namespace'')
     | Inr ns \<Rightarrow>
         (case NewEndpointID E (take 32 (drop 32 b)) of
            Inl _ \<Rightarrow> Inl (ErrCustom ''key: invalid author'')
          | Inr author \<Rightarrow> Inr (\<lparr>ri_namespace = ns, ri_author = author, ri_key = drop 64 b\<rparr>, d')))"

definition enc_Record :: "Record \<Rightarrow> pc_error + bytes" where
  "enc_Record r = enc_pair enc_uint (enc_pair enc_raw enc_uint) (rec_Len r, rec_Hash r, rec_Timestamp r)"

definition dec_Record :: "Record dec" where
  "dec_Record = dec_map (\<lambda>(l, h, t). \<lparr>rec_Len = l, rec_Hash = h, rec_Timestamp = t\<rparr>)
     (dec_pair dec_uint (dec_pair (dec_raw 32) dec_uint))"

definition enc_Entry :: "Entry \<Rightarrow> pc_error + bytes" where
  "enc_Entry e = enc_pair enc_RecordIdentifier enc_Record (e_ID e, e_Record e)"

definition dec_Entry :: "ed25519 \<Rightarrow> Entry dec" where
  "dec_Entry E = dec_map (\<lambda>(i, r). \<lparr>e_ID = i, e_Record = r\<rparr>) (dec_pair (dec_RecordIdentifier E) dec_Record)"

definition enc_EntrySignature :: "EntrySignature \<Rightarrow> pc_error + bytes" where
  "enc_EntrySignature s = enc_pair enc_raw enc_raw (es_Author s, es_Namespace s)"

definition dec_EntrySignature :: "EntrySignature dec" where
  "dec_EntrySignature = dec_map (\<lambda>(a, n). \<lparr>es_Author = a, es_Namespace = n\<rparr>)
     (dec_pair (dec_raw SignatureSize) (dec_raw SignatureSize))"

definition enc_SignedEntry :: "SignedEntry \<Rightarrow> pc_error + bytes" where
  "enc_SignedEntry s = enc_pair enc_EntrySignature enc_Entry (se_Signature s, se_Entry s)"

definition dec_SignedEntry :: "ed25519 \<Rightarrow> SignedEntry dec" where
  "dec_SignedEntry E = dec_map (\<lambda>(s, e). \<lparr>se_Signature = s, se_Entry = e\<rparr>)
     (dec_pair dec_EntrySignature (dec_Entry E))"

definition ok_RecordIdentifier :: "ed25519 \<Rightarrow> RecordIdentifier \<Rightarrow> bool" where
  "ok_RecordIdentifier E i \<longleftrightarrow> length (ri_namespace i) = 32 \<and> length (ri_author i) = 32 \<and>
     validPoint E (ri_namespace i) \<and> validPoint E (ri_author i) \<and> length (ri_bytes i) < 2 ^ 64"

definition ok_Record :: "Record \<Rightarrow> bool" where
  "ok_Record r \<longleftrightarrow> length (rec_Hash r) = 32"

definition ok_EntrySignature :: "EntrySignature \<Rightarrow> bool" where
  "ok_EntrySignature s \<longleftrightarrow> length (es_Author s) = 64 \<and> length (es_Namespace s) = 64"

definition ok_Entry :: "ed25519 \<Rightarrow> Entry \<Rightarrow> bool" where
  "ok_Entry E e \<longleftrightarrow> ok_RecordIdentifier E (e_ID e) \<and> ok_Record (e_Record e)"

definition ok_SignedEntry :: "ed25519 \<Rightarrow> SignedEntry \<Rightarrow> bool" where
  "ok_SignedEntry E s \<longleftrightarrow> ok_EntrySignature (se_Signature s) \<and> ok_Entry E (se_Entry s)"

lemma dec_bytes_enc: "length b < 2 ^ 64 \<Longrightarrow> enc_bytes b = Inr x \<Longrightarrow> dec_bytes (x @ rest) = Inr (b, rest)"
  by (auto simp: enc_bytes_def dec_bytes_def unat_of_nat)

lemma unat_u64_lt: "unat (x :: u64) < 18446744073709551616"
  using unsigned_less [of x] by simp

lemma dec_bytes_sound: "dec_bytes d = Inr (b, rest) \<Longrightarrow> length b < 2 ^ 64 \<and> (\<exists>x. enc_bytes b = Inr x \<and> d = x @ rest)"
  by (auto simp: dec_bytes_def enc_bytes_def rbind_eq_Inr not_less of_nat_unat_len unat_u64_lt
      split: if_splits dest!: dec_varint_sound)

interpretation pcRI: pc_codec_ne enc_RecordIdentifier "dec_RecordIdentifier E" "ok_RecordIdentifier E" for E
proof (unfold_locales, goal_cases)
  case (1 i)
  then show ?case by (simp add: enc_RecordIdentifier_def enc_bytes_def)
next
  case (2 i b rest)
  then show ?case
    using dec_bytes_enc [of "ri_bytes i" b rest]
    by (simp add: enc_RecordIdentifier_def dec_RecordIdentifier_def ok_RecordIdentifier_def ri_bytes_def NewEndpointID_eq)
next
  case (3 d i rest)
  then obtain b where b: "dec_bytes d = Inr (b, rest)" "64 \<le> length b" "validPoint E (take 32 b)" "validPoint E (take 32 (drop 32 b))"
    "i = \<lparr>ri_namespace = take 32 b, ri_author = take 32 (drop 32 b), ri_key = drop 64 b\<rparr>"
    by (auto simp: dec_RecordIdentifier_def rbind_eq_Inr NewEndpointID_eq not_less split: if_splits)
  have "take 32 (drop 32 b) @ drop 64 b = drop 32 b"
    using append_take_drop_id [of 32 "drop 32 b"] by simp
  then have "ri_bytes i = b" using b(5) by (simp add: ri_bytes_def)
  with b dec_bytes_sound [OF b(1)] show ?case
    by (auto simp: ok_RecordIdentifier_def enc_RecordIdentifier_def)
next
  case (4 i)
  then show ?case by (simp add: enc_RecordIdentifier_def enc_bytes_def)
qed

interpretation pcsig: pc_codec_ne enc_raw "dec_raw SignatureSize" "\<lambda>b. length b = 64"
  using pc_codec_ne_raw [of 64] by (simp add: key_sizes)

interpretation pcRecord: pc_codec_ne enc_Record dec_Record ok_Record
  by (rule pc_structI [OF pc_codec_pair_neI [OF pcu64.pc_codec_axioms
          pc_codec_pairI [OF pcid.pc_codec_axioms pcu64.pc_codec_axioms] pcu64.pc_codec_ne_axioms],
        where fs = "\<lambda>r. (rec_Len r, rec_Hash r, rec_Timestamp r)"
        and mk = "\<lambda>(l, h, t). \<lparr>rec_Len = l, rec_Hash = h, rec_Timestamp = t\<rparr>"])
    (auto simp: fun_eq_iff enc_Record_def dec_Record_def ok_Record_def)

interpretation pcEntry: pc_codec_ne enc_Entry "dec_Entry E" "ok_Entry E" for E
  by (rule pc_structI [OF pc_codec_pair_neI [OF pcRI.pc_codec_axioms pcRecord.pc_codec_axioms pcRI.pc_codec_ne_axioms],
        where fs = "\<lambda>e. (e_ID e, e_Record e)" and mk = "\<lambda>(i, r). \<lparr>e_ID = i, e_Record = r\<rparr>"])
    (auto simp: fun_eq_iff enc_Entry_def dec_Entry_def ok_Entry_def)

interpretation pcEntrySignature: pc_codec_ne enc_EntrySignature dec_EntrySignature ok_EntrySignature
  by (rule pc_structI [OF pc_codec_pair_neI [OF pcsig.pc_codec_axioms pcsig.pc_codec_axioms pcsig.pc_codec_ne_axioms],
        where fs = "\<lambda>s. (es_Author s, es_Namespace s)" and mk = "\<lambda>(a, n). \<lparr>es_Author = a, es_Namespace = n\<rparr>"])
    (auto simp: fun_eq_iff enc_EntrySignature_def dec_EntrySignature_def ok_EntrySignature_def)

interpretation pcSignedEntry: pc_codec_ne enc_SignedEntry "dec_SignedEntry E" "ok_SignedEntry E" for E
  by (rule pc_structI [OF pc_codec_pair_neI [OF pcEntrySignature.pc_codec_axioms pcEntry.pc_codec_axioms
          pcEntrySignature.pc_codec_ne_axioms],
        where fs = "\<lambda>s. (se_Signature s, se_Entry s)" and mk = "\<lambda>(s, e). \<lparr>se_Signature = s, se_Entry = e\<rparr>"])
    (auto simp: fun_eq_iff enc_SignedEntry_def dec_SignedEntry_def ok_SignedEntry_def)

section \<open>Comparisons are the signs of linear orders\<close>

text \<open>What identifies and orders an entry: its identifier, then timestamp and content hash.\<close>

definition rec_key :: "Record \<Rightarrow> u64 \<times> Hash" where
  "rec_key r = (rec_Timestamp r, rec_Hash r)"

definition ri_ok :: "RecordIdentifier \<Rightarrow> bool" where
  "ri_ok i \<longleftrightarrow> length (ri_namespace i) = 32 \<and> length (ri_author i) = 32"

lemma bytesCompare_signs [simp]:
  "bytesCompare a b < 0 \<longleftrightarrow> a < b" "bytesCompare a b \<le> 0 \<longleftrightarrow> a \<le> b" "bytesCompare a b = 0 \<longleftrightarrow> a = b"
  "0 < bytesCompare a b \<longleftrightarrow> b < a" "0 \<le> bytesCompare a b \<longleftrightarrow> b \<le> a"
  by (auto simp: bytesCompare_def not_less)

lemma Record_Compare_signs [simp]:
  "Record_Compare r o' \<le> 0 \<longleftrightarrow> rec_key r \<le> rec_key o'" "0 \<le> Record_Compare r o' \<longleftrightarrow> rec_key o' \<le> rec_key r"
  "Record_Compare r o' = 0 \<longleftrightarrow> rec_key r = rec_key o'"
  by (auto simp: Record_Compare_def rec_key_def less_eq_prod_def)

lemma ri_bytes_inj: "ri_ok i \<Longrightarrow> ri_ok j \<Longrightarrow> ri_bytes i = ri_bytes j \<longleftrightarrow> i = j"
  by (cases i; cases j) (auto simp: ri_ok_def ri_bytes_def)

end
