(* ===== verification/Docs_Store.thy ===== *)
theory Docs_Store
  imports Docs_Entry
begin

text \<open>
  The in-memory document store and its range reconciliation: \<open>docs/store.go\<close>, \<open>docs/ranger.go\<close>
  and \<open>docs/heads.go\<close>.  The store's maps are association lists keyed by the identifier's bytes.
  Each operation is one critical section of the store's mutex, so it is a function of the state.
  Events sent to subscribers are appended to \<open>ms_sent\<close>.  Saving the store to its file is an
  argument: \<open>save\<close> gives the error of \<open>saveFile\<close> for the entries saved.
\<close>

section \<open>Ranges and messages\<close>

definition EmptyFingerprint :: "(bytes \<Rightarrow> bytes) \<Rightarrow> Fingerprint" where
  "EmptyFingerprint blake3 = blake3 []"

definition Fingerprint_Xor :: "Fingerprint \<Rightarrow> Fingerprint \<Rightarrow> Fingerprint" where
  "Fingerprint_Xor f other = map2 (XOR) f other"

record Range =
  r_Start :: RecordIdentifier
  r_End :: RecordIdentifier

definition NewRange :: "RecordIdentifier \<Rightarrow> RecordIdentifier \<Rightarrow> Range" where
  "NewRange s e = \<lparr>r_Start = s, r_End = e\<rparr>"

definition Range_IsAll :: "Range \<Rightarrow> bool" where
  "Range_IsAll r \<longleftrightarrow> RecordIdentifier_Compare (r_Start r) (r_End r) = 0"

definition Range_Contains :: "Range \<Rightarrow> RecordIdentifier \<Rightarrow> bool" where
  "Range_Contains r i =
     (let c = RecordIdentifier_Compare (r_Start r) (r_End r) in
      if c = 0 then True
      else if c < 0 then RecordIdentifier_Compare (r_Start r) i \<le> 0 \<and> RecordIdentifier_Compare i (r_End r) < 0
      else RecordIdentifier_Compare (r_Start r) i \<le> 0 \<or> RecordIdentifier_Compare i (r_End r) < 0)"

record RangeFingerprint =
  rf_Range :: Range
  rf_Fingerprint :: Fingerprint

record RangeValue =
  rv_Entry :: SignedEntry
  rv_Status :: ContentStatus

record RangeItem =
  rit_Range :: Range
  rit_Values :: "RangeValue list"
  rit_HaveLocal :: bool

datatype MessagePart =
    PartFingerprint RangeFingerprint
  | PartItem RangeItem
  | PartUnknown u64

record Message =
  m_Parts :: "MessagePart list"

record SyncConfig =
  MaxSetSize :: int
  SplitFactor :: int

definition withDefaults :: "SyncConfig \<Rightarrow> SyncConfig" where
  "withDefaults c =
     (let c = (if MaxSetSize c = 0 then c\<lparr>MaxSetSize := 1\<rparr> else c)
      in if SplitFactor c < 2 then c\<lparr>SplitFactor := 2\<rparr> else c)"

section \<open>Codecs of the messages\<close>

text \<open>\<open>ContentStatus\<close> is encoded as its number.\<close>

fun status_num :: "ContentStatus \<Rightarrow> u64" where
  "status_num ContentComplete = 0"
| "status_num ContentIncomplete = 1"
| "status_num ContentMissing = 2"
| "status_num (ContentStatusOther n) = n"

definition enc_Range :: "Range \<Rightarrow> pc_error + bytes" where
  "enc_Range r = enc_pair enc_RecordIdentifier enc_RecordIdentifier (r_Start r, r_End r)"

definition enc_RangeFingerprint :: "RangeFingerprint \<Rightarrow> pc_error + bytes" where
  "enc_RangeFingerprint f = enc_pair enc_Range enc_raw (rf_Range f, rf_Fingerprint f)"

definition enc_RangeValue :: "RangeValue \<Rightarrow> pc_error + bytes" where
  "enc_RangeValue v = enc_pair enc_SignedEntry enc_uint (rv_Entry v, status_num (rv_Status v))"

definition enc_RangeItem :: "RangeItem \<Rightarrow> pc_error + bytes" where
  "enc_RangeItem i = enc_pair enc_Range (enc_pair (enc_slice enc_RangeValue) enc_bool)
     (rit_Range i, rit_Values i, rit_HaveLocal i)"

fun enc_MessagePart :: "MessagePart \<Rightarrow> pc_error + bytes" where
  "enc_MessagePart (PartFingerprint f) = enc_kind 0 (enc_RangeFingerprint f)"
| "enc_MessagePart (PartItem i) = enc_kind 1 (enc_RangeItem i)"
| "enc_MessagePart (PartUnknown k) = Inl (ErrUnknownVariant k)"

definition maxSyncMessageSize :: nat where
  "maxSyncMessageSize = 16 * 1024 * 1024"

section \<open>The store\<close>

datatype InsertOriginKind = InsertOriginLocal | InsertOriginRemote

record InsertOrigin =
  io_Kind :: InsertOriginKind
  io_From :: EndpointID
  io_ContentStatus :: ContentStatus

datatype StoreEvent =
    StoreEventInsert InsertOriginKind u64 SignedEntry nat EndpointID ContentStatus
  | StoreEventLagged u64
  | StoreEventContentReady u64 Hash

record MemoryStore =
  ms_entries :: "(bytes, SignedEntry) gomap"
  ms_origins :: "(bytes, InsertOrigin) gomap"
  ms_seq :: u64
  ms_watched :: bool
  ms_sent :: "StoreEvent list"
  ms_persistPath :: bool
  ms_persistErr :: "string option"

record InsertOutcome =
  out_inserted :: bool
  out_removed :: nat
  out_err :: "string option"

definition NewMemoryStore :: MemoryStore where
  "NewMemoryStore = \<lparr>ms_entries = [], ms_origins = [], ms_seq = 0, ms_watched = False, ms_sent = [],
     ms_persistPath = False, ms_persistErr = None\<rparr>"

abbreviation se_ID :: "SignedEntry \<Rightarrow> RecordIdentifier" where
  "se_ID s \<equiv> e_ID (se_Entry s)"

abbreviation se_Record :: "SignedEntry \<Rightarrow> Record" where
  "se_Record s \<equiv> e_Record (se_Entry s)"

definition GetExact :: "NamespaceID \<Rightarrow> AuthorID \<Rightarrow> bytes \<Rightarrow> bool \<Rightarrow> MemoryStore \<Rightarrow> SignedEntry option" where
  "GetExact namespace author k includeEmpty s =
     (case map_of (ms_entries s) (ri_bytes \<lparr>ri_namespace = namespace, ri_author = author, ri_key = k\<rparr>) of
        None \<Rightarrow> None
      | Some e \<Rightarrow> if \<not> includeEmpty \<and> Record_IsEmpty (se_Record e) then None else Some e)"

text \<open>\<open>slices.SortFunc\<close> with \<open>SignedEntry.Compare\<close>; entries of a store have distinct identifiers.\<close>

definition sortEntries :: "SignedEntry list \<Rightarrow> SignedEntry list" where
  "sortEntries es = sort_key (\<lambda>s. (ri_bytes (se_ID s), rec_key (se_Record s))) es"

datatype namespaceScope = allNamespaces | inNamespace NamespaceID

definition sc_contains :: "namespaceScope \<Rightarrow> SignedEntry \<Rightarrow> bool" where
  "sc_contains sc e = (case sc of allNamespaces \<Rightarrow> True | inNamespace n \<Rightarrow> ri_namespace (se_ID e) = n)"

definition scopeRange :: "namespaceScope \<Rightarrow> Range \<Rightarrow> MemoryStore \<Rightarrow> SignedEntry list" where
  "scopeRange sc r s =
     sortEntries (filter (\<lambda>e. sc_contains sc e \<and> Range_Contains r (se_ID e)) (map snd (ms_entries s)))"

definition fingerprintOf :: "(bytes \<Rightarrow> bytes) \<Rightarrow> SignedEntry list \<Rightarrow> Fingerprint" where
  "fingerprintOf blake3 es =
     foldl (\<lambda>fp e. Fingerprint_Xor fp (SignedEntry_Fingerprint blake3 e)) (EmptyFingerprint blake3) es"

definition scopeFingerprint :: "(bytes \<Rightarrow> bytes) \<Rightarrow> namespaceScope \<Rightarrow> Range \<Rightarrow> MemoryStore \<Rightarrow> Fingerprint" where
  "scopeFingerprint blake3 sc r s = fingerprintOf blake3 (scopeRange sc r s)"

definition zero_identifier :: RecordIdentifier where
  "zero_identifier = \<lparr>ri_namespace = replicate 32 0, ri_author = replicate 32 0, ri_key = []\<rparr>"

definition initialMessage :: "(bytes \<Rightarrow> bytes) \<Rightarrow> namespaceScope \<Rightarrow> MemoryStore \<Rightarrow> Message" where
  "initialMessage blake3 sc s =
     (let es = scopeRange sc (NewRange zero_identifier zero_identifier) s;
          first = (case es of [] \<Rightarrow> zero_identifier | e # _ \<Rightarrow> se_ID e)
      in \<lparr>m_Parts = [PartFingerprint \<lparr>rf_Range = NewRange first first, rf_Fingerprint = fingerprintOf blake3 es\<rparr>]\<rparr>)"

section \<open>Insertion\<close>

definition hasEntryPrefix :: "RecordIdentifier \<Rightarrow> RecordIdentifier \<Rightarrow> bool" where
  "hasEntryPrefix i p \<longleftrightarrow> ri_namespace i = ri_namespace p \<and> ri_author i = ri_author p \<and>
     take (length (ri_key p)) (ri_key i) = ri_key p"

definition putEntry ::
  "SignedEntry \<Rightarrow> InsertOrigin \<Rightarrow> bool \<Rightarrow> MemoryStore \<Rightarrow> InsertOutcome \<times> StoreEvent option \<times> MemoryStore" where
  "putEntry entry origin notify s =
     (let i = se_ID entry; k = ri_bytes i in
      if \<exists>x\<in>set (ms_entries s). hasEntryPrefix i (se_ID (snd x)) \<and>
           Record_Compare (se_Record entry) (se_Record (snd x)) \<le> 0
      then (\<lparr>out_inserted = False, out_removed = 0, out_err = None\<rparr>, None, s)
      else
        let shadowed = (\<lambda>x. hasEntryPrefix (se_ID (snd x)) i \<and>
              0 \<le> Record_Compare (se_Record entry) (se_Record (snd x)));
            gone = map fst (filter shadowed (ms_entries s));
            s1 = s\<lparr>ms_entries := mput k entry (filter (\<lambda>x. \<not> shadowed x) (ms_entries s)),
                   ms_origins := (let os = filter (\<lambda>x. fst x \<notin> set gone) (ms_origins s)
                                  in if notify then mput k origin os else mdel k os)\<rparr>
        in if notify
           then (\<lparr>out_inserted = True, out_removed = length gone, out_err = None\<rparr>,
                 Some (StoreEventInsert (io_Kind origin) (ms_seq s + 1) entry (length gone) (io_From origin)
                   (io_ContentStatus origin)),
                 s1\<lparr>ms_seq := ms_seq s + 1\<rparr>)
           else (\<lparr>out_inserted = True, out_removed = length gone, out_err = None\<rparr>, None, s1))"

definition store_put :: "SignedEntry \<Rightarrow> MemoryStore \<Rightarrow> InsertOutcome \<times> MemoryStore" where
  "store_put entry s =
     (case putEntry entry \<lparr>io_Kind = InsertOriginLocal, io_From = replicate 32 0, io_ContentStatus = ContentComplete\<rparr> False s of
        (outcome, _, s') \<Rightarrow> (outcome, s'))"

definition setPersistError :: "string option \<Rightarrow> MemoryStore \<Rightarrow> StoreEvent option \<times> MemoryStore" where
  "setPersistError err s =
     (if ms_persistErr s \<noteq> None \<and> err = None
      then (Some (StoreEventLagged (ms_seq s + 1)), s\<lparr>ms_persistErr := err, ms_seq := ms_seq s + 1\<rparr>)
      else (None, s\<lparr>ms_persistErr := err\<rparr>))"

definition store_send :: "StoreEvent option \<Rightarrow> MemoryStore \<Rightarrow> MemoryStore" where
  "store_send ev s = (case ev of Some e \<Rightarrow> if ms_watched s then s\<lparr>ms_sent := ms_sent s @ [e]\<rparr> else s | None \<Rightarrow> s)"

definition PutWithOrigin ::
  "((bytes, SignedEntry) gomap \<Rightarrow> string option) \<Rightarrow> SignedEntry \<Rightarrow> InsertOrigin \<Rightarrow> MemoryStore \<Rightarrow> InsertOutcome \<times> MemoryStore"
where
  "PutWithOrigin save entry origin s =
     (let (outcome, event, s) = putEntry entry origin True s;
          saving = (ms_persistPath s \<and> (out_inserted outcome \<or> ms_persistErr s \<noteq> None));
          outcome = (if saving then outcome\<lparr>out_err := save (ms_entries s)\<rparr> else outcome);
          (recovery, s) = (if saving then setPersistError (out_err outcome) s else (None, s));
          s = (if out_inserted outcome \<and> out_err outcome = None then store_send event s else s)
      in (outcome, store_send recovery s))"

definition Put ::
  "((bytes, SignedEntry) gomap \<Rightarrow> string option) \<Rightarrow> SignedEntry \<Rightarrow> MemoryStore \<Rightarrow> InsertOutcome \<times> MemoryStore" where
  "Put save entry s = PutWithOrigin save entry
     \<lparr>io_Kind = InsertOriginLocal, io_From = replicate 32 0, io_ContentStatus = ContentComplete\<rparr> s"

definition contentReady :: "Hash \<Rightarrow> MemoryStore \<Rightarrow> MemoryStore" where
  "contentReady hash s =
     store_send (Some (StoreEventContentReady (ms_seq s + 1) hash)) (s\<lparr>ms_seq := ms_seq s + 1\<rparr>)"

definition snapshotEvents :: "NamespaceID \<Rightarrow> MemoryStore \<Rightarrow> StoreEvent list" where
  "snapshotEvents namespace s =
     map (\<lambda>e. case map_of (ms_origins s) (ri_bytes (se_ID e)) of
            Some orig \<Rightarrow> StoreEventInsert (io_Kind orig) 0 e 0 (io_From orig) (io_ContentStatus orig)
          | None \<Rightarrow> StoreEventInsert InsertOriginRemote 0 e 0 (replicate 32 0) ContentComplete)
       (filter (\<lambda>e. ri_namespace (se_ID e) = namespace) (sortEntries (map snd (ms_entries s))))"

section \<open>Reconciliation\<close>

definition nonEmptyRanges :: "Range list \<Rightarrow> Range list" where
  "nonEmptyRanges rs = filter (\<lambda>r. RecordIdentifier_Compare (r_Start r) (r_End r) \<noteq> 0) rs"

text \<open>The index of the first identifier that is not below the start of the range, 0 when there is none.\<close>

definition split_start :: "RecordIdentifier list \<Rightarrow> RecordIdentifier \<Rightarrow> nat" where
  "split_start ids s =
     (let k = length (takeWhile (\<lambda>i. RecordIdentifier_Compare i s < 0) ids) in if k = length ids then 0 else k)"

definition pivot :: "RecordIdentifier list \<Rightarrow> nat \<Rightarrow> nat \<Rightarrow> nat \<Rightarrow> RecordIdentifier" where
  "pivot ids start splitFactor i =
     (let n = length ids; offset = (n * (i mod splitFactor + 1)) div splitFactor
      in ids ! ((start + offset) mod n))"

definition pivot_ranges :: "(nat \<Rightarrow> RecordIdentifier) \<Rightarrow> nat \<Rightarrow> Range list" where
  "pivot_ranges p n =
     map (\<lambda>i. NewRange (p i) (p (i + 1)))
       (filter (\<lambda>i. RecordIdentifier_Compare (p i) (p (i + 1)) \<noteq> 0) [0..<n])"

definition splitRange :: "namespaceScope \<Rightarrow> Range \<Rightarrow> int \<Rightarrow> MemoryStore \<Rightarrow> Range list" where
  "splitRange sc r splitFactor s =
     (let sf = nat (if splitFactor < 2 then 2 else splitFactor);
          ids = map se_ID (scopeRange sc r s);
          p = pivot ids (split_start ids (r_Start r)) sf
      in if ids = [] then []
         else if Range_IsAll r then pivot_ranges p sf
         else nonEmptyRanges
           ([NewRange (r_Start r) (p 0)] @ pivot_ranges p (sf - 2) @ [NewRange (p (sf - 2)) (r_End r)]))"

definition peerHasNewerValue :: "RangeValue list \<Rightarrow> SignedEntry \<Rightarrow> bool" where
  "peerHasNewerValue vs e \<longleftrightarrow>
     (\<exists>v\<in>set vs. RecordIdentifier_Compare (se_ID (rv_Entry v)) (se_ID e) = 0 \<and>
        0 \<le> Record_Compare (se_Record (rv_Entry v)) (se_Record e))"

definition rangeValues :: "(SignedEntry \<Rightarrow> ContentStatus) \<Rightarrow> SignedEntry list \<Rightarrow> RangeValue list" where
  "rangeValues contentStatus es = map (\<lambda>e. \<lparr>rv_Entry = e, rv_Status = contentStatus e\<rparr>) es"

text \<open>What a reconciliation round is given besides the store and the message.\<close>

record sync_env =
  se_blake3 :: "bytes \<Rightarrow> bytes"
  se_now :: u64
  se_validate :: "SignedEntry \<Rightarrow> ContentStatus \<Rightarrow> bool"
  se_status :: "SignedEntry \<Rightarrow> ContentStatus"
  se_from :: EndpointID
  se_save :: "(bytes, SignedEntry) gomap \<Rightarrow> string option"

definition part_fp :: "sync_env \<Rightarrow> namespaceScope \<Rightarrow> MemoryStore \<Rightarrow> Range \<Rightarrow> MessagePart" where
  "part_fp env sc s r =
     PartFingerprint \<lparr>rf_Range = r, rf_Fingerprint = scopeFingerprint (se_blake3 env) sc r s\<rparr>"

definition part_item :: "Range \<Rightarrow> RangeValue list \<Rightarrow> bool \<Rightarrow> MessagePart" where
  "part_item r vs haveLocal = PartItem \<lparr>rit_Range = r, rit_Values = vs, rit_HaveLocal = haveLocal\<rparr>"

text \<open>The values of one range item: inserted in turn, until saving fails.\<close>

fun insertValues ::
  "sync_env \<Rightarrow> namespaceScope \<Rightarrow> RangeValue list \<Rightarrow> MemoryStore \<Rightarrow> string option \<times> RangeValue list \<times> MemoryStore" where
  "insertValues env sc [] s = (None, [], s)"
| "insertValues env sc (v # vs) s =
     (if \<not> sc_contains sc (rv_Entry v) \<or> \<not> acceptTimestamp (se_now env) (se_Entry (rv_Entry v)) \<or>
         \<not> se_validate env (rv_Entry v) (rv_Status v)
      then insertValues env sc vs s
      else
        let (outcome, s) = PutWithOrigin (se_save env) (rv_Entry v)
              \<lparr>io_Kind = InsertOriginRemote, io_From = se_from env, io_ContentStatus = rv_Status v\<rparr> s
        in if out_err outcome \<noteq> None then (out_err outcome, [], s)
           else let (err, ins, s) = insertValues env sc vs s
                in (err, (if out_inserted outcome then v # ins else ins), s))"

definition item_diff :: "sync_env \<Rightarrow> namespaceScope \<Rightarrow> RangeItem \<Rightarrow> MemoryStore \<Rightarrow> RangeValue list" where
  "item_diff env sc item s =
     (if rit_HaveLocal item then []
      else rangeValues (se_status env)
        (filter (\<lambda>e. \<not> peerHasNewerValue (rit_Values item) e) (scopeRange sc (rit_Range item) s)))"

fun processItems ::
  "sync_env \<Rightarrow> namespaceScope \<Rightarrow> RangeItem list \<Rightarrow> MemoryStore
   \<Rightarrow> string option \<times> RangeValue list \<times> MessagePart list \<times> MemoryStore" where
  "processItems env sc [] s = (None, [], [], s)"
| "processItems env sc (item # items) s =
     (let diff = item_diff env sc item s;
          (err, ins, s) = insertValues env sc (rit_Values item) s
      in if err \<noteq> None then (err, ins, [], s)
         else let (err, ins', out, s) = processItems env sc items s
              in (err, ins @ ins', (if diff \<noteq> [] then part_item (rit_Range item) diff True # out else out), s))"

definition processFingerprint ::
  "sync_env \<Rightarrow> namespaceScope \<Rightarrow> SyncConfig \<Rightarrow> MemoryStore \<Rightarrow> RangeFingerprint \<Rightarrow> MessagePart list" where
  "processFingerprint env sc config s remote =
     (let r = rf_Range remote; es = scopeRange sc r s in
      if scopeFingerprint (se_blake3 env) sc r s = rf_Fingerprint remote then []
      else if length es \<le> 1 \<or> rf_Fingerprint remote = EmptyFingerprint (se_blake3 env)
      then [part_item r (rangeValues (se_status env) es) False]
      else map (\<lambda>r. let chunk = scopeRange sc r s in
             if int (length chunk) > MaxSetSize config then part_fp env sc s r
             else part_item r (rangeValues (se_status env) chunk) False)
           (splitRange sc r (SplitFactor config) s))"

definition message_items :: "Message \<Rightarrow> RangeItem list" where
  "message_items m = concat (map (\<lambda>p. case p of PartItem i \<Rightarrow> [i] | _ \<Rightarrow> []) (m_Parts m))"

definition message_fingerprints :: "Message \<Rightarrow> RangeFingerprint list" where
  "message_fingerprints m = concat (map (\<lambda>p. case p of PartFingerprint f \<Rightarrow> [f] | _ \<Rightarrow> []) (m_Parts m))"

definition sync_budget :: nat where
  "sync_budget = maxSyncMessageSize - 16"

definition splitPart :: "sync_env \<Rightarrow> namespaceScope \<Rightarrow> MemoryStore \<Rightarrow> MessagePart \<Rightarrow> MessagePart list" where
  "splitPart env sc s part =
     (case part of
        PartItem i \<Rightarrow>
          (case marshal enc_MessagePart part of
             Inl _ \<Rightarrow> [part]
           | Inr b \<Rightarrow>
               if length b \<le> sync_budget \<or> length (rit_Values i) < 2 then [part]
               else map (part_fp env sc s) (splitRange sc (rit_Range i) 2 s))
      | _ \<Rightarrow> [part])"

text \<open>The second loop of \<open>boundedMessage\<close>; \<open>None\<close> when an encoding fails.\<close>

fun fitParts :: "sync_env \<Rightarrow> namespaceScope \<Rightarrow> MemoryStore \<Rightarrow> nat \<Rightarrow> MessagePart list \<Rightarrow> MessagePart list option" where
  "fitParts env sc s sz [] = Some []"
| "fitParts env sc s sz (part # parts) =
     (case marshal enc_MessagePart part of
        Inl _ \<Rightarrow> None
      | Inr b \<Rightarrow>
          (case (case part of
                   PartItem i \<Rightarrow>
                     if sz + length b > sync_budget then
                       (let p = part_fp env sc s (rit_Range i) in
                        case marshal enc_MessagePart p of Inl _ \<Rightarrow> None | Inr b \<Rightarrow> Some (p, b))
                     else Some (part, b)
                 | _ \<Rightarrow> Some (part, b)) of
             None \<Rightarrow> None
           | Some (part, b) \<Rightarrow> map_option ((#) part) (fitParts env sc s (sz + length b) parts)))"

definition boundedMessage :: "sync_env \<Rightarrow> namespaceScope \<Rightarrow> MemoryStore \<Rightarrow> MessagePart list \<Rightarrow> Message" where
  "boundedMessage env sc s parts =
     (case fitParts env sc s 0 (concat (map (splitPart env sc s) parts)) of
        None \<Rightarrow> \<lparr>m_Parts = parts\<rparr>
      | Some split \<Rightarrow> \<lparr>m_Parts = split\<rparr>)"

text \<open>
  The reply before it is bounded: the answers to the items, then those to the fingerprints.  The
  result of a round is an error of saving, or the reply (none when reconciliation is done), with
  the values inserted.
\<close>

definition replyParts ::
  "sync_env \<Rightarrow> namespaceScope \<Rightarrow> SyncConfig \<Rightarrow> Message \<Rightarrow> MessagePart list \<Rightarrow> MemoryStore \<Rightarrow> MessagePart list" where
  "replyParts env sc config message out s =
     out @ concat (map (processFingerprint env sc config s) (message_fingerprints message))"

definition processMessage ::
  "sync_env \<Rightarrow> namespaceScope \<Rightarrow> SyncConfig \<Rightarrow> Message \<Rightarrow> MemoryStore
   \<Rightarrow> (string + Message option) \<times> RangeValue list \<times> MemoryStore" where
  "processMessage env sc config message s =
     (case ms_persistErr s of
        Some e \<Rightarrow> (Inl e, [], s)
      | None \<Rightarrow>
          let (err, ins, out, s) = processItems env sc (message_items message) s
          in case err of
               Some e \<Rightarrow> (Inl e, ins, s)
             | None \<Rightarrow>
                 let out = replyParts env sc (withDefaults config) message out s
                 in (Inr (if out = [] then None else Some (boundedMessage env sc s out)), ins, s))"

section \<open>Heads\<close>

record authorHead =
  ah_Timestamp :: u64
  ah_Author :: AuthorID

text \<open>\<open>latest[author]\<close> is 0 for an author that is not in the map.\<close>

definition latest_at :: "AuthorID \<Rightarrow> (AuthorID, u64) gomap \<Rightarrow> u64" where
  "latest_at a m = (case map_of m a of None \<Rightarrow> 0 | Some t \<Rightarrow> t)"

definition authorHeads :: "NamespaceID \<Rightarrow> MemoryStore \<Rightarrow> authorHead list" where
  "authorHeads namespace s =
     (let latest = foldl (\<lambda>m e.
            if ri_namespace (se_ID e) \<noteq> namespace then m
            else let a = ri_author (se_ID e); ts = rec_Timestamp (se_Record e)
                 in if ts > latest_at a m then mput a ts m else m) [] (map snd (ms_entries s))
      in sort_key (\<lambda>h. (- uint (ah_Timestamp h), ah_Author h))
           (map (\<lambda>(a, t). \<lparr>ah_Timestamp = t, ah_Author = a\<rparr>) latest))"

definition enc_authorHead :: "authorHead \<Rightarrow> pc_error + bytes" where
  "enc_authorHead h = enc_pair enc_uint enc_raw (ah_Timestamp h, ah_Author h)"

definition dec_authorHead :: "ed25519 \<Rightarrow> authorHead dec" where
  "dec_authorHead E d = rbind (dec_pair dec_uint (dec_raw 32) d) (\<lambda>((t, a), d').
     case NewEndpointID E a of
       Inl _ \<Rightarrow> Inl (ErrCustom ''key: invalid author'')
     | Inr a \<Rightarrow> Inr (\<lparr>ah_Timestamp = t, ah_Author = a\<rparr>, d'))"

definition encodeAuthorHeads :: "NamespaceID \<Rightarrow> MemoryStore \<Rightarrow> bytes" where
  "encodeAuthorHeads namespace s =
     (case marshal (enc_slice enc_authorHead) (authorHeads namespace s) of Inl _ \<Rightarrow> [] | Inr b \<Rightarrow> b)"

fun heads_limited :: "authorHead list \<Rightarrow> nat \<Rightarrow> (bytes \<Rightarrow> bool) \<Rightarrow> nat \<Rightarrow> bytes option" where
  "heads_limited heads limit fits n =
     (case marshal (enc_slice enc_authorHead) (take n heads) of
        Inl _ \<Rightarrow> None
      | Inr b \<Rightarrow>
          if length b \<le> limit \<and> fits b then Some b
          else case n of 0 \<Rightarrow> None | Suc k \<Rightarrow> heads_limited heads limit fits k)"

definition encodeAuthorHeadsLimited :: "NamespaceID \<Rightarrow> nat \<Rightarrow> (bytes \<Rightarrow> bool) \<Rightarrow> MemoryStore \<Rightarrow> bytes option" where
  "encodeAuthorHeadsLimited namespace limit fits s =
     (let heads = authorHeads namespace s in heads_limited heads limit fits (length heads))"

definition hasNewsForUs :: "ed25519 \<Rightarrow> NamespaceID \<Rightarrow> bytes \<Rightarrow> MemoryStore \<Rightarrow> bool" where
  "hasNewsForUs E namespace encoded s =
     (case unmarshal (dec_slice (dec_authorHead E)) encoded of
        Inl _ \<Rightarrow> True
      | Inr remote \<Rightarrow>
          let byAuthor = foldl (\<lambda>m h. mput (ah_Author h) (ah_Timestamp h) m) [] (authorHeads namespace s)
          in \<exists>h\<in>set remote. ah_Timestamp h > latest_at (ah_Author h) byAuthor)"

end
