(* ===== verification/Docs_Store_Inv.thy ===== *)
theory Docs_Store_Inv
  imports Docs_Store
begin

text \<open>
  The store as a join semilattice.  An entry is known by its key \<open>ek\<close>: identifier, timestamp and
  content hash.  An entry dominates another when its identifier is a prefix of the other's and its
  record is at least as new.  The store keeps exactly the maximal entries of everything it was
  given, so its content depends neither on the order of insertions nor on repetitions.
\<close>

type_synonym entry_key = "RecordIdentifier \<times> u64 \<times> Hash"

definition ek :: "SignedEntry \<Rightarrow> entry_key" where
  "ek e = (se_ID e, rec_key (se_Record e))"

definition dominates :: "entry_key \<Rightarrow> entry_key \<Rightarrow> bool" where
  "dominates x y \<longleftrightarrow> hasEntryPrefix (fst y) (fst x) \<and> snd y \<le> snd x"

definition maximal :: "entry_key set \<Rightarrow> entry_key set" where
  "maximal X = {x \<in> X. \<forall>y\<in>X. dominates y x \<longrightarrow> y = x}"

lemma hasEntryPrefix_refl [simp]: "hasEntryPrefix i i"
  by (simp add: hasEntryPrefix_def)

lemma take_prefix_le: "take (length k) j = k \<Longrightarrow> length k \<le> length j"
  by (drule arg_cong [where f = length]) simp

lemma take_prefix_trans:
  assumes a: "take (length j) i = j" and b: "take (length k) j = k" shows "take (length k) i = k"
proof -
  have "take (length k) (take (length j) i) = k" unfolding a by (rule b)
  then show ?thesis using take_prefix_le [OF b] by (simp add: min_absorb1)
qed

lemma hasEntryPrefix_trans: "hasEntryPrefix i j \<Longrightarrow> hasEntryPrefix j k \<Longrightarrow> hasEntryPrefix i k"
  unfolding hasEntryPrefix_def using take_prefix_trans [of "ri_key j" "ri_key i" "ri_key k"] by (elim conjE) simp

lemma hasEntryPrefix_antisym:
  assumes "hasEntryPrefix i j" "hasEntryPrefix j i" shows "i = j"
proof -
  have l: "length (ri_key i) = length (ri_key j)"
    using assms take_prefix_le [of "ri_key i" "ri_key j"] take_prefix_le [of "ri_key j" "ri_key i"]
    unfolding hasEntryPrefix_def by simp
  have "ri_key i = ri_key j" using assms(1) unfolding hasEntryPrefix_def l [symmetric] by simp
  then show "i = j" using assms(1) unfolding hasEntryPrefix_def by (cases i; cases j) simp
qed

lemma dominates_refl [simp]: "dominates x x"
  by (simp add: dominates_def)

lemma dominates_trans: "dominates x y \<Longrightarrow> dominates y z \<Longrightarrow> dominates x z"
  unfolding dominates_def
  using hasEntryPrefix_trans [of "fst z" "fst y" "fst x"] order_trans [of "snd z" "snd y" "snd x"] by simp

lemma dominates_antisym: "dominates x y \<Longrightarrow> dominates y x \<Longrightarrow> x = y"
  unfolding dominates_def using hasEntryPrefix_antisym [of "fst x" "fst y"] by (simp add: prod_eq_iff)

lemma dominates_namespace: "dominates x y \<Longrightarrow> ri_namespace (fst x) = ri_namespace (fst y)"
  by (simp add: dominates_def hasEntryPrefix_def)

lemma maximal_subset: "maximal X \<subseteq> X"
  unfolding maximal_def by blast

lemma maximal_above:
  assumes "finite X" "x \<in> X" shows "\<exists>m\<in>maximal X. dominates m x"
  using assms
proof (induction "card {y \<in> X. dominates y x}" arbitrary: x rule: less_induct)
  case less
  show ?case
  proof (cases "x \<in> maximal X")
    case False
    then obtain y where y: "y \<in> X" "dominates y x" "y \<noteq> x" using less.prems unfolding maximal_def by blast
    have sub: "{z \<in> X. dominates z y} \<subseteq> {z \<in> X. dominates z x}" using dominates_trans [OF _ y(2)] by blast
    have "\<not> dominates x y" using y(2,3) dominates_antisym [of x y] by blast
    then have x: "x \<in> {z \<in> X. dominates z x}" "x \<notin> {z \<in> X. dominates z y}" using less.prems(2) by simp_all
    have "{z \<in> X. dominates z y} \<noteq> {z \<in> X. dominates z x}"
      by (rule notI, rule notE [OF x(2)]) (use x(1) in \<open>simp only:\<close>)
    with sub have "{z \<in> X. dominates z y} \<subset> {z \<in> X. dominates z x}" by (rule psubsetI)
    then have "card {z \<in> X. dominates z y} < card {z \<in> X. dominates z x}"
      by (rule psubset_card_mono [rotated]) (use less.prems(1) in simp)
    from less.hyps [OF this less.prems(1) y(1)] show ?thesis using dominates_trans [OF _ y(2)] by blast
  next
    case True
    then show ?thesis using dominates_refl by blast
  qed
qed

lemma maximal_unique:
  assumes "finite X" "Y \<subseteq> X" "\<forall>x\<in>X. \<exists>y\<in>Y. dominates y x" "\<forall>x\<in>Y. \<forall>y\<in>Y. dominates x y \<longrightarrow> x = y"
  shows "Y = maximal X"
proof (intro equalityI subsetI)
  fix y assume y: "y \<in> Y"
  have "z = y" if z: "z \<in> X" "dominates z y" for z
  proof -
    obtain y' where y': "y' \<in> Y" "dominates y' z" using assms(3) z(1) by blast
    have "y' = y" using assms(4) y y'(1) dominates_trans [OF y'(2) z(2)] by blast
    with y'(2) z(2) show ?thesis by (simp add: dominates_antisym)
  qed
  then show "y \<in> maximal X" using y assms(2) unfolding maximal_def by blast
next
  fix x assume "x \<in> maximal X"
  then have x: "x \<in> X" "\<And>y. y \<in> X \<Longrightarrow> dominates y x \<Longrightarrow> y = x" unfolding maximal_def by blast+
  then obtain y where y: "y \<in> Y" "dominates y x" using assms(3) by blast
  with x(2) [of y] assms(2) show "x \<in> Y" by blast
qed

lemma maximal_Un_maximal:
  assumes F: "finite F" and X: "finite X" shows "maximal (F \<union> maximal X) = maximal (F \<union> X)"
proof (rule maximal_unique)
  have fin: "finite (F \<union> maximal X)" using F X finite_subset [OF maximal_subset] by blast
  show "finite (F \<union> X)" using F X by simp
  show "maximal (F \<union> maximal X) \<subseteq> F \<union> X" using maximal_subset by blast
  show "\<forall>x\<in>F \<union> X. \<exists>y\<in>maximal (F \<union> maximal X). dominates y x"
  proof
    fix x assume x: "x \<in> F \<union> X"
    then have "\<exists>z\<in>F \<union> maximal X. dominates z x" using maximal_above [OF X, of x] dominates_refl [of x] by blast
    then obtain z where z: "z \<in> F \<union> maximal X" "dominates z x" by blast
    obtain y where "y \<in> maximal (F \<union> maximal X)" "dominates y z" using maximal_above [OF fin z(1)] by blast
    then show "\<exists>y\<in>maximal (F \<union> maximal X). dominates y x" using dominates_trans [OF _ z(2)] by blast
  qed
  show "\<forall>x\<in>maximal (F \<union> maximal X). \<forall>y\<in>maximal (F \<union> maximal X). dominates x y \<longrightarrow> x = y"
    unfolding maximal_def by blast
qed

section \<open>The invariant of a store\<close>

definition store_entries :: "MemoryStore \<Rightarrow> SignedEntry set" where
  "store_entries s = snd ` set (ms_entries s)"

definition store_keys :: "MemoryStore \<Rightarrow> entry_key set" where
  "store_keys s = ek ` store_entries s"

definition store_wf :: "MemoryStore \<Rightarrow> bool" where
  "store_wf s \<longleftrightarrow> mwf (ms_entries s) \<and>
     (\<forall>(k, e)\<in>set (ms_entries s). k = ri_bytes (se_ID e) \<and> ri_ok (se_ID e)) \<and>
     (\<forall>x\<in>store_keys s. \<forall>y\<in>store_keys s. dominates x y \<longrightarrow> x = y)"

lemma store_wf_new [simp]: "store_wf NewMemoryStore" "store_keys NewMemoryStore = {}"
  by (simp_all add: store_wf_def NewMemoryStore_def store_keys_def store_entries_def)

lemma finite_store [simp]: "finite (store_entries s)" "finite (store_keys s)"
  by (simp_all add: store_entries_def store_keys_def)

lemma store_wf_maximal: "store_wf s \<Longrightarrow> maximal (store_keys s) = store_keys s"
  unfolding store_wf_def maximal_def by blast

text \<open>An entry of a well-formed store is determined by its identifier.\<close>

lemma store_entry_unique:
  assumes wf: "store_wf s" and e: "e \<in> store_entries s" "e' \<in> store_entries s" "se_ID e = se_ID e'"
  shows "e = e'"
proof -
  obtain k k' where k: "(k, e) \<in> set (ms_entries s)" "(k', e') \<in> set (ms_entries s)"
    using e(1,2) by (auto simp: store_entries_def)
  have keyed: "\<forall>(k, e)\<in>set (ms_entries s). k = ri_bytes (se_ID e) \<and> ri_ok (se_ID e)" and "mwf (ms_entries s)"
    using wf unfolding store_wf_def by blast+
  have "k = k'" using bspec [OF keyed k(1)] bspec [OF keyed k(2)] e(3) by simp
  with k \<open>mwf (ms_entries s)\<close> show ?thesis by (metis mwf_def map_of_is_SomeI option.inject)
qed

lemma ek_inj_on: "store_wf s \<Longrightarrow> inj_on ek (store_entries s)"
  by (rule inj_onI) (simp add: ek_def store_entry_unique)

section \<open>Insertion keeps the maximal entries\<close>

lemma put_dropped:
  "(\<exists>x\<in>set (ms_entries s). hasEntryPrefix (se_ID e) (se_ID (snd x)) \<and> Record_Compare (se_Record e) (se_Record (snd x)) \<le> 0)
   \<longleftrightarrow> (\<exists>x\<in>store_entries s. dominates (ek x) (ek e))"
  by (simp add: store_entries_def dominates_def ek_def)

lemma put_shadowed:
  "hasEntryPrefix (se_ID x) (se_ID e) \<and> 0 \<le> Record_Compare (se_Record e) (se_Record x) \<longleftrightarrow> dominates (ek e) (ek x)"
  by (simp add: dominates_def ek_def)

lemma putEntry_drop:
  "\<exists>x\<in>store_entries s. dominates (ek x) (ek e) \<Longrightarrow>
   putEntry e orig ntf s = (\<lparr>out_inserted = False, out_removed = 0, out_err = None\<rparr>, None, s)"
  unfolding putEntry_def Let_def put_dropped by (simp only: if_True)

lemma putEntry_keep:
  assumes "\<not> (\<exists>x\<in>store_entries s. dominates (ek x) (ek e))" "putEntry e orig ntf s = (oc, ev, s')"
  shows "out_inserted oc" "out_err oc = None" "ms_persistPath s' = ms_persistPath s" "ms_persistErr s' = ms_persistErr s"
    "ms_entries s' = mput (ri_bytes (se_ID e)) e (filter (\<lambda>x. \<not> dominates (ek e) (ek (snd x))) (ms_entries s))"
  using assms(2) unfolding putEntry_def Let_def put_dropped put_shadowed if_not_P [OF assms(1)]
  by (auto split: if_splits)

lemma mput_absent: "map_of l k = None \<Longrightarrow> mput k v l = l @ [(k, v)]"
  by (induction l) (auto split: if_splits)

lemma putEntry_entries:
  assumes wf: "store_wf s" and ok: "ri_ok (se_ID e)" and p: "putEntry e orig ntf s = (oc, ev, s')"
  shows "store_entries s' = (if \<exists>x\<in>store_entries s. dominates (ek x) (ek e) then store_entries s
                             else insert e {x \<in> store_entries s. \<not> dominates (ek e) (ek x)})"
    and "mwf (ms_entries s')"
    and "\<forall>(k, x)\<in>set (ms_entries s'). k = ri_bytes (se_ID x) \<and> ri_ok (se_ID x)"
    and "out_inserted oc \<longleftrightarrow> \<not> (\<exists>x\<in>store_entries s. dominates (ek x) (ek e))"
    and "ms_persistPath s' = ms_persistPath s" "ms_persistErr s' = ms_persistErr s" "out_err oc = None"
proof -
  let ?d = "\<exists>x\<in>store_entries s. dominates (ek x) (ek e)"
  let ?m = "filter (\<lambda>x. \<not> dominates (ek e) (ek (snd x))) (ms_entries s)" and ?k = "ri_bytes (se_ID e)"
  have keyed: "\<forall>(k, x)\<in>set (ms_entries s). k = ri_bytes (se_ID x) \<and> ri_ok (se_ID x)" and mwf: "mwf (ms_entries s)"
    using wf by (auto simp: store_wf_def)
  have eqs: "out_inserted oc \<longleftrightarrow> \<not> ?d" "ms_persistPath s' = ms_persistPath s" "ms_persistErr s' = ms_persistErr s"
    "out_err oc = None" "ms_entries s' = (if ?d then ms_entries s else mput ?k e ?m)"
    using putEntry_drop [of s e orig ntf] putEntry_keep [OF _ p] p by (cases ?d, auto)+
  then show "out_inserted oc \<longleftrightarrow> \<not> ?d" "ms_persistPath s' = ms_persistPath s" "ms_persistErr s' = ms_persistErr s" "out_err oc = None"
    by simp_all
  have "mwf ?m" using mwf by (simp add: mwf_def distinct_map_filter)
  then show "mwf (ms_entries s')" using mwf eqs(5) by simp
  have fresh: "map_of ?m ?k = None" if nd: "\<not> ?d"
  proof -
    have False if x: "(?k, x) \<in> set ?m" for x
    proof -
      have mem: "(?k, x) \<in> set (ms_entries s)" "\<not> dominates (ek e) (ek x)" using x by auto
      then have id: "se_ID x = se_ID e" using keyed ok ri_bytes_inj by fastforce
      have "x \<in> store_entries s" using mem(1) by (force simp: store_entries_def)
      then have "\<not> dominates (ek x) (ek e)" using nd by blast
      then show False using mem(2) id by (auto simp: dominates_def ek_def)
    qed
    then show ?thesis by (fastforce simp: map_of_eq_None_iff)
  qed
  have ms: "ms_entries s' = (if ?d then ms_entries s else ?m @ [(?k, e)])" using eqs(5) mput_absent [OF fresh] by auto
  show "store_entries s' = (if ?d then store_entries s else insert e {x \<in> store_entries s. \<not> dominates (ek e) (ek x)})"
    unfolding store_entries_def [of s'] ms by (cases ?d) (auto simp: store_entries_def)
  show "\<forall>(k, x)\<in>set (ms_entries s'). k = ri_bytes (se_ID x) \<and> ri_ok (se_ID x)"
    unfolding ms using keyed ok by auto
qed

lemma putEntry_wf:
  assumes wf: "store_wf s" and ok: "ri_ok (se_ID e)" and p: "putEntry e orig ntf s = (oc, ev, s')"
  shows "store_wf s'" "store_keys s' = maximal (insert (ek e) (store_keys s))"
proof -
  note put = putEntry_entries [OF wf ok p]
  have keys: "store_keys s' = (if \<exists>x\<in>store_keys s. dominates x (ek e) then store_keys s
       else insert (ek e) {x \<in> store_keys s. \<not> dominates (ek e) x})"
    unfolding store_keys_def put(1) bex_simps by (cases "\<exists>x\<in>store_entries s. dominates (ek x) (ek e)") (simp_all, blast)
  have anti: "\<forall>x\<in>store_keys s. \<forall>y\<in>store_keys s. dominates x y \<longrightarrow> x = y" using wf by (simp add: store_wf_def)
  have chain: "\<forall>x\<in>store_keys s'. \<forall>y\<in>store_keys s'. dominates x y \<longrightarrow> x = y"
  proof (cases "\<exists>x\<in>store_keys s. dominates x (ek e)")
    case True
    then show ?thesis using keys anti by (simp only: if_True)
  next
    case False
    then show ?thesis unfolding keys if_not_P [OF False] using anti by blast
  qed
  then show "store_wf s'" using put(2,3) unfolding store_wf_def by blast
  have above: "\<exists>y\<in>store_keys s'. dominates y x" if "x \<in> insert (ek e) (store_keys s)" for x
  proof (cases "\<exists>x\<in>store_keys s. dominates x (ek e)")
    case True
    then show ?thesis unfolding keys if_P [OF True] using that dominates_refl by blast
  next
    case False
    then show ?thesis unfolding keys if_not_P [OF False] using that dominates_refl by blast
  qed
  have sub: "store_keys s' \<subseteq> insert (ek e) (store_keys s)"
    unfolding keys by (cases "\<exists>x\<in>store_keys s. dominates x (ek e)") (simp_all only: if_True if_False, blast+)
  show "store_keys s' = maximal (insert (ek e) (store_keys s))"
    by (rule maximal_unique [OF _ sub _ chain]) (use above in \<open>simp, blast\<close>)
qed

lemma store_send_same [simp]:
  "ms_entries (store_send ev s) = ms_entries s" "ms_persistPath (store_send ev s) = ms_persistPath s"
  "ms_persistErr (store_send ev s) = ms_persistErr s"
  by (simp_all add: store_send_def split: option.split)

lemma setPersistError_same [simp]: "ms_entries (snd (setPersistError err s)) = ms_entries s"
  by (simp add: setPersistError_def)

lemma PutWithOrigin_entries:
  assumes "putEntry e orig True s = (oc1, ev, s1)"
  shows "ms_entries (snd (PutWithOrigin save e orig s)) = ms_entries s1"
  unfolding PutWithOrigin_def assms Let_def prod.case by (simp add: split_beta)

lemma PutWithOrigin_memory:
  assumes "putEntry e orig True s = (oc1, ev, s1)" "\<not> ms_persistPath s1"
  shows "fst (PutWithOrigin save e orig s) = oc1"
    "ms_persistPath (snd (PutWithOrigin save e orig s)) = ms_persistPath s1"
    "ms_persistErr (snd (PutWithOrigin save e orig s)) = ms_persistErr s1"
  unfolding PutWithOrigin_def assms(1) Let_def prod.case using assms(2) by simp_all

lemma PutWithOrigin_wf:
  assumes wf: "store_wf s" and ok: "ri_ok (se_ID e)" and p: "PutWithOrigin save e orig s = (oc, s')"
  shows "store_wf s'" "store_keys s' = maximal (insert (ek e) (store_keys s))" "store_entries s' \<subseteq> insert e (store_entries s)"
    "\<not> ms_persistPath s \<Longrightarrow> out_err oc = None \<and> \<not> ms_persistPath s' \<and> ms_persistErr s' = ms_persistErr s"
proof -
  obtain oc1 ev s1 where p1: "putEntry e orig True s = (oc1, ev, s1)" by (metis prod.collapse)
  note put = putEntry_entries [OF wf ok p1] and wf1 = putEntry_wf [OF wf ok p1]
  have ent: "ms_entries s' = ms_entries s1" using PutWithOrigin_entries [OF p1] p by (metis snd_conv)
  then have same: "store_entries s' = store_entries s1" "store_keys s' = store_keys s1"
    by (simp_all add: store_entries_def store_keys_def)
  show "store_wf s'" using wf1(1) unfolding store_wf_def ent same .
  show "store_keys s' = maximal (insert (ek e) (store_keys s))" using wf1(2) same(2) by (simp only:)
  show "store_entries s' \<subseteq> insert e (store_entries s)"
    unfolding same put(1) by (cases "\<exists>x\<in>store_entries s. dominates (ek x) (ek e)") (simp_all only: if_True if_False, blast+)
  show "out_err oc = None \<and> \<not> ms_persistPath s' \<and> ms_persistErr s' = ms_persistErr s" if "\<not> ms_persistPath s"
    using that put(5-7) PutWithOrigin_memory [OF p1, of save] by (simp only: p fst_conv snd_conv) simp
qed

text \<open>A store that was given a list of entries.\<close>

definition puts :: "((bytes, SignedEntry) gomap \<Rightarrow> string option) \<Rightarrow> SignedEntry list \<Rightarrow> MemoryStore \<Rightarrow> MemoryStore" where
  "puts save es s = foldl (\<lambda>s e. snd (Put save e s)) s es"

lemma puts_wf:
  assumes "store_wf s" and "\<forall>e\<in>set es. ri_ok (se_ID e)"
  shows "store_wf (puts save es s) \<and> store_keys (puts save es s) = maximal (ek ` set es \<union> store_keys s)"
  using assms
proof (induction es arbitrary: s)
  case Nil
  then show ?case by (simp add: puts_def store_wf_maximal)
next
  case (Cons e es)
  let ?s = "snd (Put save e s)"
  have ok: "ri_ok (se_ID e)" using Cons.prems by simp
  obtain oc where p: "Put save e s = (oc, ?s)" by (metis prod.collapse)
  note wf = PutWithOrigin_wf [OF Cons.prems(1) ok p [unfolded Put_def]]
  have "store_keys (puts save es ?s) = maximal (ek ` set es \<union> maximal (insert (ek e) (store_keys s)))"
    "store_wf (puts save es ?s)"
    using Cons.IH [OF wf(1) [folded Put_def]] Cons.prems(2) wf(2) [folded Put_def] by simp_all
  moreover have "maximal (ek ` set es \<union> maximal (insert (ek e) (store_keys s))) = maximal (ek ` set (e # es) \<union> store_keys s)"
    using maximal_Un_maximal [of "ek ` set es" "insert (ek e) (store_keys s)"] by simp
  ultimately show ?case by (simp add: puts_def)
qed

section \<open>Lookups\<close>

lemma GetExact_iff:
  assumes wf: "store_wf s" and ok: "ri_ok i"
  shows "GetExact (ri_namespace i) (ri_author i) (ri_key i) b s = Some e \<longleftrightarrow>
     e \<in> store_entries s \<and> se_ID e = i \<and> (b \<or> \<not> Record_IsEmpty (se_Record e))"
proof -
  have keyed: "\<forall>(k, e)\<in>set (ms_entries s). k = ri_bytes (se_ID e) \<and> ri_ok (se_ID e)" and "mwf (ms_entries s)"
    using wf unfolding store_wf_def by blast+
  then have "map_of (ms_entries s) (ri_bytes i) = Some e \<longleftrightarrow> (ri_bytes i, e) \<in> set (ms_entries s)"
    by (simp add: mwf_def)
  moreover have "(ri_bytes i, e) \<in> set (ms_entries s) \<longleftrightarrow> e \<in> store_entries s \<and> se_ID e = i"
  proof
    assume m: "(ri_bytes i, e) \<in> set (ms_entries s)"
    then have "e \<in> store_entries s" unfolding store_entries_def by (rule image_eqI [rotated]) simp
    moreover have "se_ID e = i" using bspec [OF keyed m] ri_bytes_inj [OF _ ok, of "se_ID e"] by simp
    ultimately show "e \<in> store_entries s \<and> se_ID e = i" ..
  next
    assume a: "e \<in> store_entries s \<and> se_ID e = i"
    then obtain k where k: "(k, e) \<in> set (ms_entries s)" by (auto simp: store_entries_def)
    then show "(ri_bytes i, e) \<in> set (ms_entries s)" using bspec [OF keyed k] a by simp
  qed
  moreover have "GetExact (ri_namespace i) (ri_author i) (ri_key i) b s = Some e \<longleftrightarrow>
      map_of (ms_entries s) (ri_bytes i) = Some e \<and> (b \<or> \<not> Record_IsEmpty (se_Record e))"
    by (cases "map_of (ms_entries s) (ri_bytes i)") (auto simp: GetExact_def ri_bytes_def)
  ultimately show ?thesis by simp
qed

lemma GetExact_keys:
  assumes wf: "store_wf s" and ok: "ri_ok i"
  shows "map_option ek (GetExact (ri_namespace i) (ri_author i) (ri_key i) b s) = Some k \<longleftrightarrow>
     k \<in> store_keys s \<and> fst k = i \<and> (b \<or> snd (snd k) \<noteq> EmptyHash)"
  by (auto simp: GetExact_iff [OF wf ok] store_keys_def ek_def rec_key_def Record_IsEmpty_def)

lemma option_eqI: "(\<And>k. x = Some k \<longleftrightarrow> y = Some k) \<Longrightarrow> x = y"
  by (cases x; cases y) auto

text \<open>
  C5: a store keeps exactly the newest entries of everything put into it, the ones that no other entry
  with a prefix of their key and an equal or newer record shadows.  Two replicas that were given
  the same entries therefore answer every lookup alike, whatever the order of the insertions and
  however often an entry was repeated.
\<close>
theorem docs_store_converges:
  assumes es: "\<forall>e\<in>set es. ri_ok (se_ID e)" and es': "\<forall>e\<in>set es'. ri_ok (se_ID e)"
    and same: "ek ` set es = ek ` set es'"
  shows "store_keys (puts save es NewMemoryStore) = maximal (ek ` set es) \<and>
    (\<forall>i b. ri_ok i \<longrightarrow>
       map_option ek (GetExact (ri_namespace i) (ri_author i) (ri_key i) b (puts save es NewMemoryStore)) =
       map_option ek (GetExact (ri_namespace i) (ri_author i) (ri_key i) b (puts save' es' NewMemoryStore)))"
proof -
  have keys: "store_keys (puts save es NewMemoryStore) = maximal (ek ` set es)" "store_wf (puts save es NewMemoryStore)"
    "store_keys (puts save' es' NewMemoryStore) = maximal (ek ` set es)" "store_wf (puts save' es' NewMemoryStore)"
    using puts_wf [OF store_wf_new(1) es, of save] puts_wf [OF store_wf_new(1) es', of save'] same by simp_all
  have "map_option ek (GetExact (ri_namespace i) (ri_author i) (ri_key i) b (puts save es NewMemoryStore)) =
      map_option ek (GetExact (ri_namespace i) (ri_author i) (ri_key i) b (puts save' es' NewMemoryStore))" if "ri_ok i" for i b
    by (rule option_eqI) (simp only: GetExact_keys [OF keys(2) that] GetExact_keys [OF keys(4) that] keys)
  with keys(1) show ?thesis by blast
qed

definition ex_entry :: "bytes \<Rightarrow> u64 \<Rightarrow> SignedEntry" where
  "ex_entry k t = \<lparr>se_Signature = \<lparr>es_Author = replicate 64 0, es_Namespace = replicate 64 0\<rparr>,
     se_Entry = \<lparr>e_ID = \<lparr>ri_namespace = replicate 32 1, ri_author = replicate 32 2, ri_key = k\<rparr>,
       e_Record = NewRecord (replicate 32 7) 5 t\<rparr>\<rparr>"

lemma ex_entry_ok [simp]: "ri_ok (se_ID (ex_entry k t))"
  by (simp add: ex_entry_def ri_ok_def)

theorem docs_store_converges_witness:
  "store_keys (puts (\<lambda>_. None) [ex_entry [1] 3, ex_entry [1, 2] 2] NewMemoryStore) = maximal {ek (ex_entry [1] 3), ek (ex_entry [1, 2] 2)} \<and>
   map_option ek (GetExact (replicate 32 1) (replicate 32 2) [1] False (puts (\<lambda>_. None) [ex_entry [1] 3, ex_entry [1, 2] 2] NewMemoryStore)) =
   map_option ek (GetExact (replicate 32 1) (replicate 32 2) [1] False (puts (\<lambda>_. None) [ex_entry [1, 2] 2, ex_entry [1] 3, ex_entry [1, 2] 2] NewMemoryStore))"
proof -
  let ?i = "\<lparr>ri_namespace = replicate 32 1, ri_author = replicate 32 2, ri_key = [1]\<rparr>"
  let ?es = "[ex_entry [1] 3, ex_entry [1, 2] 2]" and ?es' = "[ex_entry [1, 2] 2, ex_entry [1] 3, ex_entry [1, 2] 2]"
  have ok: "ri_ok ?i" by (simp add: ri_ok_def)
  have prems: "\<forall>e\<in>set ?es. ri_ok (se_ID e)" "\<forall>e\<in>set ?es'. ri_ok (se_ID e)" "ek ` set ?es = ek ` set ?es'" by auto
  note d = docs_store_converges [OF prems, of "\<lambda>_. None" "\<lambda>_. None"]
  show ?thesis
    using conjunct1 [OF d] mp [OF spec [OF spec [OF conjunct2 [OF d], of ?i], of False] ok]
    by (simp only: list.set image_insert image_empty RecordIdentifier.select_convs)
qed

end
