(* ===== verification/Docs_Split.thy ===== *)
theory Docs_Split
  imports Docs_Store_Inv
begin

text \<open>
  Splitting a range for reconciliation.  A range is an arc of the cyclic order of identifiers.
  Seen from a base point the cyclic order is linear (\<open>rot\<close>), the entries of a range form an
  increasing list and the pivots of \<open>splitRange\<close> an increasing chain in it.  So the sub-ranges
  cover the range, stay inside it, and each misses an entry.
\<close>

section \<open>Arcs of a cyclic order\<close>

definition arc :: "'a::linorder \<Rightarrow> 'a \<Rightarrow> 'a \<Rightarrow> bool" where
  "arc a b x \<longleftrightarrow> (if a = b then True else if a < b then a \<le> x \<and> x < b else a \<le> x \<or> x < b)"

definition rot :: "'a::linorder \<Rightarrow> 'a \<Rightarrow> bool \<times> 'a" where
  "rot z x = (x < z, x)"

lemma Range_Contains_arc: "Range_Contains r i = arc (ri_bytes (r_Start r)) (ri_bytes (r_End r)) (ri_bytes i)"
  by (simp add: Range_Contains_def arc_def RecordIdentifier_Compare_def Let_def)

lemma rot_le: "rot z x \<le> rot z y \<longleftrightarrow> (x < z \<longrightarrow> y < z) \<and> ((x < z \<longleftrightarrow> y < z) \<longrightarrow> x \<le> y)"
  by (auto simp: rot_def less_eq_prod_def)

lemma rot_less: "rot z x < rot z y \<longleftrightarrow> (\<not> x < z \<and> y < z) \<or> ((x < z \<longleftrightarrow> y < z) \<and> x < y)"
  by (auto simp: rot_def less_prod_def)

lemma rot_base: "rot z z \<le> rot z x"
  by (auto simp: rot_le)

lemma rot_inj: "rot z x = rot z y \<longleftrightarrow> x = y"
  by (auto simp: rot_def)

lemma arc_rot: "rot z a < rot z b \<Longrightarrow> arc a b x \<longleftrightarrow> rot z a \<le> rot z x \<and> rot z x < rot z b"
  unfolding rot_less rot_le arc_def by (cases "a < z"; cases "b < z"; cases "x < z") auto

lemma arc_from_base: "z \<noteq> b \<Longrightarrow> arc z b x \<longleftrightarrow> rot z x < rot z b"
  unfolding rot_less arc_def by auto

lemma arc_to_base: "a \<noteq> z \<Longrightarrow> arc a z x \<longleftrightarrow> rot z a \<le> rot z x"
  unfolding rot_le arc_def by auto

lemma arc_end: "a \<noteq> b \<Longrightarrow> \<not> arc a b b"
  by (simp add: arc_def)

lemma chain_step:
  fixes q :: "nat \<Rightarrow> 'a::linorder"
  assumes "q 0 \<le> x" "x < q k" shows "\<exists>i<k. q i \<le> x \<and> x < q (Suc i)"
  using assms(2)
proof (induction k)
  case 0
  then show ?case using assms(1) by simp
next
  case (Suc k)
  show ?case
  proof (cases "x < q k")
    case True
    then show ?thesis using Suc.IH less_SucI by blast
  next
    case False
    then show ?thesis using Suc.prems by (intro exI [of _ k]) simp
  qed
qed

lemma arcs_cover:
  assumes "rot z x < rot z (q k)" "q 0 = z"
  shows "\<exists>i<k. q i \<noteq> q (Suc i) \<and> arc (q i) (q (Suc i)) x"
proof -
  obtain i where i: "i < k" "rot z (q i) \<le> rot z x" "rot z x < rot z (q (Suc i))"
    using chain_step [of "\<lambda>i. rot z (q i)" "rot z x" k] assms rot_base [of z x] by auto
  then have lt: "rot z (q i) < rot z (q (Suc i))" by (rule_tac le_less_trans)
  then have "q i \<noteq> q (Suc i)" by auto
  with i arc_rot [OF lt, of x] show ?thesis by blast
qed

lemma arcs_inside:
  assumes mono: "\<And>i. i < k \<Longrightarrow> rot z (q i) \<le> rot z (q (Suc i))"
    and i: "i < k" "q i \<noteq> q (Suc i)" "arc (q i) (q (Suc i)) x"
  shows "rot z x < rot z (q k)" "rot z (q i) \<le> rot z x"
proof -
  have "rot z (q i) \<noteq> rot z (q (Suc i))" using i(2) rot_inj by blast
  then have lt: "rot z (q i) < rot z (q (Suc i))" using mono [OF i(1)] by (simp add: order_less_le)
  have up: "rot z (q (Suc i)) \<le> rot z (q k)"
    using i(1) mono by (induction k) (auto simp: less_Suc_eq intro: order_trans)
  show "rot z x < rot z (q k)" using arc_rot [OF lt, of x] i(3) up less_le_trans by blast
  show "rot z (q i) \<le> rot z x" using arc_rot [OF lt, of x] i(3) by blast
qed

section \<open>The rotated entries\<close>

lemma rotate_rot_sorted:
  assumes "sorted_wrt (<) ks" "k < length ks" "\<forall>x\<in>set (take k ks). x < z"
    and "(\<forall>x\<in>set (drop k ks). z \<le> x) \<or> k = 0 \<and> (\<forall>x\<in>set ks. x < z)"
  shows "sorted_wrt (\<lambda>a b. rot z a < rot z b) (rotate k ks)"
proof -
  have r: "rotate k ks = drop k ks @ take k ks" using assms(2) by (simp add: rotate_drop_take)
  have srt: "sorted_wrt (<) (drop k ks)" "sorted_wrt (<) (take k ks)"
    using assms(1) by (simp_all add: sorted_wrt_drop sorted_wrt_take)
  have tk: "sorted_wrt (\<lambda>a b. rot z a < rot z b) (take k ks)"
    by (rule sorted_wrt_mono_rel [OF _ srt(2)]) (use assms(3) in \<open>auto simp: rot_less\<close>)
  have dr: "sorted_wrt (\<lambda>a b. rot z a < rot z b) (drop k ks)"
    by (rule sorted_wrt_mono_rel [OF _ srt(1)]) (use assms(4) in \<open>auto simp: rot_less dest: in_set_dropD\<close>)
  have "rot z a < rot z b" if "a \<in> set (drop k ks)" "b \<in> set (take k ks)" for a b
    using that assms(3,4) by (auto simp: rot_less)
  with tk dr show ?thesis unfolding r sorted_wrt_append by blast
qed

lemma rotate_first_sorted:
  assumes "sorted_wrt (<) ks" "k < length ks"
  shows "sorted_wrt (\<lambda>a b. rot (ks ! k) a < rot (ks ! k) b) (rotate k ks)"
proof (rule rotate_rot_sorted [OF assms])
  show "\<forall>x\<in>set (take k ks). x < ks ! k"
    using sorted_wrt_nth_less [OF assms(1) _ assms(2)] by (auto simp: in_set_conv_nth)
  have "ks ! k \<le> ks ! j" if "k \<le> j" "j < length ks" for j
    using sorted_wrt_nth_less [OF assms(1), of k j] that by (cases "k = j") auto
  then show "(\<forall>x\<in>set (drop k ks). ks ! k \<le> x) \<or> k = 0 \<and> (\<forall>x\<in>set ks. x < ks ! k)"
    using assms(2) by (auto simp: in_set_conv_nth)
qed

lemma sorted_rot_nth:
  assumes "sorted_wrt (\<lambda>a b. rot z a < rot z b) g" "i \<le> j" "j < length g"
  shows "rot z (g ! i) \<le> rot z (g ! j)"
  using assms sorted_wrt_nth_less [OF assms(1), of i j] by (cases "i = j") auto

abbreviation eb :: "SignedEntry \<Rightarrow> bytes" where
  "eb e \<equiv> ri_bytes (se_ID e)"

lemma set_scopeRange:
  "set (scopeRange sc r s) = {e \<in> store_entries s. sc_contains sc e \<and> Range_Contains r (se_ID e)}"
  by (auto simp: scopeRange_def sortEntries_def store_entries_def)

lemma sorted_map_fst: "sorted (map f xs) \<Longrightarrow> sorted (map (\<lambda>x. fst (f x)) xs)"
  by (induction xs) (auto simp: less_eq_prod_def)

lemma store_wf_keys: "store_wf s \<Longrightarrow> map eb (map snd (ms_entries s)) = map fst (ms_entries s)"
  unfolding store_wf_def by (auto simp: comp_def split_beta)

lemma scopeRange_sorted:
  assumes "store_wf s" shows "sorted_wrt (<) (map eb (scopeRange sc r s))"
proof -
  let ?k = "\<lambda>e. (eb e, rec_key (se_Record e))"
  let ?l = "filter (\<lambda>e. sc_contains sc e \<and> Range_Contains r (se_ID e)) (map snd (ms_entries s))"
  have "distinct (map eb (map snd (ms_entries s)))"
    unfolding store_wf_keys [OF assms] using assms by (simp add: store_wf_def mwf_def)
  then have "distinct (map eb ?l)" by (rule distinct_map_filter)
  moreover have "mset (map eb (sort_key ?k ?l)) = mset (map eb ?l)" by (simp add: mset_map)
  ultimately have "distinct (map eb (scopeRange sc r s))"
    unfolding scopeRange_def sortEntries_def using mset_eq_imp_distinct_iff by blast
  moreover have "sorted (map eb (scopeRange sc r s))"
    using sorted_map_fst [of ?k "sort_key ?k ?l"] unfolding scopeRange_def sortEntries_def by simp
  ultimately show ?thesis by (simp add: strict_sorted_iff)
qed

lemma split_start_less: "ids \<noteq> [] \<Longrightarrow> split_start ids b < length ids"
proof -
  assume "ids \<noteq> []"
  moreover have "length (takeWhile (\<lambda>i. RecordIdentifier_Compare i b < 0) ids) \<le> length ids" by (rule length_takeWhile_le)
  ultimately show ?thesis by (auto simp: split_start_def Let_def)
qed

lemma pivot_nth:
  assumes "ids \<noteq> []" "0 < sf"
  shows "i + 1 < sf \<Longrightarrow> pivot ids k sf i = rotate k ids ! (length ids * (i + 1) div sf) \<and> length ids * (i + 1) div sf < length ids"
    and "pivot ids k sf (sf - 1) = rotate k ids ! 0" and "pivot ids k sf sf = pivot ids k sf 0"
proof -
  have n: "0 < length ids" using assms(1) by simp
  show "pivot ids k sf i = rotate k ids ! (length ids * (i + 1) div sf) \<and> length ids * (i + 1) div sf < length ids" if "i + 1 < sf"
  proof -
    have "length ids * (i + 1) < length ids * sf" using n that by (rule_tac mult_strict_left_mono) simp_all
    then have l: "length ids * (i + 1) div sf < length ids" using assms(2) by (simp add: less_mult_imp_div_less mult.commute)
    then show ?thesis using that nth_rotate [OF l, of k] by (simp add: pivot_def Let_def)
  qed
  have "length ids * (sf - 1 + 1) div sf = length ids" using assms(2) by simp
  then show "pivot ids k sf (sf - 1) = rotate k ids ! 0"
    using nth_rotate [OF n, of k] assms(2) by (simp add: pivot_def Let_def)
  show "pivot ids k sf sf = pivot ids k sf 0" by (simp add: pivot_def)
qed

section \<open>The chain of pivots\<close>

definition split_chain :: "RecordIdentifier \<Rightarrow> (nat \<Rightarrow> RecordIdentifier) \<Rightarrow> RecordIdentifier \<Rightarrow> nat \<Rightarrow> nat \<Rightarrow> RecordIdentifier" where
  "split_chain b p e sf i = (if i = 0 then b else if i < sf then p (i - 1) else e)"

definition chain_ranges :: "(nat \<Rightarrow> RecordIdentifier) \<Rightarrow> nat \<Rightarrow> Range list" where
  "chain_ranges q k =
     map (\<lambda>i. NewRange (q i) (q (Suc i))) (filter (\<lambda>i. ri_bytes (q i) \<noteq> ri_bytes (q (Suc i))) [0..<k])"

lemma split_chain_0 [simp]: "split_chain b p e sf 0 = b"
  by (simp add: split_chain_def)

lemma set_chain_ranges:
  "set (chain_ranges q k) = {NewRange (q i) (q (Suc i)) |i. i < k \<and> ri_bytes (q i) \<noteq> ri_bytes (q (Suc i))}"
  by (auto simp: chain_ranges_def)

lemma pivot_ranges_chain: "pivot_ranges p n = chain_ranges p n"
  by (simp add: pivot_ranges_def chain_ranges_def RecordIdentifier_Compare_def)

lemma chain_ranges_Suc: "chain_ranges q (Suc n) = nonEmptyRanges [NewRange (q 0) (q 1)] @ chain_ranges (\<lambda>i. q (Suc i)) n"
  by (simp add: chain_ranges_def nonEmptyRanges_def NewRange_def RecordIdentifier_Compare_def upt_conv_Cons map_Suc_upt [symmetric]
      filter_map comp_def del: upt_Suc)

lemma chain_ranges_snoc: "chain_ranges q (Suc n) = chain_ranges q n @ nonEmptyRanges [NewRange (q n) (q (Suc n))]"
  by (simp add: chain_ranges_def nonEmptyRanges_def NewRange_def RecordIdentifier_Compare_def)

lemma chain_ranges_cong: "(\<And>i. i \<le> n \<Longrightarrow> q i = q' i) \<Longrightarrow> chain_ranges q n = chain_ranges q' n"
  unfolding chain_ranges_def by (intro map_cong filter_cong) auto

lemma chain_ranges_ne: "nonEmptyRanges (chain_ranges q n) = chain_ranges q n"
  by (simp add: chain_ranges_def nonEmptyRanges_def NewRange_def RecordIdentifier_Compare_def filter_map comp_def)

lemma chain_ranges_all:
  assumes "p sf = p 0" "2 \<le> sf"
  shows "mset (chain_ranges (split_chain (p (sf - 1)) p (p (sf - 1)) sf) sf) = mset (pivot_ranges p sf)"
proof -
  obtain n where n: "sf = Suc n" using assms(2) by (cases sf) auto
  let ?q = "split_chain (p n) p (p n) (Suc n)"
  have "chain_ranges (\<lambda>i. ?q (Suc i)) n = chain_ranges p n" by (rule chain_ranges_cong) (simp add: split_chain_def)
  moreover have "?q 0 = p n" "?q 1 = p 0" using assms(2) n by (auto simp: split_chain_def)
  ultimately have "chain_ranges ?q (Suc n) = nonEmptyRanges [NewRange (p n) (p 0)] @ chain_ranges p n"
    unfolding chain_ranges_Suc [of ?q n] by (simp only:)
  moreover have "pivot_ranges p (Suc n) = chain_ranges p n @ nonEmptyRanges [NewRange (p n) (p 0)]"
    using assms(1) n unfolding pivot_ranges_chain chain_ranges_snoc by simp
  ultimately show ?thesis by (simp add: n)
qed

lemma chain_ranges_part:
  assumes "2 \<le> sf"
  shows "chain_ranges (split_chain b p e sf) sf =
    nonEmptyRanges ([NewRange b (p 0)] @ pivot_ranges p (sf - 2) @ [NewRange (p (sf - 2)) e])"
proof -
  obtain n where n: "sf = Suc (Suc n)" using assms by (cases sf; cases "sf - 1") auto
  let ?q = "split_chain b p e (Suc (Suc n))"
  have "chain_ranges (\<lambda>i. ?q (Suc i)) n = chain_ranges p n" by (rule chain_ranges_cong) (simp add: split_chain_def)
  moreover have "?q 0 = b" "?q 1 = p 0" "?q (Suc n) = p n" "?q (Suc (Suc n)) = e" by (simp_all add: split_chain_def)
  ultimately have "chain_ranges ?q (Suc (Suc n)) =
      nonEmptyRanges [NewRange b (p 0)] @ chain_ranges p n @ nonEmptyRanges [NewRange (p n) e]"
    unfolding chain_ranges_Suc [of ?q "Suc n"] chain_ranges_snoc [of "\<lambda>i. ?q (Suc i)" n] by (simp only: append.assoc)
  then show ?thesis using chain_ranges_ne [of p n] by (simp add: n pivot_ranges_chain nonEmptyRanges_def)
qed

lemma split_chain_mono:
  assumes srt: "sorted_wrt (\<lambda>a b. rot z a < rot z b) (map ri_bytes (rotate k ids))"
    and z: "z = ri_bytes b" and ids: "ids \<noteq> []" and i: "Suc i < sf"
  shows "rot z (ri_bytes (split_chain b (pivot ids k sf) e sf i)) \<le> rot z (ri_bytes (split_chain b (pivot ids k sf) e sf (Suc i)))"
proof (cases i)
  case 0
  then show ?thesis using i z rot_base by (simp add: split_chain_def)
next
  case (Suc j)
  let ?off = "\<lambda>i. length ids * (i + 1) div sf"
  have off: "?off j \<le> ?off (Suc j)" "?off (Suc j) < length ids"
    using pivot_nth(1) [OF ids, of sf "Suc j" k] i Suc by (auto intro!: div_le_mono)
  have "split_chain b (pivot ids k sf) e sf i = rotate k ids ! ?off j"
    "split_chain b (pivot ids k sf) e sf (Suc i) = rotate k ids ! ?off (Suc j)"
    using pivot_nth(1) [OF ids, of sf j k] pivot_nth(1) [OF ids, of sf "Suc j" k] i Suc by (auto simp: split_chain_def)
  then show ?thesis using sorted_rot_nth [OF srt off(1)] off(2) le_less_trans [OF off(1) off(2)] by simp
qed

lemma split_chain_last:
  assumes srt: "sorted_wrt (\<lambda>a b. rot z a < rot z b) (map ri_bytes (rotate k ids))"
    and n: "2 \<le> length ids" and sf: "2 \<le> sf"
  shows "rot z (ri_bytes (rotate k ids ! 0)) < rot z (ri_bytes (split_chain b (pivot ids k sf) e sf (sf - 1)))"
proof -
  let ?off = "length ids * (sf - 2 + 1) div sf"
  have ids: "ids \<noteq> []" using n by auto
  have p: "pivot ids k sf (sf - 2) = rotate k ids ! ?off" "?off < length ids"
    using pivot_nth(1) [OF ids, of sf "sf - 2" k] sf by auto
  have "sf * 1 \<le> length ids * (sf - 2 + 1)"
    using mult_le_mono1 [OF n, of "sf - 2 + 1"] sf by simp
  then have "1 \<le> ?off" using sf by (simp add: div_greater_zero_iff Suc_le_eq)
  then have "rot z (map ri_bytes (rotate k ids) ! 0) < rot z (map ri_bytes (rotate k ids) ! ?off)"
    using sorted_wrt_nth_less [OF srt, of 0 ?off] p(2) by simp
  moreover have "split_chain b (pivot ids k sf) e sf (sf - 1) = pivot ids k sf (sf - 2)"
    using sf by (simp add: split_chain_def numeral_2_eq_2)
  moreover have "map ri_bytes (rotate k ids) ! 0 = ri_bytes (rotate k ids ! 0)" using ids by (intro nth_map) simp
  ultimately show ?thesis using p by simp
qed

lemma split_start_sorted:
  assumes srt: "sorted_wrt (<) (map ri_bytes ids)" and ids: "ids \<noteq> []"
  shows "sorted_wrt (\<lambda>a b'. rot (ri_bytes b) a < rot (ri_bytes b) b') (map ri_bytes (rotate (split_start ids b) ids))"
proof -
  let ?P = "\<lambda>i. RecordIdentifier_Compare i b < 0" and ?k = "split_start ids b"
  let ?z = "ri_bytes b" and ?ks = "map ri_bytes ids"
  have tw: "\<forall>i\<in>set (takeWhile ?P ids). ri_bytes i < ?z"
    by (auto dest: set_takeWhileD simp: RecordIdentifier_Compare_def)
  have len: "length (takeWhile ?P ids) \<le> length ids" by (rule length_takeWhile_le)
  have tk: "take (length (takeWhile ?P ids)) ids = takeWhile ?P ids" "drop (length (takeWhile ?P ids)) ids = dropWhile ?P ids"
    by (simp_all add: takeWhile_eq_take [symmetric] dropWhile_eq_drop)
  have "(\<forall>x\<in>set (drop ?k ?ks). ?z \<le> x) \<or> ?k = 0 \<and> (\<forall>x\<in>set ?ks. x < ?z)"
  proof (cases "length (takeWhile ?P ids) = length ids")
    case True
    then have "takeWhile ?P ids = ids" using tk(1) by simp
    then have "\<forall>i\<in>set ids. ri_bytes i < ?z" using tw by (simp only:)
    then show ?thesis using True by (simp add: split_start_def)
  next
    case False
    then have k: "?k = length (takeWhile ?P ids)" by (simp add: split_start_def Let_def)
    have "dropWhile ?P ids \<noteq> []" unfolding tk(2) [symmetric] using False len by (simp del: length_takeWhile_le dropWhile_eq_Nil_conv)
    then obtain h t where ht: "dropWhile ?P ids = h # t" by (cases "dropWhile ?P ids") auto
    then have "\<not> ?P h" using hd_dropWhile [of ?P ids] by auto
    moreover have "sorted_wrt (<) (map ri_bytes (h # t))"
      using sorted_wrt_drop [OF srt, of "length (takeWhile ?P ids)"] tk(2) ht by (simp add: drop_map)
    ultimately have "\<forall>x\<in>set (map ri_bytes (h # t)). ?z \<le> x" by (auto simp: RecordIdentifier_Compare_def)
    then show ?thesis using k tk(2) ht by (simp add: drop_map)
  qed
  moreover have "\<forall>x\<in>set (take ?k ?ks). x < ?z"
    using tw tk(1) by (auto simp: split_start_def Let_def take_map)
  moreover have "?k < length ?ks" using split_start_less [OF ids] by simp
  ultimately show ?thesis using rotate_rot_sorted [OF srt] by (simp add: rotate_map)
qed

section \<open>Sub-ranges of a split\<close>

text \<open>
  The chain of a split: it starts at \<open>q 0\<close>, increases up to \<open>q (sf - 1)\<close> as seen from there, and
  ends at \<open>q sf\<close>; every inner point is an entry of the range.
\<close>

definition split_ok :: "SignedEntry list \<Rightarrow> Range \<Rightarrow> Range list \<Rightarrow> (nat \<Rightarrow> RecordIdentifier) \<Rightarrow> nat \<Rightarrow> bool" where
  "split_ok es r rs q sf \<longleftrightarrow> mset rs = mset (chain_ranges q sf) \<and> 2 \<le> sf \<and>
     (\<forall>i. Suc i < sf \<longrightarrow> rot (ri_bytes (q 0)) (ri_bytes (q i)) \<le> rot (ri_bytes (q 0)) (ri_bytes (q (Suc i)))) \<and>
     (\<forall>i. 0 < i \<and> i < sf \<longrightarrow> q i \<in> se_ID ` set es) \<and>
     (if Range_IsAll r then q sf = q 0 \<and> q 0 \<in> se_ID ` set es else q 0 = r_Start r \<and> q sf = r_End r) \<and>
     (2 \<le> length es \<longrightarrow> (\<exists>e\<in>set es. rot (ri_bytes (q 0)) (eb e) < rot (ri_bytes (q 0)) (ri_bytes (q (sf - 1)))))"

lemma split_okD:
  assumes "split_ok es r rs q sf"
  shows "set rs = set (chain_ranges q sf)" "2 \<le> sf"
    "Suc i < sf \<Longrightarrow> rot (ri_bytes (q 0)) (ri_bytes (q i)) \<le> rot (ri_bytes (q 0)) (ri_bytes (q (Suc i)))"
    "0 < i \<Longrightarrow> i < sf \<Longrightarrow> q i \<in> se_ID ` set es"
    "Range_IsAll r \<Longrightarrow> q sf = q 0 \<and> q 0 \<in> se_ID ` set es"
    "\<not> Range_IsAll r \<Longrightarrow> q 0 = r_Start r \<and> q sf = r_End r"
    "2 \<le> length es \<Longrightarrow> \<exists>e\<in>set es. rot (ri_bytes (q 0)) (eb e) < rot (ri_bytes (q 0)) (ri_bytes (q (sf - 1)))"
    "mset rs = mset (chain_ranges q sf)"
  using assms mset_eq_setD unfolding split_ok_def by (blast, simp_all)

lemma splitRange_chain:
  assumes wf: "store_wf s" and ne: "scopeRange sc r s \<noteq> []"
  shows "\<exists>q sf. split_ok (scopeRange sc r s) r (splitRange sc r f s) q sf"
proof -
  define ids where "ids = map se_ID (scopeRange sc r s)"
  define sf where "sf = nat (if f < 2 then 2 else f)"
  define k where "k = split_start ids (r_Start r)"
  define p where "p = pivot ids k sf"
  define b where "b = (if Range_IsAll r then p (sf - 1) else r_Start r)"
  define e where "e = (if Range_IsAll r then p (sf - 1) else r_End r)"
  let ?q = "split_chain b p e sf"
  have ids: "ids \<noteq> []" and sf: "2 \<le> sf" using ne by (auto simp: ids_def sf_def)
  have k: "k < length ids" using split_start_less [OF ids] by (simp add: k_def)
  have srt: "sorted_wrt (<) (map ri_bytes ids)" using scopeRange_sorted [OF wf, of sc r] by (simp add: ids_def comp_def)
  have mem: "rotate k ids ! j \<in> se_ID ` set (scopeRange sc r s)" if "j < length ids" for j
    using nth_mem [of j "rotate k ids"] that by (simp add: ids_def)
  have p0: "p (sf - 1) = rotate k ids ! 0" using pivot_nth(2) [OF ids, of sf k] sf by (simp add: p_def)
  have rsrt: "sorted_wrt (\<lambda>x y. rot (ri_bytes b) x < rot (ri_bytes b) y) (map ri_bytes (rotate k ids))"
  proof (cases "Range_IsAll r")
    case True
    then have "b = ids ! k" using p0 nth_rotate [of 0 ids k] k ids by (simp add: b_def)
    then show ?thesis using rotate_first_sorted [OF srt, of k] k by (simp add: rotate_map)
  next
    case False
    then show ?thesis using split_start_sorted [OF srt ids, of "r_Start r"] by (simp add: b_def k_def)
  qed
  have psf: "p sf = p 0" using pivot_nth(3) [OF ids, of sf k] sf by (simp add: p_def)
  have set: "mset (splitRange sc r f s) = mset (chain_ranges ?q sf)"
    unfolding splitRange_def Let_def ids_def [symmetric] sf_def [symmetric] k_def [symmetric] p_def [symmetric]
    using ids chain_ranges_all [OF psf sf] chain_ranges_part [OF sf, of b p e]
    by (cases "Range_IsAll r") (simp_all add: b_def e_def)
  have inner: "?q i \<in> se_ID ` set (scopeRange sc r s)" if "0 < i" "i < sf" for i
    using pivot_nth(1) [OF ids, of sf "i - 1" k] that mem by (simp add: split_chain_def p_def)
  have ends: "if Range_IsAll r then ?q sf = ?q 0 \<and> ?q 0 \<in> se_ID ` set (scopeRange sc r s) else ?q 0 = r_Start r \<and> ?q sf = r_End r"
    using sf p0 mem [of 0] ids by (simp add: split_chain_def b_def e_def)
  have missed: "\<exists>x\<in>set (scopeRange sc r s). rot (ri_bytes (?q 0)) (eb x) < rot (ri_bytes (?q 0)) (ri_bytes (?q (sf - 1)))"
    if "2 \<le> length (scopeRange sc r s)"
  proof -
    have n: "2 \<le> length ids" using that by (simp add: ids_def)
    obtain x where "x \<in> set (scopeRange sc r s)" "rotate k ids ! 0 = se_ID x" using mem [of 0] ids by auto
    then show ?thesis using split_chain_last [OF rsrt n sf, of b e] by (auto simp: p_def)
  qed
  have mono: "rot (ri_bytes (?q 0)) (ri_bytes (?q i)) \<le> rot (ri_bytes (?q 0)) (ri_bytes (?q (Suc i)))" if "Suc i < sf" for i
    using split_chain_mono [OF rsrt refl ids that, of e] by (simp add: p_def)
  show ?thesis
    unfolding split_ok_def by (intro exI [of _ ?q] exI [of _ sf]) (use set sf inner ends missed mono in blast)
qed

lemma Range_IsAll_iff: "Range_IsAll r \<longleftrightarrow> ri_bytes (r_Start r) = ri_bytes (r_End r)"
  by (simp add: Range_IsAll_def RecordIdentifier_Compare_def)

lemma NewRange_contains: "Range_Contains (NewRange a b) i = arc (ri_bytes a) (ri_bytes b) (ri_bytes i)"
  by (simp add: Range_Contains_arc NewRange_def)

lemma Range_Contains_part:
  "\<not> Range_IsAll r \<Longrightarrow> Range_Contains r i \<longleftrightarrow> rot (ri_bytes (r_Start r)) (ri_bytes i) < rot (ri_bytes (r_Start r)) (ri_bytes (r_End r))"
  by (simp add: Range_Contains_arc Range_IsAll_iff arc_from_base)

lemma splitRange_cover:
  assumes wf: "store_wf s" and ne: "scopeRange sc r s \<noteq> []" and all: "Range_IsAll r \<Longrightarrow> 2 \<le> length (scopeRange sc r s)"
    and i: "Range_Contains r x"
  shows "\<exists>r'\<in>set (splitRange sc r f s). Range_Contains r' x"
proof -
  obtain q sf where ok: "split_ok (scopeRange sc r s) r (splitRange sc r f s) q sf"
    using splitRange_chain [OF wf ne, of f] by blast
  note q = split_okD [OF ok]
  let ?z = "ri_bytes (q 0)" and ?Q = "\<lambda>i. ri_bytes (q i)" and ?x = "ri_bytes x"
  have "\<exists>i. i < sf \<and> ?Q i \<noteq> ?Q (Suc i) \<and> arc (?Q i) (?Q (Suc i)) ?x"
  proof (cases "Range_IsAll r \<and> \<not> rot ?z ?x < rot ?z (?Q (sf - 1))")
    case True
    then obtain e where "rot ?z (eb e) < rot ?z (?Q (sf - 1))" using q(7) all by blast
    then have "rot ?z ?z < rot ?z (?Q (sf - 1))" using rot_base le_less_trans by blast
    then have "?Q (sf - 1) \<noteq> ?z" by auto
    then show ?thesis using True q(2,5) arc_to_base [of "?Q (sf - 1)" ?z ?x] by (intro exI [of _ "sf - 1"]) auto
  next
    case False
    define k where "k = (if Range_IsAll r then sf - 1 else sf)"
    have "rot ?z ?x < rot ?z (?Q k)" using False i q(6) Range_Contains_part [of r x] by (auto simp: k_def split: if_splits)
    then obtain i where "i < k" "?Q i \<noteq> ?Q (Suc i)" "arc (?Q i) (?Q (Suc i)) ?x" using arcs_cover [of ?z ?x ?Q k] by blast
    then show ?thesis by (intro exI [of _ i]) (auto simp: k_def split: if_splits)
  qed
  then show ?thesis unfolding q(1) set_chain_ranges using NewRange_contains by blast
qed

lemma split_last:
  assumes ok: "split_ok (scopeRange sc r s) r rs q sf" and r: "\<not> Range_IsAll r"
  shows "rot (ri_bytes (q 0)) (ri_bytes (q (sf - 1))) < rot (ri_bytes (q 0)) (ri_bytes (q sf))"
proof -
  note q = split_okD [OF ok]
  obtain e where "e \<in> set (scopeRange sc r s)" "q (sf - 1) = se_ID e" using q(4) [of "sf - 1"] q(2) by auto
  then have "Range_Contains r (q (sf - 1))" by (simp add: set_scopeRange)
  then show ?thesis using Range_Contains_part [OF r] q(6) [OF r] by simp
qed

lemma split_mono:
  assumes ok: "split_ok (scopeRange sc r s) r rs q sf" and r: "\<not> Range_IsAll r" and j: "j < sf"
  shows "rot (ri_bytes (q 0)) (ri_bytes (q j)) \<le> rot (ri_bytes (q 0)) (ri_bytes (q (Suc j)))"
  using split_okD(3) [OF ok, of j] split_last [OF ok r] j by (cases "Suc j = sf") auto

lemma splitRange_step:
  assumes wf: "store_wf s" and ne: "scopeRange sc r s \<noteq> []" and r': "r' \<in> set (splitRange sc r f s)"
  shows "Range_Contains r' x \<Longrightarrow> Range_Contains r x"
    and "2 \<le> length (scopeRange sc r s) \<Longrightarrow> \<exists>e\<in>set (scopeRange sc r s). \<not> Range_Contains r' (se_ID e)"
proof -
  obtain q sf where ok: "split_ok (scopeRange sc r s) r (splitRange sc r f s) q sf"
    using splitRange_chain [OF wf ne, of f] by blast
  note q = split_okD [OF ok]
  let ?z = "ri_bytes (q 0)" and ?Q = "\<lambda>i. ri_bytes (q i)"
  obtain i where i: "i < sf" "?Q i \<noteq> ?Q (Suc i)" "r' = NewRange (q i) (q (Suc i))"
    using r' unfolding q(1) set_chain_ranges by blast
  note last = split_last [OF ok] and mono = split_mono [OF ok]
  show "Range_Contains r x" if x: "Range_Contains r' x"
  proof (cases "Range_IsAll r")
    case True
    then show ?thesis by (simp add: Range_Contains_arc Range_IsAll_iff arc_def)
  next
    case False
    then have "rot ?z (ri_bytes x) < rot ?z (?Q sf)"
      using arcs_inside(1) [of sf ?z ?Q i "ri_bytes x"] mono i x by (simp add: NewRange_contains)
    then show ?thesis using Range_Contains_part [OF False] q(6) [OF False] by simp
  qed
  show "\<exists>e\<in>set (scopeRange sc r s). \<not> Range_Contains r' (se_ID e)" if n: "2 \<le> length (scopeRange sc r s)"
  proof (cases "q (Suc i) \<in> se_ID ` set (scopeRange sc r s)")
    case True
    then show ?thesis using i(3) arc_end [OF i(2)] by (auto simp: NewRange_contains)
  next
    case False
    then have "\<not> Suc i < sf" using q(4) [of "Suc i"] by blast
    then have il: "i = sf - 1" "Suc i = sf" using i(1) by simp_all
    have nall: "\<not> Range_IsAll r" using False q(5) unfolding il(2) by auto
    obtain e where "e \<in> set (scopeRange sc r s)" "rot ?z (eb e) < rot ?z (?Q i)" using q(7) [OF n] unfolding il(1) [symmetric] by blast
    moreover have "rot ?z (?Q i) < rot ?z (?Q (Suc i))" using last [OF nall] unfolding il(1) [symmetric] il(2) .
    then have "\<not> arc (?Q i) (?Q (Suc i)) (eb e)" using arc_rot [of ?z "?Q i" "?Q (Suc i)" "eb e"] calculation(2) by auto
    ultimately show ?thesis using i(3) by (auto simp: NewRange_contains)
  qed
qed

text \<open>The sub-ranges of a split do not overlap.\<close>

lemma split_disjoint:
  assumes ok: "split_ok (scopeRange sc r s) r rs q sf" and ij: "i < j" "j < sf"
    and i: "ri_bytes (q i) \<noteq> ri_bytes (q (Suc i))" "Range_Contains (NewRange (q i) (q (Suc i))) x"
    and j: "ri_bytes (q j) \<noteq> ri_bytes (q (Suc j))" "Range_Contains (NewRange (q j) (q (Suc j))) x"
  shows False
proof -
  note q = split_okD [OF ok]
  let ?z = "ri_bytes (q 0)" and ?Q = "\<lambda>i. ri_bytes (q i)"
  have mono: "rot ?z (?Q k) \<le> rot ?z (?Q (Suc k))" if "k < j" for k using q(3) [of k] that ij by simp
  have "rot ?z (ri_bytes x) < rot ?z (?Q j)" using arcs_inside(1) [of j ?z ?Q i "ri_bytes x"] mono ij i by (simp add: NewRange_contains)
  moreover have "rot ?z (?Q j) \<le> rot ?z (ri_bytes x)"
  proof (cases "Suc j = sf \<and> Range_IsAll r")
    case True
    then have "?Q (Suc j) = ?z" using q(5) by simp
    then show ?thesis using j arc_to_base [of "?Q j" ?z "ri_bytes x"] by (simp add: NewRange_contains)
  next
    case False
    then have "rot ?z (?Q j) \<le> rot ?z (?Q (Suc j))" using split_mono [OF ok _ ij(2)] q(3) [of j] ij(2) by (cases "Range_IsAll r") auto
    then have "rot ?z (?Q k) \<le> rot ?z (?Q (Suc k))" if "k < Suc j" for k using mono that less_Suc_eq by auto
    then show ?thesis using arcs_inside(2) [of "Suc j" ?z ?Q j "ri_bytes x"] j by (simp add: NewRange_contains)
  qed
  ultimately show False by simp
qed

lemma filter_unique: "distinct xs \<Longrightarrow> (\<And>a b. a \<in> set xs \<Longrightarrow> b \<in> set xs \<Longrightarrow> P a \<Longrightarrow> P b \<Longrightarrow> a = b) \<Longrightarrow> length (filter P xs) \<le> 1"
proof (induction xs)
  case (Cons x xs)
  show ?case
  proof (cases "P x")
    case True
    then have "filter P xs = []" using Cons.prems by (auto simp: filter_empty_conv)
    then show ?thesis by simp
  next
    case False
    then show ?thesis using Cons by simp
  qed
qed simp

lemma splitRange_once:
  assumes wf: "store_wf s" and ne: "scopeRange sc r s \<noteq> []"
  shows "length (filter (\<lambda>r'. Range_Contains r' x) (splitRange sc r f s)) \<le> of_bool (Range_Contains r x)"
proof (cases "Range_Contains r x")
  case True
  obtain q sf where ok: "split_ok (scopeRange sc r s) r (splitRange sc r f s) q sf"
    using splitRange_chain [OF wf ne, of f] by blast
  let ?P = "\<lambda>i. ri_bytes (q i) \<noteq> ri_bytes (q (Suc i)) \<and> Range_Contains (NewRange (q i) (q (Suc i))) x"
  have "a = b" if "a \<in> set [0..<sf]" "b \<in> set [0..<sf]" "?P a" "?P b" for a b
    using split_disjoint [OF ok, of a b x] split_disjoint [OF ok, of b a x] that by (cases a b rule: linorder_cases) auto
  then have "length (filter ?P [0..<sf]) \<le> 1" by (intro filter_unique) auto
  moreover have "mset (filter (\<lambda>r'. Range_Contains r' x) (splitRange sc r f s)) = mset (filter (\<lambda>r'. Range_Contains r' x) (chain_ranges q sf))"
    using split_okD(8) [OF ok] by (simp add: mset_filter)
  then have "length (filter (\<lambda>r'. Range_Contains r' x) (splitRange sc r f s)) = length (filter (\<lambda>r'. Range_Contains r' x) (chain_ranges q sf))"
    by (rule mset_eq_length)
  moreover have "length (filter (\<lambda>r'. Range_Contains r' x) (chain_ranges q sf)) = length (filter ?P [0..<sf])"
    by (simp add: chain_ranges_def filter_map comp_def)
  ultimately show ?thesis using True by simp
next
  case False
  then have "filter (\<lambda>r'. Range_Contains r' x) (splitRange sc r f s) = []"
    using splitRange_step(1) [OF wf ne, of _ f x] by (auto simp: filter_empty_conv)
  then show ?thesis by simp
qed

end
