(* ===== verification/Docs_Wire.thy ===== *)
theory Docs_Wire
  imports Docs_Store
begin

text \<open>
  The wire format of document sync: the decoders of \<open>docs/ranger.go\<close>, the sync frames of
  \<open>docs/net.go\<close>, the live operations of \<open>docs/live.go\<close> and the sync heads of \<open>docs/heads.go\<close>.
  Each codec is an interpretation of the codec contract, so every well-formed value round-trips
  and every accepted input is the encoding of the value it decodes to.
\<close>

section \<open>Decoders\<close>

definition dec_NamespaceID :: "ed25519 \<Rightarrow> NamespaceID dec" where
  "dec_NamespaceID E d = rbind (dec_raw 32 d) (\<lambda>(b, d').
     case NewEndpointID E b of
       Inl _ \<Rightarrow> Inl (ErrCustom ''key: invalid namespace'')
     | Inr n \<Rightarrow> Inr (n, d'))"

definition status_of :: "u64 \<Rightarrow> ContentStatus" where
  "status_of n = (if n = 0 then ContentComplete else if n = 1 then ContentIncomplete
     else if n = 2 then ContentMissing else ContentStatusOther n)"

definition dec_Range :: "ed25519 \<Rightarrow> Range dec" where
  "dec_Range E = dec_map (\<lambda>(a, b). \<lparr>r_Start = a, r_End = b\<rparr>) (dec_pair (dec_RecordIdentifier E) (dec_RecordIdentifier E))"

definition dec_RangeFingerprint :: "ed25519 \<Rightarrow> RangeFingerprint dec" where
  "dec_RangeFingerprint E = dec_map (\<lambda>(r, f). \<lparr>rf_Range = r, rf_Fingerprint = f\<rparr>) (dec_pair (dec_Range E) (dec_raw 32))"

definition dec_RangeValue :: "ed25519 \<Rightarrow> RangeValue dec" where
  "dec_RangeValue E = dec_map (\<lambda>(e, n). \<lparr>rv_Entry = e, rv_Status = status_of n\<rparr>) (dec_pair (dec_SignedEntry E) dec_uint)"

definition dec_RangeItem :: "ed25519 \<Rightarrow> RangeItem dec" where
  "dec_RangeItem E = dec_map (\<lambda>(r, vs, h). \<lparr>rit_Range = r, rit_Values = vs, rit_HaveLocal = h\<rparr>)
     (dec_pair (dec_Range E) (dec_pair (dec_slice (dec_RangeValue E)) dec_bool))"

definition dec_MessagePart :: "ed25519 \<Rightarrow> MessagePart dec" where
  "dec_MessagePart E d = rbind (dec_varint d) (\<lambda>(kind, d').
     if kind = 0 then dec_map PartFingerprint (dec_RangeFingerprint E) d'
     else if kind = 1 then dec_map PartItem (dec_RangeItem E) d'
     else Inl (ErrUnknownVariant kind))"

definition enc_Message :: "Message \<Rightarrow> pc_error + bytes" where
  "enc_Message m = enc_slice enc_MessagePart (m_Parts m)"

definition dec_Message :: "ed25519 \<Rightarrow> Message dec" where
  "dec_Message E = dec_map (\<lambda>ps. \<lparr>m_Parts = ps\<rparr>) (dec_slice (dec_MessagePart E))"

section \<open>Sync messages and frames\<close>

record liveSyncReport =
  lsr_Namespace :: NamespaceID
  lsr_Heads :: bytes

definition enc_liveSyncReport :: "liveSyncReport \<Rightarrow> pc_error + bytes" where
  "enc_liveSyncReport r = enc_pair enc_raw enc_bytes (lsr_Namespace r, lsr_Heads r)"

definition dec_liveSyncReport :: "ed25519 \<Rightarrow> liveSyncReport dec" where
  "dec_liveSyncReport E = dec_map (\<lambda>(n, h). \<lparr>lsr_Namespace = n, lsr_Heads = h\<rparr>) (dec_pair (dec_NamespaceID E) dec_bytes)"

datatype syncWireMessage =
    syncMessageInit NamespaceID Message
  | syncMessageSync Message
  | syncMessageAbort u64
  | syncMessageReport NamespaceID liveSyncReport
  | syncMessageUnknown u64

fun enc_syncWireMessage :: "syncWireMessage \<Rightarrow> pc_error + bytes" where
  "enc_syncWireMessage (syncMessageInit n m) = enc_kind 0 (enc_pair enc_raw enc_Message (n, m))"
| "enc_syncWireMessage (syncMessageSync m) = enc_kind 1 (enc_Message m)"
| "enc_syncWireMessage (syncMessageAbort r) = enc_kind 2 (enc_uint r)"
| "enc_syncWireMessage (syncMessageReport n r) = enc_kind 3 (enc_pair enc_raw enc_liveSyncReport (n, r))"
| "enc_syncWireMessage (syncMessageUnknown k) = Inl (ErrUnknownVariant k)"

definition dec_syncWireMessage :: "ed25519 \<Rightarrow> syncWireMessage dec" where
  "dec_syncWireMessage E d = rbind (dec_varint d) (\<lambda>(kind, d').
     if kind = 0 then dec_map (\<lambda>(n, m). syncMessageInit n m) (dec_pair (dec_NamespaceID E) (dec_Message E)) d'
     else if kind = 1 then dec_map syncMessageSync (dec_Message E) d'
     else if kind = 2 then dec_map syncMessageAbort dec_uint d'
     else if kind = 3 then dec_map (\<lambda>(n, r). syncMessageReport n r) (dec_pair (dec_NamespaceID E) (dec_liveSyncReport E)) d'
     else Inl (ErrUnknownVariant kind))"

datatype sync_frame_error =
    SyncMarshal pc_error
  | SyncTooLarge
  | SyncEOF
  | SyncUnexpectedEOF
  | SyncUnmarshal pc_error

definition writeSyncFrame :: "syncWireMessage \<Rightarrow> sync_frame_error + bytes" where
  "writeSyncFrame msg =
     (case marshal enc_syncWireMessage msg of
        Inl e \<Rightarrow> Inl (SyncMarshal e)
      | Inr b \<Rightarrow>
          if length b > maxSyncMessageSize then Inl SyncTooLarge
          else Inr (be32 (of_nat (length b)) @ b))"

text \<open>
  \<open>r\<close> is what the stream delivers before it ends.  \<open>io.ReadFull\<close> reports \<open>EOF\<close> only when not a byte was read.
  An \<open>int\<close> has 64 bits, so the length is never negative.
\<close>

definition readSyncFrame :: "ed25519 \<Rightarrow> bytes \<Rightarrow> sync_frame_error + (syncWireMessage \<times> bytes)" where
  "readSyncFrame E r =
     (case r of
        [] \<Rightarrow> Inl SyncEOF
      | h0 # h1 # h2 # h3 # r' \<Rightarrow>
          (let n = unat (of_be32 h0 h1 h2 h3) in
           if n > maxSyncMessageSize then Inl SyncTooLarge
           else if length r' < n then Inl SyncUnexpectedEOF
           else case unmarshal (dec_syncWireMessage E) (take n r') of
                  Inl e \<Rightarrow> Inl (SyncUnmarshal e)
                | Inr v \<Rightarrow> Inr (v, drop n r'))
      | _ \<Rightarrow> Inl SyncUnexpectedEOF)"

section \<open>Live operations\<close>

datatype liveOp =
    liveOpPut SignedEntry
  | liveOpContentReady Hash
  | liveOpSyncReport liveSyncReport
  | liveOpUnknown u64

fun enc_liveOp :: "liveOp \<Rightarrow> pc_error + bytes" where
  "enc_liveOp (liveOpPut e) = enc_kind 0 (enc_SignedEntry e)"
| "enc_liveOp (liveOpContentReady h) = enc_kind 1 (enc_raw h)"
| "enc_liveOp (liveOpSyncReport r) = enc_kind 2 (enc_liveSyncReport r)"
| "enc_liveOp (liveOpUnknown k) = Inl (ErrUnknownVariant k)"

definition dec_liveOp :: "ed25519 \<Rightarrow> liveOp dec" where
  "dec_liveOp E d = rbind (dec_varint d) (\<lambda>(kind, d').
     if kind = 0 then dec_map liveOpPut (dec_SignedEntry E) d'
     else if kind = 1 then dec_map liveOpContentReady (dec_raw 32) d'
     else if kind = 2 then dec_map liveOpSyncReport (dec_liveSyncReport E) d'
     else Inl (ErrUnknownVariant kind))"

section \<open>Sync heads\<close>

record syncHead =
  sh_Timestamp :: u64
  sh_Author :: AuthorID
  sh_Hash :: Hash

definition zeroSyncHead :: syncHead where
  "zeroSyncHead = \<lparr>sh_Timestamp = 0, sh_Author = replicate 32 0, sh_Hash = replicate 32 0\<rparr>"

definition syncHeads :: "(bytes \<Rightarrow> bytes) \<Rightarrow> NamespaceID \<Rightarrow> MemoryStore \<Rightarrow> syncHead list" where
  "syncHeads blake3 namespace s =
     (let latest = foldl (\<lambda>m e.
            if ri_namespace (se_ID e) \<noteq> namespace then m
            else
              let a = ri_author (se_ID e); ts = rec_Timestamp (se_Record e);
                  head = (case map_of m a of None \<Rightarrow> zeroSyncHead | Some h \<Rightarrow> h)
              in if ts > sh_Timestamp head
                 then mput a \<lparr>sh_Timestamp = ts, sh_Author = a, sh_Hash = SignedEntry_Fingerprint blake3 e\<rparr> m
                 else if ts = sh_Timestamp head
                 then mput a (head\<lparr>sh_Hash := map2 (XOR) (sh_Hash head) (SignedEntry_Fingerprint blake3 e)\<rparr>) m
                 else m) [] (map snd (ms_entries s))
      in sort_key (\<lambda>h. (- uint (sh_Timestamp h), sh_Author h, sh_Hash h)) (map snd latest))"

definition enc_syncHead :: "syncHead \<Rightarrow> pc_error + bytes" where
  "enc_syncHead h = enc_pair enc_uint (enc_pair enc_raw enc_raw) (sh_Timestamp h, sh_Author h, sh_Hash h)"

definition encodeSyncHeads :: "(bytes \<Rightarrow> bytes) \<Rightarrow> NamespaceID \<Rightarrow> MemoryStore \<Rightarrow> bytes" where
  "encodeSyncHeads blake3 namespace s =
     (case marshal (enc_slice enc_syncHead) (syncHeads blake3 namespace s) of Inl _ \<Rightarrow> [] | Inr b \<Rightarrow> b)"

section \<open>Well-formed values\<close>

definition ok_NamespaceID :: "ed25519 \<Rightarrow> NamespaceID \<Rightarrow> bool" where
  "ok_NamespaceID E n \<longleftrightarrow> length n = 32 \<and> validPoint E n"

definition ok_Range :: "ed25519 \<Rightarrow> Range \<Rightarrow> bool" where
  "ok_Range E r \<longleftrightarrow> ok_RecordIdentifier E (r_Start r) \<and> ok_RecordIdentifier E (r_End r)"

definition ok_RangeFingerprint :: "ed25519 \<Rightarrow> RangeFingerprint \<Rightarrow> bool" where
  "ok_RangeFingerprint E f \<longleftrightarrow> ok_Range E (rf_Range f) \<and> length (rf_Fingerprint f) = 32"

definition ok_status :: "ContentStatus \<Rightarrow> bool" where
  "ok_status st \<longleftrightarrow> (case st of ContentStatusOther n \<Rightarrow> n \<notin> {0, 1, 2} | _ \<Rightarrow> True)"

definition ok_RangeValue :: "ed25519 \<Rightarrow> RangeValue \<Rightarrow> bool" where
  "ok_RangeValue E v \<longleftrightarrow> ok_SignedEntry E (rv_Entry v) \<and> ok_status (rv_Status v)"

definition ok_RangeItem :: "ed25519 \<Rightarrow> RangeItem \<Rightarrow> bool" where
  "ok_RangeItem E i \<longleftrightarrow> ok_Range E (rit_Range i) \<and> list_all (ok_RangeValue E) (rit_Values i) \<and> length (rit_Values i) \<le> maxInt"

fun ok_MessagePart :: "ed25519 \<Rightarrow> MessagePart \<Rightarrow> bool" where
  "ok_MessagePart E (PartFingerprint f) \<longleftrightarrow> ok_RangeFingerprint E f"
| "ok_MessagePart E (PartItem i) \<longleftrightarrow> ok_RangeItem E i"
| "ok_MessagePart E (PartUnknown k) \<longleftrightarrow> False"

definition ok_Message :: "ed25519 \<Rightarrow> Message \<Rightarrow> bool" where
  "ok_Message E m \<longleftrightarrow> list_all (ok_MessagePart E) (m_Parts m) \<and> length (m_Parts m) \<le> maxInt"

definition ok_liveSyncReport :: "ed25519 \<Rightarrow> liveSyncReport \<Rightarrow> bool" where
  "ok_liveSyncReport E r \<longleftrightarrow> ok_NamespaceID E (lsr_Namespace r) \<and> length (lsr_Heads r) < 2 ^ 64"

fun ok_syncWireMessage :: "ed25519 \<Rightarrow> syncWireMessage \<Rightarrow> bool" where
  "ok_syncWireMessage E (syncMessageInit n m) \<longleftrightarrow> ok_NamespaceID E n \<and> ok_Message E m"
| "ok_syncWireMessage E (syncMessageSync m) \<longleftrightarrow> ok_Message E m"
| "ok_syncWireMessage E (syncMessageAbort r) \<longleftrightarrow> True"
| "ok_syncWireMessage E (syncMessageReport n r) \<longleftrightarrow> ok_NamespaceID E n \<and> ok_liveSyncReport E r"
| "ok_syncWireMessage E (syncMessageUnknown k) \<longleftrightarrow> False"

fun ok_liveOp :: "ed25519 \<Rightarrow> liveOp \<Rightarrow> bool" where
  "ok_liveOp E (liveOpPut e) \<longleftrightarrow> ok_SignedEntry E e"
| "ok_liveOp E (liveOpContentReady h) \<longleftrightarrow> length h = 32"
| "ok_liveOp E (liveOpSyncReport r) \<longleftrightarrow> ok_liveSyncReport E r"
| "ok_liveOp E (liveOpUnknown k) \<longleftrightarrow> False"

section \<open>Every codec keeps the contract\<close>

interpretation pcNamespace: pc_codec_ne enc_raw "dec_NamespaceID E" "ok_NamespaceID E" for E
  by unfold_locales
    (auto simp: enc_raw_def dec_raw_def dec_NamespaceID_def ok_NamespaceID_def NewEndpointID_eq rbind_eq_Inr
      split: if_splits)

interpretation pcVarBytes: pc_codec_ne enc_bytes dec_bytes "\<lambda>b. length b < 2 ^ 64"
proof (unfold_locales, goal_cases)
  case (2 x b rest)
  then show ?case by (rule dec_bytes_enc)
next
  case (3 d x rest)
  then show ?case by (rule dec_bytes_sound)
qed (simp_all add: enc_bytes_def)

lemma status_of_num: "ok_status st \<Longrightarrow> status_of (status_num st) = st"
  by (cases st) (auto simp: status_of_def ok_status_def)

lemma status_num_of: "ok_status (status_of n) \<and> status_num (status_of n) = n"
  by (auto simp: status_of_def ok_status_def)

interpretation pcStatus: pc_codec_ne "\<lambda>st. enc_uint (status_num st)" "dec_map status_of dec_uint" ok_status
proof (unfold_locales, goal_cases)
  case (1 x)
  then show ?case by (simp add: pcu64.enc_total)
next
  case (2 x b rest)
  then show ?case using pcu64.dec_enc [of "status_num x" b rest] by (simp add: dec_map_def status_of_num)
next
  case (3 d x rest)
  then show ?case using status_num_of by (auto simp: dec_map_def rbind_eq_Inr dest!: pcu64.dec_sound)
next
  case (4 x)
  then show ?case using pcu64.enc_ne by simp
qed

interpretation pcRange: pc_codec_ne enc_Range "dec_Range E" "ok_Range E" for E
  by (rule pc_structI [OF pc_codec_pair_neI [OF pcRI.pc_codec_axioms pcRI.pc_codec_axioms pcRI.pc_codec_ne_axioms],
        where fs = "\<lambda>r. (r_Start r, r_End r)" and mk = "\<lambda>(a, b). \<lparr>r_Start = a, r_End = b\<rparr>"])
    (auto simp: fun_eq_iff enc_Range_def dec_Range_def ok_Range_def)

interpretation pcRangeFingerprint: pc_codec_ne enc_RangeFingerprint "dec_RangeFingerprint E" "ok_RangeFingerprint E" for E
  by (rule pc_structI [OF pc_codec_pair_neI [OF pcRange.pc_codec_axioms pcid.pc_codec_axioms pcRange.pc_codec_ne_axioms],
        where fs = "\<lambda>f. (rf_Range f, rf_Fingerprint f)" and mk = "\<lambda>(r, f). \<lparr>rf_Range = r, rf_Fingerprint = f\<rparr>"])
    (auto simp: fun_eq_iff enc_RangeFingerprint_def dec_RangeFingerprint_def ok_RangeFingerprint_def)

lemma enc_RangeValue_eq: "enc_RangeValue v = enc_pair enc_SignedEntry (\<lambda>st. enc_uint (status_num st)) (rv_Entry v, rv_Status v)"
  by (simp add: enc_RangeValue_def enc_pair_def)

lemma dec_RangeValue_eq: "dec_RangeValue E = dec_map (\<lambda>(e, st). \<lparr>rv_Entry = e, rv_Status = st\<rparr>)
    (dec_pair (dec_SignedEntry E) (dec_map status_of dec_uint))"
  by (auto simp: fun_eq_iff dec_RangeValue_def dec_map_def dec_pair_def rbind_def split: sum.split prod.split)

interpretation pcRangeValue: pc_codec_ne enc_RangeValue "dec_RangeValue E" "ok_RangeValue E" for E
  by (rule pc_structI [OF pc_codec_pair_neI [OF pcSignedEntry.pc_codec_axioms pcStatus.pc_codec_axioms
          pcSignedEntry.pc_codec_ne_axioms],
        where fs = "\<lambda>v. (rv_Entry v, rv_Status v)" and mk = "\<lambda>(e, st). \<lparr>rv_Entry = e, rv_Status = st\<rparr>"])
    (auto simp: fun_eq_iff enc_RangeValue_eq dec_RangeValue_eq ok_RangeValue_def)

interpretation pcRangeValues: pc_codec_ne "enc_slice enc_RangeValue" "dec_slice (dec_RangeValue E)"
  "\<lambda>vs. list_all (ok_RangeValue E) vs \<and> length vs \<le> maxInt" for E
  by (rule pcRangeValue.codec_slice)

interpretation pcRangeItem: pc_codec_ne enc_RangeItem "dec_RangeItem E" "ok_RangeItem E" for E
  by (rule pc_structI [OF pc_codec_pair_neI [OF pcRange.pc_codec_axioms
          pc_codec_pairI [OF pcRangeValues.pc_codec_axioms pcbool.pc_codec_axioms] pcRange.pc_codec_ne_axioms],
        where fs = "\<lambda>i. (rit_Range i, rit_Values i, rit_HaveLocal i)"
        and mk = "\<lambda>(r, vs, h). \<lparr>rit_Range = r, rit_Values = vs, rit_HaveLocal = h\<rparr>"])
    (auto simp: fun_eq_iff enc_RangeItem_def dec_RangeItem_def ok_RangeItem_def)

interpretation pcMessagePart: pc_codec_ne enc_MessagePart "dec_MessagePart E" "ok_MessagePart E" for E
proof (unfold_locales, goal_cases)
  case (1 m)
  then show ?case by (cases m) (auto intro!: enc_kind_total pcRangeFingerprint.enc_total pcRangeItem.enc_total)
next
  case (2 m b rest)
  then show ?case
    by (cases m) (auto simp: enc_kind_eq_Inr dec_map_def dec_MessagePart_def pcRangeFingerprint.dec_enc' pcRangeItem.dec_enc')
next
  case (3 d m rest)
  then show ?case
    by (auto simp: dec_MessagePart_def enum_simps split: if_splits
        dest!: dec_varint_sound pcRangeFingerprint.dec_sound pcRangeItem.dec_sound)
next
  case (4 m)
  then show ?case by (cases m) (simp_all add: enc_kind_ne)
qed

interpretation pcMessage: pc_codec_ne enc_Message "dec_Message E" "ok_Message E" for E
  by (rule pc_structI [OF pcMessagePart.codec_slice, where fs = m_Parts and mk = "\<lambda>ps. \<lparr>m_Parts = ps\<rparr>"])
    (auto simp: fun_eq_iff enc_Message_def dec_Message_def ok_Message_def)

interpretation pcReport: pc_codec_ne enc_liveSyncReport "dec_liveSyncReport E" "ok_liveSyncReport E" for E
  by (rule pc_structI [OF pc_codec_pair_neI [OF pcNamespace.pc_codec_axioms pcVarBytes.pc_codec_axioms
          pcNamespace.pc_codec_ne_axioms],
        where fs = "\<lambda>r. (lsr_Namespace r, lsr_Heads r)" and mk = "\<lambda>(n, h). \<lparr>lsr_Namespace = n, lsr_Heads = h\<rparr>"])
    (auto simp: fun_eq_iff enc_liveSyncReport_def dec_liveSyncReport_def ok_liveSyncReport_def)

interpretation pcInit: pc_codec "enc_pair enc_raw enc_Message" "dec_pair (dec_NamespaceID E) (dec_Message E)"
  "\<lambda>(n, m). ok_NamespaceID E n \<and> ok_Message E m" for E
  by (rule pc_codec_pairI [OF pcNamespace.pc_codec_axioms pcMessage.pc_codec_axioms])

interpretation pcReported: pc_codec "enc_pair enc_raw enc_liveSyncReport" "dec_pair (dec_NamespaceID E) (dec_liveSyncReport E)"
  "\<lambda>(n, r). ok_NamespaceID E n \<and> ok_liveSyncReport E r" for E
  by (rule pc_codec_pairI [OF pcNamespace.pc_codec_axioms pcReport.pc_codec_axioms])

interpretation pcSync: pc_codec_ne enc_syncWireMessage "dec_syncWireMessage E" "ok_syncWireMessage E" for E
proof (unfold_locales, goal_cases)
  case (1 m)
  then show ?case
    by (cases m) (auto intro!: enc_kind_total pcInit.enc_total [where E = E] pcMessage.enc_total [where E = E] pcu64.enc_total
        pcReported.enc_total [where E = E])
next
  case (2 m b rest)
  then show ?case
    by (cases m) (auto simp: enc_kind_eq_Inr dec_map_def dec_syncWireMessage_def pcInit.dec_enc' pcMessage.dec_enc'
        pcu64.dec_enc' pcReported.dec_enc')
next
  case (3 d m rest)
  then show ?case
    by (auto simp: dec_syncWireMessage_def enum_simps split: if_splits
        dest!: dec_varint_sound pcInit.dec_sound pcMessage.dec_sound pcu64.dec_sound pcReported.dec_sound)
next
  case (4 m)
  then show ?case by (cases m) (simp_all add: enc_kind_ne)
qed

interpretation pcLiveOp: pc_codec_ne enc_liveOp "dec_liveOp E" "ok_liveOp E" for E
proof (unfold_locales, goal_cases)
  case (1 m)
  then show ?case
    by (cases m) (auto intro!: enc_kind_total pcSignedEntry.enc_total [where E = E] pcid.enc_total pcReport.enc_total [where E = E])
next
  case (2 m b rest)
  then show ?case
    by (cases m) (auto simp: enc_kind_eq_Inr dec_map_def dec_liveOp_def pcSignedEntry.dec_enc' pcid.dec_enc' pcReport.dec_enc')
next
  case (3 d m rest)
  then show ?case
    by (auto simp: dec_liveOp_def enum_simps split: if_splits
        dest!: dec_varint_sound pcSignedEntry.dec_sound pcid.dec_sound pcReport.dec_sound)
next
  case (4 m)
  then show ?case by (cases m) (simp_all add: enc_kind_ne)
qed

section \<open>Frames\<close>

lemma sync_frame_read:
  assumes ok: "ok_syncWireMessage E m" and w: "writeSyncFrame m = Inr f"
  shows "readSyncFrame E (f @ rest) = Inr (m, rest)"
proof -
  obtain b where b: "marshal enc_syncWireMessage m = Inr b" "length b \<le> maxSyncMessageSize" "f = be32 (of_nat (length b)) @ b"
    using w by (auto simp: writeSyncFrame_def split: sum.splits if_splits)
  have "unat (of_nat (length b) :: u32) = length b"
    using b(2) by (simp add: maxSyncMessageSize_def unat_of_nat take_bit_eq_mod)
  then show ?thesis
    using b pcSync.unmarshal_marshal [OF ok b(1)] by (simp add: readSyncFrame_def be32_def Let_def)
qed

lemma sync_frame_sound:
  assumes "readSyncFrame E r = Inr (m, rest)"
  shows "ok_syncWireMessage E m \<and> (\<exists>f. writeSyncFrame m = Inr f \<and> r = f @ rest)"
proof -
  obtain h0 h1 h2 h3 r' where r: "r = h0 # h1 # h2 # h3 # r'"
    using assms by (auto simp: readSyncFrame_def Let_def split: list.splits)
  define n where "n = unat (of_be32 h0 h1 h2 h3)"
  from assms have u: "unmarshal (dec_syncWireMessage E) (take n r') = Inr m" "rest = drop n r'" "n \<le> length r'" "n \<le> maxSyncMessageSize"
    by (auto simp: readSyncFrame_def r n_def Let_def split: if_splits sum.splits)
  have "be32 (of_nat (length (take n r'))) = [h0, h1, h2, h3]"
    using u(3) by (simp add: n_def)
  with u r pcSync.marshal_unmarshal [OF u(1)] show ?thesis by (auto simp: writeSyncFrame_def)
qed

end
