(* ===== verification/Docs_Sync.thy ===== *)
theory Docs_Sync
  imports Docs_Wire
begin

text \<open>
  A document sync over one stream: \<open>Handler.Accept\<close>, \<open>Sync\<close> and \<open>Handler.run\<close> of \<open>docs/net.go\<close>.
  A side is a function of the bytes it reads: one turn reads a frame, reconciles the message in it
  and writes the reply.  A session joins a dialing and an accepting side; each frame that one
  writes is what the other reads next, and a side that returns closes the stream, which the other
  reads as its end.  The clock is read once per turn.
\<close>

datatype BlobState = BlobNotFound | BlobPartial | BlobComplete

text \<open>\<open>Store\<close> is part of the state; \<open>hd_blobs\<close> is \<open>blobs.Status\<close> on the blob store, \<open>None\<close> when it fails.\<close>

record Handler =
  hd_Config :: SyncConfig
  hd_Allow :: "(NamespaceID \<Rightarrow> EndpointID \<Rightarrow> bool) option"
  hd_Validate :: "(SignedEntry \<Rightarrow> ContentStatus \<Rightarrow> bool) option"
  hd_ContentStatus :: "(SignedEntry \<Rightarrow> ContentStatus) option"
  hd_blobs :: "Hash \<Rightarrow> BlobState option"

text \<open>What a side runs in: the cryptography, the clock and the file system.\<close>

record sync_world =
  w_ed :: ed25519
  w_blake3 :: "bytes \<Rightarrow> bytes"
  w_now :: u64
  w_save :: "(bytes, SignedEntry) gomap \<Rightarrow> string option"

definition handler_contentStatus :: "Handler \<Rightarrow> SignedEntry \<Rightarrow> ContentStatus" where
  "handler_contentStatus h e =
     (case hd_ContentStatus h of
        Some f \<Rightarrow> f e
      | None \<Rightarrow>
          (case hd_blobs h (rec_Hash (se_Record e)) of
             Some BlobComplete \<Rightarrow> ContentComplete
           | Some BlobPartial \<Rightarrow> ContentIncomplete
           | _ \<Rightarrow> ContentMissing))"

definition handler_validate :: "ed25519 \<Rightarrow> Handler \<Rightarrow> SignedEntry \<Rightarrow> ContentStatus \<Rightarrow> bool" where
  "handler_validate E h e st =
     (if SignedEntry_Verify E e \<noteq> Inr () \<or> \<not> ValidateEmpty (se_Entry e) then False
      else case hd_Validate h of None \<Rightarrow> True | Some v \<Rightarrow> v e st)"

definition run_env :: "sync_world \<Rightarrow> Handler \<Rightarrow> EndpointID \<Rightarrow> sync_env" where
  "run_env w h peer = \<lparr>se_blake3 = w_blake3 w, se_now = w_now w, se_validate = handler_validate (w_ed w) h,
     se_status = handler_contentStatus h, se_from = peer, se_save = w_save w\<rparr>"

record SyncOutcome =
  NumSent :: nat
  NumRecv :: nat

datatype run_error =
    RunPersist string
  | RunWrite sync_frame_error
  | RunRead sync_frame_error
  | RunAborted u64
  | RunUnexpectedInit
  | RunUnknown u64
  | RunExpectedInit

record run_state =
  run_store :: MemoryStore
  run_out :: SyncOutcome

definition ValueCount :: "Message \<Rightarrow> nat" where
  "ValueCount m = sum_list (map (\<lambda>i. length (rit_Values i)) (message_items m))"

definition AbortNotFound :: u64 where "AbortNotFound = 0"
definition AbortInternalServerError :: u64 where "AbortInternalServerError = 2"

text \<open>A write whose error is ignored.\<close>

definition write_ignored :: "syncWireMessage \<Rightarrow> bytes" where
  "write_ignored m = (case writeSyncFrame m of Inl _ \<Rightarrow> [] | Inr f \<Rightarrow> f)"

definition persistFailure :: "bool \<Rightarrow> string \<Rightarrow> run_error \<times> bytes" where
  "persistFailure acceptSide err =
     (RunPersist err, if acceptSide then write_ignored (syncMessageAbort AbortInternalServerError) else [])"

text \<open>Returning without an error: the deferred check of the store's saving.\<close>

definition run_finish :: "bool \<Rightarrow> run_state \<Rightarrow> run_error option \<times> bytes" where
  "run_finish acceptSide st =
     (case ms_persistErr (run_store st) of
        None \<Rightarrow> (None, [])
      | Some e \<Rightarrow> map_prod Some id (persistFailure acceptSide e))"

text \<open>
  One turn of the loop with a message at hand.  The first component is \<open>None\<close> while the loop goes
  on, and \<open>Some r\<close> when \<open>run\<close> returns with error \<open>r\<close>; the second is what it writes.
\<close>

definition run_turn ::
  "sync_world \<Rightarrow> Handler \<Rightarrow> EndpointID \<Rightarrow> NamespaceID \<Rightarrow> bool \<Rightarrow> Message \<Rightarrow> run_state
   \<Rightarrow> run_error option option \<times> bytes \<times> run_state" where
  "run_turn w h peer namespace acceptSide msg st =
     (case processMessage (run_env w h peer) (inNamespace namespace) (hd_Config h) msg (run_store st) of
        (Inl e, _, s) \<Rightarrow>
          (let (r, f) = persistFailure acceptSide e in (Some (Some r), f, st\<lparr>run_store := s\<rparr>))
      | (Inr reply, _, s) \<Rightarrow>
          (let st = st\<lparr>run_store := s, run_out := (run_out st)\<lparr>NumRecv := NumRecv (run_out st) + ValueCount msg\<rparr>\<rparr>
           in case reply of
                None \<Rightarrow> (let (r, f) = run_finish acceptSide st in (Some r, f, st))
              | Some reply \<Rightarrow>
                  (let st = st\<lparr>run_out := (run_out st)\<lparr>NumSent := NumSent (run_out st) + ValueCount reply\<rparr>\<rparr>
                   in case writeSyncFrame (syncMessageSync reply) of
                        Inl e \<Rightarrow> (Some (Some (RunWrite e)), [], st)
                      | Inr f \<Rightarrow> (None, f, st))))"

text \<open>One turn that starts by reading a frame.\<close>

definition run_receive ::
  "sync_world \<Rightarrow> Handler \<Rightarrow> EndpointID \<Rightarrow> NamespaceID \<Rightarrow> bool \<Rightarrow> bytes \<Rightarrow> run_state
   \<Rightarrow> run_error option option \<times> bytes \<times> run_state" where
  "run_receive w h peer namespace acceptSide data st =
     (case readSyncFrame (w_ed w) data of
        Inl SyncEOF \<Rightarrow> (let (r, f) = run_finish acceptSide st in (Some r, f, st))
      | Inl e \<Rightarrow> (Some (Some (RunRead e)), [], st)
      | Inr (syncMessageSync m, _) \<Rightarrow> run_turn w h peer namespace acceptSide m st
      | Inr (syncMessageAbort reason, _) \<Rightarrow> (Some (Some (RunAborted reason)), [], st)
      | Inr (syncMessageInit _ _, _) \<Rightarrow> (Some (Some RunUnexpectedInit), [], st)
      | Inr (syncMessageReport _ _, _) \<Rightarrow> (Some (Some (RunUnknown 3)), [], st)
      | Inr (syncMessageUnknown k, _) \<Rightarrow> (Some (Some (RunUnknown k)), [], st))"

section \<open>The accepting side\<close>

text \<open>
  \<open>Accept\<close> on the first frame: a report is answered and, unless the heads agree, an init frame is
  read next (\<open>AcceptAwaitInit\<close>); an init frame of an allowed namespace starts \<open>run\<close>.
\<close>

datatype accept_next =
    AcceptDone "run_error option"
  | AcceptAwaitInit
  | AcceptRun NamespaceID Message

definition allowed :: "Handler \<Rightarrow> NamespaceID \<Rightarrow> EndpointID \<Rightarrow> bool" where
  "allowed h namespace peer = (case hd_Allow h of None \<Rightarrow> False | Some allow \<Rightarrow> allow namespace peer)"

definition accept_reply :: "syncWireMessage \<Rightarrow> accept_next \<Rightarrow> accept_next \<times> bytes" where
  "accept_reply m next = (case writeSyncFrame m of Inl e \<Rightarrow> (AcceptDone (Some (RunWrite e)), []) | Inr f \<Rightarrow> (next, f))"

definition accept_frame ::
  "sync_world \<Rightarrow> Handler \<Rightarrow> EndpointID \<Rightarrow> bool \<Rightarrow> bytes \<Rightarrow> MemoryStore \<Rightarrow> accept_next \<times> bytes" where
  "accept_frame w h peer reported data s =
     (case readSyncFrame (w_ed w) data of
        Inl e \<Rightarrow> (AcceptDone (Some (RunRead e)), [])
      | Inr (syncMessageReport namespace report, _) \<Rightarrow>
          if reported then (AcceptDone (Some RunExpectedInit), [])
          else if \<not> allowed h namespace peer then accept_reply (syncMessageAbort AbortNotFound) (AcceptDone None)
          else
            let local = encodeSyncHeads (w_blake3 w) namespace s
            in accept_reply (syncMessageReport namespace \<lparr>lsr_Namespace = namespace, lsr_Heads = local\<rparr>)
                 (if lsr_Namespace report = namespace \<and> lsr_Heads report = local then AcceptDone None else AcceptAwaitInit)
      | Inr (syncMessageInit namespace m, _) \<Rightarrow>
          if \<not> allowed h namespace peer then accept_reply (syncMessageAbort AbortNotFound) (AcceptDone None)
          else (AcceptRun namespace m, [])
      | Inr _ \<Rightarrow> (AcceptDone (Some RunExpectedInit), []))"

definition new_run :: "MemoryStore \<Rightarrow> run_state" where
  "new_run s = \<lparr>run_store = s, run_out = \<lparr>NumSent = 0, NumRecv = 0\<rparr>\<rparr>"

text \<open>\<open>run\<close> of the accepting side starts with the check of the store's saving.\<close>

definition accept_run ::
  "sync_world \<Rightarrow> Handler \<Rightarrow> EndpointID \<Rightarrow> NamespaceID \<Rightarrow> Message \<Rightarrow> MemoryStore
   \<Rightarrow> run_error option option \<times> bytes \<times> run_state" where
  "accept_run w h peer namespace msg s =
     (case ms_persistErr s of
        Some e \<Rightarrow> (let (r, f) = persistFailure True e in (Some (Some r), f, new_run s))
      | None \<Rightarrow> run_turn w h peer namespace True msg (new_run s))"

text \<open>The dialing side writes the init frame.\<close>

definition Sync_init :: "sync_world \<Rightarrow> NamespaceID \<Rightarrow> MemoryStore \<Rightarrow> sync_frame_error + bytes" where
  "Sync_init w namespace s = writeSyncFrame (syncMessageInit namespace (initialMessage (w_blake3 w) (inNamespace namespace) s))"

section \<open>Sessions\<close>

record side =
  sd_world :: sync_world
  sd_handler :: Handler
  sd_peer :: EndpointID
  sd_accept :: bool
  sd_state :: run_state

definition side_receive :: "NamespaceID \<Rightarrow> bytes \<Rightarrow> side \<Rightarrow> run_error option option \<times> bytes \<times> side" where
  "side_receive namespace data a =
     (case run_receive (sd_world a) (sd_handler a) (sd_peer a) namespace (sd_accept a) data (sd_state a) of
        (r, f, st) \<Rightarrow> (r, f, a\<lparr>sd_state := st\<rparr>))"

text \<open>
  The rest of a session when \<open>a\<close> is about to read \<open>data\<close>: the errors with which the two loops
  return and the sides after them.  \<open>None\<close> when the fuel does not suffice.
\<close>

fun session_run :: "nat \<Rightarrow> NamespaceID \<Rightarrow> bytes \<Rightarrow> side \<Rightarrow> side \<Rightarrow> ((run_error option \<times> side) \<times> (run_error option \<times> side)) option" where
  "session_run 0 namespace data a b = None"
| "session_run (Suc n) namespace data a b =
     (case side_receive namespace data a of
        (None, f, a) \<Rightarrow> map_option (\<lambda>(x, y). (y, x)) (session_run n namespace f b a)
      | (Some r, f, a) \<Rightarrow>
          (case side_receive namespace f b of
             (r', _, b) \<Rightarrow> Some ((r, a), ((case r' of None \<Rightarrow> None | Some e \<Rightarrow> e), b))))"

text \<open>
  A whole session from the dialing side \<open>d\<close> to the accepting side \<open>a\<close>.  A dialing side whose store
  cannot be saved returns after it wrote the init frame.
\<close>

definition sync_session :: "nat \<Rightarrow> NamespaceID \<Rightarrow> side \<Rightarrow> side
   \<Rightarrow> ((run_error option \<times> side) \<times> (run_error option \<times> side)) option" where
  "sync_session fuel namespace d a =
     (case Sync_init (sd_world d) namespace (run_store (sd_state d)) of
        Inl e \<Rightarrow> Some ((Some (RunWrite e), d), (Some (RunRead SyncEOF), a))
      | Inr f \<Rightarrow>
          (case accept_frame (sd_world a) (sd_handler a) (sd_peer a) False f (run_store (sd_state a)) of
             (AcceptRun ns m, _) \<Rightarrow>
               (case accept_run (sd_world a) (sd_handler a) (sd_peer a) ns m (run_store (sd_state a)) of
                  (r, f, st) \<Rightarrow>
                    let a = a\<lparr>sd_state := st\<rparr> in
                    case r of
                      None \<Rightarrow>
                        (case ms_persistErr (run_store (sd_state d)) of
                           Some e \<Rightarrow> (case side_receive ns [] a of (r', _, a) \<Rightarrow>
                             Some ((Some (RunPersist e), d), ((case r' of None \<Rightarrow> None | Some e \<Rightarrow> e), a)))
                         | None \<Rightarrow> session_run fuel ns f d a)
                    | Some r \<Rightarrow> (case side_receive ns f d of (r', _, d) \<Rightarrow>
                        Some (((case r' of None \<Rightarrow> None | Some e \<Rightarrow> e), d), (r, a))))
           | (AcceptDone r, f) \<Rightarrow>
               (case side_receive namespace f d of (r', _, d) \<Rightarrow>
                  Some (((case r' of None \<Rightarrow> None | Some e \<Rightarrow> e), d), (r, a)))
           | (AcceptAwaitInit, f) \<Rightarrow> None))"

end
