(* ===== verification/Docs_Sync_Inv.thy ===== *)
theory Docs_Sync_Inv
  imports Docs_Split Docs_Sync
begin

text \<open>
  Two replicas that reconcile.  \<open>U\<close> are the entries that the two stores hold in the scope of the
  sync when it starts, \<open>newest U\<close> the ones that survive.  Throughout a session every surviving entry
  is in both stores or pending: in the range of a part of the message under way.  A round settles what
  is pending or passes it on, so when a side has nothing to reply both stores hold the
  surviving entries.  Every reply that is not cut to the size of a frame has a smaller rank than the
  message it answers, so the session ends.
\<close>

section \<open>Stores during a session\<close>

definition sc_key :: "namespaceScope \<Rightarrow> entry_key \<Rightarrow> bool" where
  "sc_key sc x = (case sc of allNamespaces \<Rightarrow> True | inNamespace n \<Rightarrow> ri_namespace (fst x) = n)"

definition scoped :: "namespaceScope \<Rightarrow> MemoryStore \<Rightarrow> SignedEntry set" where
  "scoped sc s = {e \<in> store_entries s. sc_contains sc e}"

definition skeys :: "namespaceScope \<Rightarrow> MemoryStore \<Rightarrow> entry_key set" where
  "skeys sc s = ek ` scoped sc s"

definition newest :: "SignedEntry set \<Rightarrow> entry_key set" where
  "newest U = maximal (ek ` U)"

lemma sc_contains_key: "sc_contains sc e = sc_key sc (ek e)"
  by (simp add: sc_contains_def sc_key_def ek_def split: namespaceScope.split)

lemma skeys_store_keys: "x \<in> skeys sc s \<longleftrightarrow> x \<in> store_keys s \<and> sc_key sc x"
  unfolding skeys_def scoped_def store_keys_def sc_contains_key by blast

lemma dominates_sc: "dominates x y \<Longrightarrow> sc_key sc x = sc_key sc y"
  using dominates_namespace [of x y] by (simp add: sc_key_def split: namespaceScope.split)

lemma newestD: "x \<in> newest U \<Longrightarrow> e \<in> U \<Longrightarrow> dominates (ek e) x \<Longrightarrow> ek e = x"
  unfolding newest_def maximal_def by blast

lemma newest_in: "x \<in> newest U \<Longrightarrow> x \<in> ek ` U"
  unfolding newest_def using maximal_subset by blast

definition store_good :: "namespaceScope \<Rightarrow> SignedEntry set \<Rightarrow> MemoryStore \<Rightarrow> bool" where
  "store_good sc U s \<longleftrightarrow> store_wf s \<and> \<not> ms_persistPath s \<and> ms_persistErr s = None \<and> scoped sc s \<subseteq> U"

definition env_good :: "namespaceScope \<Rightarrow> SignedEntry set \<Rightarrow> sync_env \<Rightarrow> bool" where
  "env_good sc U env \<longleftrightarrow> (\<forall>e\<in>U. ri_ok (se_ID e) \<and> sc_contains sc e \<and>
     acceptTimestamp (se_now env) (se_Entry e) \<and> (\<forall>st. se_validate env e st))"

text \<open>A store that lost nothing that matters.\<close>

definition grows :: "namespaceScope \<Rightarrow> SignedEntry set \<Rightarrow> MemoryStore \<Rightarrow> MemoryStore \<Rightarrow> bool" where
  "grows sc U s s' \<longleftrightarrow> newest U \<inter> skeys sc s \<subseteq> skeys sc s' \<and> (\<forall>y\<in>skeys sc s. \<exists>z\<in>skeys sc s'. dominates z y)"

lemma grows_refl [simp]: "grows sc U s s"
  unfolding grows_def using dominates_refl by blast

lemma grows_trans: "grows sc U s t \<Longrightarrow> grows sc U t u \<Longrightarrow> grows sc U s u"
proof -
  assume a: "grows sc U s t" and b: "grows sc U t u"
  have "\<exists>w\<in>skeys sc u. dominates w y" if y: "y \<in> skeys sc s" for y
  proof -
    obtain z where z: "z \<in> skeys sc t" "dominates z y" using a y unfolding grows_def by blast
    obtain w where w: "w \<in> skeys sc u" "dominates w z" using b z(1) unfolding grows_def by blast
    show ?thesis using w(1) dominates_trans [OF w(2) z(2)] by blast
  qed
  then show ?thesis using a b unfolding grows_def by blast
qed

lemma store_goodD:
  assumes "store_good sc U s"
  shows "store_wf s" "\<not> ms_persistPath s" "ms_persistErr s = None" "scoped sc s \<subseteq> U" "skeys sc s \<subseteq> ek ` U"
  using assms unfolding store_good_def skeys_def by blast+

lemma skeys_antichain:
  "store_good sc U s \<Longrightarrow> x \<in> skeys sc s \<Longrightarrow> y \<in> skeys sc s \<Longrightarrow> dominates x y \<Longrightarrow> x = y"
  using store_goodD(1) [of sc U s] unfolding store_wf_def skeys_store_keys by blast

lemma PutWithOrigin_good:
  assumes s: "store_good sc U s" and e: "e \<in> U" "ri_ok (se_ID e)" "sc_contains sc e"
    and p: "PutWithOrigin save e orig s = (oc, s')"
  shows "out_err oc = None" "store_good sc U s'" "grows sc U s s'" "ek e \<in> newest U \<Longrightarrow> ek e \<in> skeys sc s'"
proof -
  note g = store_goodD [OF s] and w = PutWithOrigin_wf [OF store_goodD(1) [OF s] e(2) p]
  show "out_err oc = None" using w(4) [OF g(2)] by blast
  have "scoped sc s' \<subseteq> insert e (scoped sc s)" using w(3) unfolding scoped_def by blast
  then show "store_good sc U s'" unfolding store_good_def using w(1) w(4) [OF g(2)] g(3,4) e(1) by auto
  have keep: "x \<in> skeys sc s'" if x: "x \<in> newest U" "x = ek e \<or> x \<in> skeys sc s" for x
  proof -
    have sx: "sc_key sc x" using x(2) e(3) skeys_store_keys [of x] sc_contains_key by blast
    have "y = x" if y: "y = ek e \<or> y \<in> store_keys s" "dominates y x" for y
    proof -
      have "sc_key sc y" using dominates_sc [OF y(2), of sc] sx by simp
      then have "y \<in> ek ` U" using y(1) e(1) g(5) skeys_store_keys [of y sc s] by blast
      then show ?thesis using newestD [OF x(1)] y(2) by blast
    qed
    moreover have "x = ek e \<or> x \<in> store_keys s" using x(2) skeys_store_keys by blast
    ultimately have "x \<in> maximal (insert (ek e) (store_keys s))" unfolding maximal_def by blast
    then show ?thesis using w(2) sx skeys_store_keys [of x sc s'] by blast
  qed
  then show "ek e \<in> newest U \<Longrightarrow> ek e \<in> skeys sc s'" by blast
  have "\<exists>z\<in>skeys sc s'. dominates z y" if y: "y \<in> skeys sc s" for y
  proof -
    have "finite (insert (ek e) (store_keys s))" "y \<in> insert (ek e) (store_keys s)" using y skeys_store_keys by simp_all
    from maximal_above [OF this] obtain z where z: "z \<in> store_keys s'" "dominates z y" using w(2) by blast
    then show ?thesis using dominates_sc [OF z(2), of sc] y skeys_store_keys [of _ sc] by blast
  qed
  then show "grows sc U s s'" unfolding grows_def using keep by blast
qed

lemma insertValues_good:
  assumes "env_good sc U env" "store_good sc U s" "\<forall>v\<in>set vs. rv_Entry v \<in> U"
  shows "\<exists>ins s'. insertValues env sc vs s = (None, ins, s') \<and> store_good sc U s' \<and> grows sc U s s' \<and>
     newest U \<inter> ek ` rv_Entry ` set vs \<subseteq> skeys sc s'"
  using assms(2,3)
proof (induction vs arbitrary: s)
  case (Cons v vs)
  let ?e = "rv_Entry v"
  have e: "?e \<in> U" "ri_ok (se_ID ?e)" "sc_contains sc ?e" "acceptTimestamp (se_now env) (se_Entry ?e)" "se_validate env ?e (rv_Status v)"
    using assms(1) Cons.prems(2) unfolding env_good_def by auto
  obtain oc s1 where p: "PutWithOrigin (se_save env) ?e
      \<lparr>io_Kind = InsertOriginRemote, io_From = se_from env, io_ContentStatus = rv_Status v\<rparr> s = (oc, s1)" by fastforce
  note g = PutWithOrigin_good [OF Cons.prems(1) e(1-3) p]
  obtain ins s' where r: "insertValues env sc vs s1 = (None, ins, s')" "store_good sc U s'" "grows sc U s1 s'"
    "newest U \<inter> ek ` rv_Entry ` set vs \<subseteq> skeys sc s'" using Cons.IH [OF g(2)] Cons.prems(2) by auto
  have "newest U \<inter> ek ` rv_Entry ` set (v # vs) \<subseteq> skeys sc s'"
    using g(4) r(3,4) unfolding grows_def by auto
  moreover have "insertValues env sc (v # vs) s = (None, (if out_inserted oc then v # ins else ins), s')"
    using e p g(1) r(1) by (simp add: Let_def)
  ultimately show ?case using r(2) grows_trans [OF g(3) r(3)] by blast
qed simp

section \<open>Message parts\<close>

text \<open>What the part of a message promises about the sender's store, and what it leaves pending.\<close>

definition item_keys :: "RangeItem \<Rightarrow> entry_key set" where
  "item_keys i = ek ` rv_Entry ` set (rit_Values i)"

definition diff_ok :: "namespaceScope \<Rightarrow> SignedEntry set \<Rightarrow> MemoryStore \<Rightarrow> RangeItem \<Rightarrow> bool" where
  "diff_ok sc U s i \<longleftrightarrow> rv_Entry ` set (rit_Values i) \<subseteq> U \<and> (\<forall>x\<in>item_keys i. Range_Contains (rit_Range i) (fst x)) \<and>
     distinct (map (\<lambda>v. ek (rv_Entry v)) (rit_Values i)) \<and>
     (\<forall>x\<in>item_keys i. \<forall>y\<in>item_keys i. dominates x y \<longrightarrow> x = y) \<and>
     (\<forall>x\<in>item_keys i. \<exists>z\<in>skeys sc s. dominates z x)"

fun part_ok :: "(bytes \<Rightarrow> bytes) \<Rightarrow> namespaceScope \<Rightarrow> SignedEntry set \<Rightarrow> MemoryStore \<Rightarrow> MessagePart \<Rightarrow> bool" where
  "part_ok blake3 sc U s (PartFingerprint f) \<longleftrightarrow> rf_Fingerprint f = scopeFingerprint blake3 sc (rf_Range f) s"
| "part_ok blake3 sc U s (PartItem i) \<longleftrightarrow>
     (if rit_HaveLocal i then diff_ok sc U s i else map rv_Entry (rit_Values i) = scopeRange sc (rit_Range i) s)"
| "part_ok blake3 sc U s (PartUnknown k) \<longleftrightarrow> False"

fun pending :: "MessagePart \<Rightarrow> entry_key \<Rightarrow> bool" where
  "pending (PartFingerprint f) x \<longleftrightarrow> Range_Contains (rf_Range f) (fst x)"
| "pending (PartItem i) x \<longleftrightarrow> (if rit_HaveLocal i then x \<in> item_keys i else Range_Contains (rit_Range i) (fst x))"
| "pending (PartUnknown k) x \<longleftrightarrow> False"

lemma fst_ek [simp]: "fst (ek e) = se_ID e"
  by (simp add: ek_def)

lemma in_scopeRange: "e \<in> set (scopeRange sc r s) \<longleftrightarrow> e \<in> scoped sc s \<and> Range_Contains r (se_ID e)"
  unfolding set_scopeRange scoped_def by blast

lemma distinct_ek_scopeRange:
  assumes "store_wf s" shows "distinct (map ek (scopeRange sc r s))"
proof -
  have "distinct (map eb (scopeRange sc r s))" using scopeRange_sorted [OF assms] by (simp add: strict_sorted_iff)
  then have "distinct (map (\<lambda>x. ri_bytes (fst x)) (map ek (scopeRange sc r s)))" by (simp add: comp_def)
  then show ?thesis by (simp only: distinct_map)
qed

text \<open>An item of the sender: its values are among \<open>U\<close>, and the surviving ones are in the sender's store.\<close>

lemma part_item_ok:
  assumes s: "store_good sc U s" and i: "part_ok blake3 sc U s (PartItem i)"
  shows "\<forall>v\<in>set (rit_Values i). rv_Entry v \<in> U" "newest U \<inter> item_keys i \<subseteq> skeys sc s"
    "\<not> rit_HaveLocal i \<Longrightarrow> x \<in> skeys sc s \<Longrightarrow> Range_Contains (rit_Range i) (fst x) \<Longrightarrow> x \<in> item_keys i"
proof -
  have full: "rv_Entry ` set (rit_Values i) = set (scopeRange sc (rit_Range i) s)" if "\<not> rit_HaveLocal i"
    using i that by (metis list.set_map part_ok.simps(2))
  have U: "rv_Entry ` set (rit_Values i) \<subseteq> U"
  proof (cases "rit_HaveLocal i")
    case True
    then show ?thesis using i by (simp add: diff_ok_def)
  next
    case False
    then show ?thesis using full [OF False] in_scopeRange store_goodD(4) [OF s] by blast
  qed
  then show "\<forall>v\<in>set (rit_Values i). rv_Entry v \<in> U" by blast
  show "newest U \<inter> item_keys i \<subseteq> skeys sc s"
  proof (cases "rit_HaveLocal i")
    case True
    show ?thesis
    proof
      fix x assume x: "x \<in> newest U \<inter> item_keys i"
      then obtain z where z: "z \<in> skeys sc s" "dominates z x" using i True by (auto simp: diff_ok_def)
      then have "z = x" using newestD [of x U] x store_goodD(5) [OF s] by blast
      with z(1) show "x \<in> skeys sc s" by simp
    qed
  next
    case False
    then show ?thesis using full [OF False] in_scopeRange unfolding item_keys_def skeys_def by blast
  qed
  show "x \<in> item_keys i" if x: "\<not> rit_HaveLocal i" "x \<in> skeys sc s" "Range_Contains (rit_Range i) (fst x)"
  proof -
    obtain e where "e \<in> scoped sc s" "x = ek e" using x(2) unfolding skeys_def by blast
    then show ?thesis using full [OF x(1)] x(3) in_scopeRange unfolding item_keys_def by auto
  qed
qed

text \<open>The entries a side sends back for an item.\<close>

lemma set_item_diff:
  "rv_Entry ` set (item_diff env sc i s) = (if rit_HaveLocal i then {} else
     {e \<in> set (scopeRange sc (rit_Range i) s). \<not> peerHasNewerValue (rit_Values i) e})"
  by (simp add: item_diff_def rangeValues_def image_image)

lemma item_diff_ok:
  assumes s: "store_good sc U s" and g: "grows sc U s s'"
  shows "part_ok blake3 sc U s' (part_item (rit_Range i) (item_diff env sc i s) True)"
proof -
  let ?d = "item_diff env sc i s"
  have sub: "rv_Entry ` set ?d \<subseteq> set (scopeRange sc (rit_Range i) s)" using set_item_diff [of env sc i s] by (auto split: if_splits)
  then have keys: "ek ` rv_Entry ` set ?d \<subseteq> skeys sc s" "rv_Entry ` set ?d \<subseteq> U"
    using in_scopeRange store_goodD(4) [OF s] unfolding skeys_def by blast+
  have "map (\<lambda>v. ek (rv_Entry v)) ?d = (if rit_HaveLocal i then [] else
     map ek (filter (\<lambda>e. \<not> peerHasNewerValue (rit_Values i) e) (scopeRange sc (rit_Range i) s)))"
    by (simp add: item_diff_def rangeValues_def comp_def)
  then have dist: "distinct (map (\<lambda>v. ek (rv_Entry v)) ?d)"
    using distinct_ek_scopeRange [OF store_goodD(1) [OF s]] by (simp add: distinct_map_filter)
  have range: "\<forall>x\<in>ek ` rv_Entry ` set ?d. Range_Contains (rit_Range i) (fst x)" using sub in_scopeRange by auto
  have anti: "\<forall>x\<in>ek ` rv_Entry ` set ?d. \<forall>y\<in>ek ` rv_Entry ` set ?d. dominates x y \<longrightarrow> x = y"
    using keys(1) skeys_antichain [OF s] by blast
  have dom: "\<forall>x\<in>ek ` rv_Entry ` set ?d. \<exists>z\<in>skeys sc s'. dominates z x" using keys(1) g unfolding grows_def by blast
  show ?thesis unfolding part_item_def part_ok.simps diff_ok_def item_keys_def using keys(2) range dist anti dom by simp
qed

lemma item_diff_pending:
  assumes r: "store_good sc U r" and s: "store_good sc U s" and i: "part_ok blake3 sc U s (PartItem i)" "\<not> rit_HaveLocal i"
    and x: "x \<in> newest U" "x \<in> skeys sc r" "x \<notin> skeys sc s" "Range_Contains (rit_Range i) (fst x)"
    and env: "env_good sc U env"
  shows "x \<in> ek ` rv_Entry ` set (item_diff env sc i r)"
proof -
  obtain e where e: "e \<in> scoped sc r" "x = ek e" using x(2) unfolding skeys_def by blast
  have "\<not> peerHasNewerValue (rit_Values i) e"
  proof
    assume "peerHasNewerValue (rit_Values i) e"
    then obtain v where v: "v \<in> set (rit_Values i)" "eb (rv_Entry v) = eb e" "rec_key (se_Record e) \<le> rec_key (se_Record (rv_Entry v))"
      by (auto simp: peerHasNewerValue_def RecordIdentifier_Compare_def)
    have vU: "rv_Entry v \<in> U" "e \<in> U" using part_item_ok(1) [OF s i(1)] v(1) e(1) store_goodD(4) [OF r] by blast+
    then have "ri_ok (se_ID (rv_Entry v))" "ri_ok (se_ID e)" using env unfolding env_good_def by blast+
    then have "se_ID (rv_Entry v) = se_ID e" using v(2) ri_bytes_inj by blast
    then have "dominates (ek (rv_Entry v)) x" using v(3) e(2) by (simp add: dominates_def ek_def)
    then have "ek (rv_Entry v) = x" using newestD [OF x(1) vU(1)] by blast
    then have "x \<in> item_keys i" using v(1) unfolding item_keys_def by blast
    then show False using part_item_ok(2) [OF s i(1)] x(1,3) by blast
  qed
  then have "e \<in> rv_Entry ` set (item_diff env sc i r)"
    unfolding set_item_diff using i(2) e x(4) in_scopeRange by auto
  then show ?thesis using e(2) by blast
qed

lemma processItems_good:
  assumes env: "env_good sc U env" and s: "store_good sc U s"
    and r: "store_good sc U r" and items: "\<forall>i\<in>set items. part_ok blake3 sc U s (PartItem i)"
  shows "\<exists>ins out r'. processItems env sc items r = (None, ins, out, r') \<and> store_good sc U r' \<and> grows sc U r r' \<and>
     (\<forall>p\<in>set out. part_ok blake3 sc U r' p) \<and>
     (\<forall>i\<in>set items. \<forall>x\<in>newest U. x \<in> skeys sc r \<union> skeys sc s \<and> pending (PartItem i) x \<longrightarrow>
        x \<in> skeys sc r' \<inter> skeys sc s \<or> (\<exists>p\<in>set out. pending p x))"
  using r items
proof (induction items arbitrary: r)
  case (Cons i items)
  let ?d = "item_diff env sc i r"
  have i: "part_ok blake3 sc U s (PartItem i)" using Cons.prems(2) by simp
  have its: "\<forall>j\<in>set items. part_ok blake3 sc U s (PartItem j)" using Cons.prems(2) unfolding list.set by blast
  note io = part_item_ok [OF s i]
  obtain ins r1 where ins: "insertValues env sc (rit_Values i) r = (None, ins, r1)" "store_good sc U r1" "grows sc U r r1"
    "newest U \<inter> item_keys i \<subseteq> skeys sc r1"
    using insertValues_good [OF env Cons.prems(1) io(1)] unfolding item_keys_def by blast
  obtain ins' out r' where rest: "processItems env sc items r1 = (None, ins', out, r')" "store_good sc U r'" "grows sc U r1 r'"
    "\<forall>p\<in>set out. part_ok blake3 sc U r' p"
    "\<forall>j\<in>set items. \<forall>x\<in>newest U. x \<in> skeys sc r1 \<union> skeys sc s \<and> pending (PartItem j) x \<longrightarrow>
        x \<in> skeys sc r' \<inter> skeys sc s \<or> (\<exists>p\<in>set out. pending p x)"
    using Cons.IH [OF ins(2) its] by blast
  define out' where "out' = (if ?d \<noteq> [] then part_item (rit_Range i) ?d True # out else out)"
  have run: "processItems env sc (i # items) r = (None, ins @ ins', out', r')"
    using ins(1) rest(1) by (simp add: out'_def Let_def)
  have g: "grows sc U r r'" by (rule grows_trans [OF ins(3) rest(3)])
  have ok: "\<forall>p\<in>set out'. part_ok blake3 sc U r' p"
    using rest(4) item_diff_ok [OF Cons.prems(1) g, of blake3 i env] by (simp add: out'_def)
  have sub: "set out \<subseteq> set out'" by (auto simp: out'_def)
  have "x \<in> skeys sc r' \<inter> skeys sc s \<or> (\<exists>p\<in>set out'. pending p x)"
    if x: "j \<in> set (i # items)" "x \<in> newest U" "x \<in> skeys sc r \<union> skeys sc s" "pending (PartItem j) x" for j x
  proof (cases "j = i")
    case True
    have get: "x \<in> skeys sc r' \<inter> skeys sc s" if "x \<in> item_keys i"
      using that x(2) ins(4) io(2) rest(3) unfolding grows_def by blast
    show ?thesis
    proof (cases "rit_HaveLocal i \<or> x \<in> skeys sc s")
      case True
      then show ?thesis using get io(3) [of x] x(4) \<open>j = i\<close> by (cases "rit_HaveLocal i") auto
    next
      case False
      then have "x \<in> ek ` rv_Entry ` set ?d"
        using item_diff_pending [OF Cons.prems(1) s i _ x(2) _ _ _ env] x(3,4) \<open>j = i\<close> by simp
      moreover from this have "?d \<noteq> []" by auto
      ultimately have "pending (part_item (rit_Range i) ?d True) x" "part_item (rit_Range i) ?d True \<in> set out'"
        unfolding part_item_def by (simp_all add: item_keys_def out'_def part_item_def)
      then show ?thesis by blast
    qed
  next
    case False
    then have "x \<in> skeys sc r1 \<union> skeys sc s" "j \<in> set items" using x ins(3) unfolding grows_def by auto
    then show ?thesis using rest(5) x(2,4) sub by blast
  qed
  then show ?case using run rest(2) g ok by blast
qed simp

section \<open>Fingerprints\<close>

text \<open>The collision resistance that fingerprints rely on: on sets of entries of \<open>U\<close> they are unique.\<close>

definition collision_free :: "(bytes \<Rightarrow> bytes) \<Rightarrow> SignedEntry set \<Rightarrow> bool" where
  "collision_free blake3 U \<longleftrightarrow> (\<forall>es es'. set es \<subseteq> U \<and> set es' \<subseteq> U \<and> distinct (map ek es) \<and> distinct (map ek es') \<and>
     fingerprintOf blake3 es = fingerprintOf blake3 es' \<longrightarrow> ek ` set es = ek ` set es')"

lemma collision_freeD:
  assumes "collision_free blake3 U" "set es \<subseteq> U" "set es' \<subseteq> U" "distinct (map ek es)" "distinct (map ek es')"
    "fingerprintOf blake3 es = fingerprintOf blake3 es'"
  shows "ek ` set es = ek ` set es'"
  by (rule mp [OF spec [OF spec [OF assms(1) [unfolded collision_free_def], of es], of es']]) (intro conjI assms)

lemma scopeFingerprint_eq:
  assumes "collision_free blake3 U" "store_good sc U r" "store_good sc U s"
    and fp: "scopeFingerprint blake3 sc rg r = scopeFingerprint blake3 sc rg s"
    and x: "x \<in> skeys sc r \<union> skeys sc s" "Range_Contains rg (fst x)"
  shows "x \<in> skeys sc r \<inter> skeys sc s"
proof -
  have U: "set (scopeRange sc rg r) \<subseteq> U" "set (scopeRange sc rg s) \<subseteq> U"
    using in_scopeRange store_goodD(4) [OF assms(2)] store_goodD(4) [OF assms(3)] by blast+
  have eq: "ek ` set (scopeRange sc rg r) = ek ` set (scopeRange sc rg s)"
    by (rule collision_freeD [OF assms(1) U])
      (use fp store_goodD(1) [OF assms(2)] store_goodD(1) [OF assms(3)] in \<open>simp_all add: distinct_ek_scopeRange scopeFingerprint_def\<close>)
  have iff: "x \<in> ek ` set (scopeRange sc rg t) \<longleftrightarrow> x \<in> skeys sc t" for t
  proof
    assume "x \<in> ek ` set (scopeRange sc rg t)"
    then show "x \<in> skeys sc t" using in_scopeRange unfolding skeys_def by blast
  next
    assume "x \<in> skeys sc t"
    then obtain e where "e \<in> scoped sc t" "x = ek e" unfolding skeys_def by blast
    then show "x \<in> ek ` set (scopeRange sc rg t)" using x(2) in_scopeRange [of e sc rg t] by simp
  qed
  show ?thesis using x(1) unfolding Un_iff Int_iff iff [symmetric] eq by blast
qed

lemma part_fp_ok [simp]: "part_ok (se_blake3 env) sc U s (part_fp env sc s rg)"
  by (simp add: part_fp_def)

lemma part_fp_pending [simp]: "pending (part_fp env sc s rg) x \<longleftrightarrow> Range_Contains rg (fst x)"
  by (simp add: part_fp_def)

lemma part_full_ok [simp]: "part_ok blake3 sc U s (part_item rg (rangeValues st (scopeRange sc rg s)) False)"
  by (simp add: part_item_def rangeValues_def comp_def)

lemma part_full_pending [simp]: "pending (part_item rg vs False) x \<longleftrightarrow> Range_Contains rg (fst x)"
  by (simp add: part_item_def)

lemma processFingerprint_ok: "p \<in> set (processFingerprint env sc cfg s f) \<Longrightarrow> part_ok (se_blake3 env) sc U s p"
  unfolding processFingerprint_def Let_def by (auto split: if_splits)

lemma processFingerprint_pending:
  assumes cf: "collision_free (se_blake3 env) U" and r: "store_good sc U r" and s: "store_good sc U s"
    and f: "part_ok (se_blake3 env) sc U s (PartFingerprint f)"
    and x: "x \<in> skeys sc r \<union> skeys sc s" "pending (PartFingerprint f) x"
  shows "x \<in> skeys sc r \<inter> skeys sc s \<or> (\<exists>p\<in>set (processFingerprint env sc cfg r f). pending p x)"
proof -
  let ?rg = "rf_Range f" and ?es = "scopeRange sc (rf_Range f) r"
  have c: "Range_Contains ?rg (fst x)" using x(2) by simp
  consider (eq) "scopeFingerprint (se_blake3 env) sc ?rg r = rf_Fingerprint f"
    | (few) "scopeFingerprint (se_blake3 env) sc ?rg r \<noteq> rf_Fingerprint f"
        "length ?es \<le> 1 \<or> rf_Fingerprint f = EmptyFingerprint (se_blake3 env)"
    | (split) "scopeFingerprint (se_blake3 env) sc ?rg r \<noteq> rf_Fingerprint f"
        "\<not> (length ?es \<le> 1 \<or> rf_Fingerprint f = EmptyFingerprint (se_blake3 env))"
    by blast
  then show ?thesis
  proof cases
    case eq
    then show ?thesis using scopeFingerprint_eq [OF cf r s _ x(1) c] f by simp
  next
    case few
    then show ?thesis using c unfolding processFingerprint_def Let_def by simp
  next
    case split
    then have "?es \<noteq> []" "2 \<le> length ?es" by auto
    then obtain rg' where rg': "rg' \<in> set (splitRange sc ?rg (SplitFactor cfg) r)" "Range_Contains rg' (fst x)"
      using splitRange_cover [OF store_goodD(1) [OF r] _ _ c, of sc "SplitFactor cfg"] by blast
    let ?p = "if int (length (scopeRange sc rg' r)) > MaxSetSize cfg then part_fp env sc r rg'
       else part_item rg' (rangeValues (se_status env) (scopeRange sc rg' r)) False"
    have "?p \<in> set (processFingerprint env sc cfg r f)"
      using split rg'(1) unfolding processFingerprint_def Let_def by auto
    moreover have "pending ?p x" using rg'(2) by simp
    ultimately show ?thesis by blast
  qed
qed

section \<open>Cutting a reply to the size of a frame\<close>

lemma split_part_pending:
  assumes s: "store_good sc U s" and p: "part_ok blake3 sc U s (PartItem i)" and n: "2 \<le> length (rit_Values i)"
    and x: "x \<in> newest U" "pending (PartItem i) x"
  shows "\<exists>rg\<in>set (splitRange sc (rit_Range i) f s). Range_Contains rg (fst x)"
proof (cases "rit_HaveLocal i")
  case True
  let ?es = "scopeRange sc (rit_Range i) s"
  have d: "diff_ok sc U s i" and k: "x \<in> item_keys i" using p x(2) True by simp_all
  have c: "Range_Contains (rit_Range i) (fst x)" using d k unfolding diff_ok_def by blast
  have "x \<in> skeys sc s" using part_item_ok(2) [OF s p] x(1) k by blast
  then obtain e where e: "e \<in> scoped sc s" "x = ek e" unfolding skeys_def by blast
  then have mem: "e \<in> set ?es" using c in_scopeRange by simp
  have all: "2 \<le> length ?es" if all: "Range_IsAll (rit_Range i)"
  proof (rule ccontr)
    assume "\<not> 2 \<le> length ?es"
    then have one: "set ?es \<subseteq> {e}" using mem by (cases ?es) (auto simp: Suc_le_eq)
    have "\<forall>rg. Range_Contains (rit_Range i) rg" using all by (simp add: Range_Contains_arc Range_IsAll_iff arc_def)
    then have "skeys sc s \<subseteq> {x}" using one in_scopeRange [of _ sc "rit_Range i" s] e(2) unfolding skeys_def by blast
    then have "dominates x y" if "y \<in> item_keys i" for y using d that unfolding diff_ok_def by blast
    then have "y = x" if "y \<in> item_keys i" for y using d k that unfolding diff_ok_def by blast
    then have sub: "set (map (\<lambda>v. ek (rv_Entry v)) (rit_Values i)) \<subseteq> {x}" unfolding item_keys_def set_map by blast
    have "card (set (map (\<lambda>v. ek (rv_Entry v)) (rit_Values i))) \<le> card {x}" by (rule card_mono [OF _ sub]) simp
    moreover have "distinct (map (\<lambda>v. ek (rv_Entry v)) (rit_Values i))" using d unfolding diff_ok_def by blast
    ultimately have "length (map (\<lambda>v. ek (rv_Entry v)) (rit_Values i)) \<le> 1" by (simp only: distinct_card card.insert) simp
    then show False using n by simp
  qed
  show ?thesis using splitRange_cover [OF store_goodD(1) [OF s] _ all c] mem by fastforce
next
  case False
  then have es: "map rv_Entry (rit_Values i) = scopeRange sc (rit_Range i) s" using p by simp
  then have len: "2 \<le> length (scopeRange sc (rit_Range i) s)" using n by (metis length_map)
  then have "scopeRange sc (rit_Range i) s \<noteq> []" by auto
  then show ?thesis using splitRange_cover [OF store_goodD(1) [OF s] _ len] x(2) False by simp
qed

lemma splitPart_good:
  assumes s: "store_good sc U s" and p: "part_ok (se_blake3 env) sc U s p"
  shows "\<forall>q\<in>set (splitPart env sc s p). part_ok (se_blake3 env) sc U s q"
    "x \<in> newest U \<Longrightarrow> pending p x \<Longrightarrow> \<exists>q\<in>set (splitPart env sc s p). pending q x"
  using p split_part_pending [OF s, of "se_blake3 env" _ x 2]
  by (auto simp: splitPart_def not_less split: MessagePart.split sum.split)

lemma fitParts_good:
  assumes s: "store_good sc U s"
  shows "fitParts env sc s sz ps = Some qs \<Longrightarrow> \<forall>p\<in>set ps. part_ok (se_blake3 env) sc U s p \<Longrightarrow>
    (\<forall>q\<in>set qs. part_ok (se_blake3 env) sc U s q) \<and>
    (\<forall>x\<in>newest U. (\<exists>p\<in>set ps. pending p x) \<longrightarrow> (\<exists>q\<in>set qs. pending q x))"
proof (induction ps arbitrary: sz qs)
  case (Cons p ps)
  obtain b where b: "marshal enc_MessagePart p = Inr b" using Cons.prems(1) by (auto split: sum.splits)
  obtain q sz' qs' where q: "qs = q # qs'" "fitParts env sc s sz' ps = Some qs'"
    "q = p \<or> (\<exists>i. p = PartItem i \<and> q = part_fp env sc s (rit_Range i))"
    using Cons.prems(1) b by (cases p) (auto simp: Let_def split: if_splits sum.splits)
  have "part_ok (se_blake3 env) sc U s q" using q(3) Cons.prems(2) by auto
  moreover have "pending q x" if x: "x \<in> newest U" "pending p x" for x
  proof (cases "q = p")
    case False
    then obtain i where i: "p = PartItem i" "q = part_fp env sc s (rit_Range i)" using q(3) by blast
    then have "diff_ok sc U s i" if "rit_HaveLocal i" using Cons.prems(2) that by simp
    then show ?thesis using x i unfolding diff_ok_def by (auto split: if_splits)
  qed (use x in simp)
  ultimately show ?case using Cons.IH [OF q(2)] Cons.prems(2) q(1) by auto
qed simp

lemma boundedMessage_good:
  assumes s: "store_good sc U s" and ps: "\<forall>p\<in>set ps. part_ok (se_blake3 env) sc U s p"
  shows "\<forall>q\<in>set (m_Parts (boundedMessage env sc s ps)). part_ok (se_blake3 env) sc U s q"
    "x \<in> newest U \<Longrightarrow> p \<in> set ps \<Longrightarrow> pending p x \<Longrightarrow> \<exists>q\<in>set (m_Parts (boundedMessage env sc s ps)). pending q x"
proof -
  let ?sp = "concat (map (splitPart env sc s) ps)"
  have sp: "\<forall>q\<in>set ?sp. part_ok (se_blake3 env) sc U s q" using splitPart_good(1) [OF s] ps by fastforce
  have sx: "\<exists>q\<in>set ?sp. pending q x" if "x \<in> newest U" "p \<in> set ps" "pending p x" for p x
    using splitPart_good(2) [OF s _ that(1,3)] ps that(2) by fastforce
  show "\<forall>q\<in>set (m_Parts (boundedMessage env sc s ps)). part_ok (se_blake3 env) sc U s q"
    using ps sp fitParts_good [OF s, of env 0 ?sp] by (auto simp: boundedMessage_def split: option.split)
  show "\<exists>q\<in>set (m_Parts (boundedMessage env sc s ps)). pending q x" if "x \<in> newest U" "p \<in> set ps" "pending p x"
    using sx [OF that] that sp fitParts_good [OF s, of env 0 ?sp] by (auto simp: boundedMessage_def split: option.split)
qed

section \<open>One round\<close>

text \<open>\<open>r\<close> is about to receive the parts that \<open>s\<close> sent.\<close>

definition sync_inv ::
  "(bytes \<Rightarrow> bytes) \<Rightarrow> namespaceScope \<Rightarrow> SignedEntry set \<Rightarrow> MemoryStore \<Rightarrow> MemoryStore \<Rightarrow> MessagePart list \<Rightarrow> bool" where
  "sync_inv blake3 sc U r s parts \<longleftrightarrow> store_good sc U r \<and> store_good sc U s \<and> newest U \<subseteq> skeys sc r \<union> skeys sc s \<and>
     (\<forall>p\<in>set parts. part_ok blake3 sc U s p) \<and>
     (\<forall>x\<in>newest U. x \<in> skeys sc r \<inter> skeys sc s \<or> (\<exists>p\<in>set parts. pending p x))"

lemma set_message_items: "i \<in> set (message_items m) \<longleftrightarrow> PartItem i \<in> set (m_Parts m)"
  unfolding message_items_def by (auto split: MessagePart.splits)

lemma set_message_fingerprints: "f \<in> set (message_fingerprints m) \<longleftrightarrow> PartFingerprint f \<in> set (m_Parts m)"
  unfolding message_fingerprints_def by (auto split: MessagePart.splits)

lemma reply_good:
  assumes cf: "collision_free (se_blake3 env) U" and inv: "sync_inv (se_blake3 env) sc U r s (m_Parts m)"
    and r': "store_good sc U r'" "grows sc U r r'" and out: "\<forall>p\<in>set out. part_ok (se_blake3 env) sc U r' p"
    and items: "\<forall>i\<in>set (message_items m). \<forall>x\<in>newest U. x \<in> skeys sc r \<union> skeys sc s \<and> pending (PartItem i) x \<longrightarrow>
        x \<in> skeys sc r' \<inter> skeys sc s \<or> (\<exists>p\<in>set out. pending p x)"
  shows "\<forall>p\<in>set (replyParts env sc cfg m out r'). part_ok (se_blake3 env) sc U r' p"
    "x \<in> newest U \<Longrightarrow> x \<in> skeys sc r' \<inter> skeys sc s \<or> (\<exists>p\<in>set (replyParts env sc cfg m out r'). pending p x)"
proof -
  let ?fps = "concat (map (processFingerprint env sc cfg r') (message_fingerprints m))"
  have set: "set (replyParts env sc cfg m out r') = set out \<union> set ?fps" by (simp add: replyParts_def)
  show "\<forall>p\<in>set (replyParts env sc cfg m out r'). part_ok (se_blake3 env) sc U r' p"
    unfolding set using out processFingerprint_ok by fastforce
  have s: "store_good sc U s" and parts: "\<forall>p\<in>set (m_Parts m). part_ok (se_blake3 env) sc U s p"
    and have_x: "newest U \<subseteq> skeys sc r \<union> skeys sc s"
    and pend: "\<forall>x\<in>newest U. x \<in> skeys sc r \<inter> skeys sc s \<or> (\<exists>p\<in>set (m_Parts m). pending p x)"
    using inv unfolding sync_inv_def by blast+
  show "x \<in> skeys sc r' \<inter> skeys sc s \<or> (\<exists>p\<in>set (replyParts env sc cfg m out r'). pending p x)" if x: "x \<in> newest U"
  proof (cases "x \<in> skeys sc r \<inter> skeys sc s")
    case True
    then show ?thesis using x r'(2) unfolding grows_def by blast
  next
    case False
    then obtain p where p: "p \<in> set (m_Parts m)" "pending p x" using pend x by blast
    show ?thesis
    proof (cases p)
      case (PartItem i)
      then show ?thesis using items p x have_x set_message_items [of i m] unfolding set by blast
    next
      case (PartFingerprint f)
      have mem: "f \<in> set (message_fingerprints m)" using p(1) PartFingerprint set_message_fingerprints by blast
      have "x \<in> skeys sc r' \<union> skeys sc s" using x have_x r'(2) unfolding grows_def by blast
      then have "x \<in> skeys sc r' \<inter> skeys sc s \<or> (\<exists>p\<in>set (processFingerprint env sc cfg r' f). pending p x)"
        using processFingerprint_pending [OF cf r'(1) s] parts p PartFingerprint by blast
      then show ?thesis unfolding set using mem by auto
    qed (use p in simp)
  qed
qed

lemma processMessage_good:
  assumes env: "env_good sc U env" and cf: "collision_free (se_blake3 env) U"
    and inv: "sync_inv (se_blake3 env) sc U r s (m_Parts m)"
  shows "\<exists>ins r' reply. processMessage env sc cfg m r = (Inr reply, ins, r') \<and> store_good sc U r' \<and>
     (case reply of None \<Rightarrow> newest U \<subseteq> skeys sc r' \<inter> skeys sc s | Some m' \<Rightarrow> sync_inv (se_blake3 env) sc U s r' (m_Parts m'))"
proof -
  have r: "store_good sc U r" and s: "store_good sc U s" and hx: "newest U \<subseteq> skeys sc r \<union> skeys sc s"
    and its: "\<forall>i\<in>set (message_items m). part_ok (se_blake3 env) sc U s (PartItem i)"
    using inv set_message_items unfolding sync_inv_def by blast+
  obtain ins out r' where pi: "processItems env sc (message_items m) r = (None, ins, out, r')" "store_good sc U r'" "grows sc U r r'"
    "\<forall>p\<in>set out. part_ok (se_blake3 env) sc U r' p"
    "\<forall>i\<in>set (message_items m). \<forall>x\<in>newest U. x \<in> skeys sc r \<union> skeys sc s \<and> pending (PartItem i) x \<longrightarrow>
        x \<in> skeys sc r' \<inter> skeys sc s \<or> (\<exists>p\<in>set out. pending p x)"
    using processItems_good [OF env s r its] by blast
  let ?raw = "replyParts env sc (withDefaults cfg) m out r'"
  note rg = reply_good [OF cf inv pi(2-5), where cfg = "withDefaults cfg"]
  define reply where "reply = (if ?raw = [] then None else Some (boundedMessage env sc r' ?raw))"
  have "processMessage env sc cfg m r = (Inr reply, ins, r')"
    using pi(1) store_goodD(3) [OF r] unfolding processMessage_def reply_def by simp
  moreover have "case reply of None \<Rightarrow> newest U \<subseteq> skeys sc r' \<inter> skeys sc s | Some m' \<Rightarrow> sync_inv (se_blake3 env) sc U s r' (m_Parts m')"
  proof (cases "?raw = []")
    case True
    have "x \<in> skeys sc r' \<inter> skeys sc s" if "x \<in> newest U" for x using rg(2) [OF that] True by simp
    then have "newest U \<subseteq> skeys sc r' \<inter> skeys sc s" by blast
    then show ?thesis using True by (simp add: reply_def)
  next
    case False
    have "newest U \<subseteq> skeys sc s \<union> skeys sc r'" using hx pi(3) unfolding grows_def by blast
    then have "sync_inv (se_blake3 env) sc U s r' (m_Parts (boundedMessage env sc r' ?raw))"
      unfolding sync_inv_def using boundedMessage_good [OF pi(2) rg(1)] rg(2) pi(2) s by blast
    then show ?thesis using False by (simp add: reply_def)
  qed
  ultimately show ?thesis using pi(2) by blast
qed

text \<open>Two stores that both hold every surviving entry hold nothing else.\<close>

lemma skeys_newest:
  assumes s: "store_good sc U s" and fin: "finite U" and n: "newest U \<subseteq> skeys sc s"
  shows "skeys sc s = newest U"
proof
  show "skeys sc s \<subseteq> newest U"
  proof
    fix x assume x: "x \<in> skeys sc s"
    then have "x \<in> ek ` U" using store_goodD(5) [OF s] by blast
    then obtain m where m: "m \<in> newest U" "dominates m x" using maximal_above [of "ek ` U" x] fin unfolding newest_def by blast
    then have "m = x" using skeys_antichain [OF s, of m x] n x by blast
    with m(1) show "x \<in> newest U" by simp
  qed
qed (rule n)

section \<open>The first message\<close>

lemma scopeRange_all: "Range_IsAll r \<Longrightarrow> Range_IsAll r' \<Longrightarrow> scopeRange sc r s = scopeRange sc r' s"
  by (simp add: scopeRange_def Range_Contains_arc Range_IsAll_iff arc_def)

lemma NewRange_all [simp]: "Range_IsAll (NewRange i i)" "Range_Contains (NewRange i i) j"
  by (simp_all add: Range_IsAll_iff NewRange_def Range_Contains_arc arc_def)

lemma initialMessage_parts:
  "\<exists>first. m_Parts (initialMessage blake3 sc s) = [PartFingerprint \<lparr>rf_Range = NewRange first first,
     rf_Fingerprint = scopeFingerprint blake3 sc (NewRange first first) s\<rparr>] \<and>
   (first = zero_identifier \<and> scoped sc s = {} \<or> first \<in> se_ID ` scoped sc s)"
proof -
  let ?es = "scopeRange sc (NewRange zero_identifier zero_identifier) s"
  define first where "first = (case ?es of [] \<Rightarrow> zero_identifier | e # _ \<Rightarrow> se_ID e)"
  have es: "set ?es = scoped sc s" using in_scopeRange [of _ sc "NewRange zero_identifier zero_identifier" s] by auto
  have "first = zero_identifier \<and> scoped sc s = {} \<or> first \<in> se_ID ` scoped sc s"
    unfolding es [symmetric] first_def by (cases ?es) auto
  moreover have "?es = scopeRange sc (NewRange first first) s" by (rule scopeRange_all) simp_all
  ultimately show ?thesis
    unfolding initialMessage_def Let_def scopeFingerprint_def first_def by (intro exI [of _ first]) (simp add: first_def)
qed

lemma initial_inv:
  assumes a: "store_good sc U a" and d: "store_good sc U d" and U: "U = scoped sc d \<union> scoped sc a"
  shows "sync_inv blake3 sc U a d (m_Parts (initialMessage blake3 sc d))"
proof -
  obtain first where parts: "m_Parts (initialMessage blake3 sc d) = [PartFingerprint \<lparr>rf_Range = NewRange first first,
     rf_Fingerprint = scopeFingerprint blake3 sc (NewRange first first) d\<rparr>]"
    using initialMessage_parts [of blake3 sc d] by blast
  have "ek ` U = skeys sc d \<union> skeys sc a" unfolding U skeys_def by blast
  then have "newest U \<subseteq> skeys sc a \<union> skeys sc d" using newest_in by blast
  then show ?thesis unfolding sync_inv_def parts using a d by simp
qed

section \<open>Replies can be read\<close>

text \<open>Well-formed up to the lengths of lists, which the size of a written frame bounds.\<close>

fun wk_part :: "ed25519 \<Rightarrow> MessagePart \<Rightarrow> bool" where
  "wk_part E (PartFingerprint f) \<longleftrightarrow> ok_RangeFingerprint E f"
| "wk_part E (PartItem i) \<longleftrightarrow> ok_Range E (rit_Range i) \<and> list_all (ok_RangeValue E) (rit_Values i)"
| "wk_part E (PartUnknown k) \<longleftrightarrow> False"

lemma enc_slice_len:
  assumes "pc_codec_ne enc dec ok" "list_all ok xs" "enc_slice enc xs = Inr b"
  shows "length xs \<le> length b"
  using pc_codec_ne.enc_seq_total [OF assms(1,2)] assms(3) by (auto simp: enc_slice_def rbind_eq_Inr)

lemma wk_part_ok:
  assumes wk: "wk_part E p" and b: "enc_MessagePart p = Inr b" "length b \<le> maxInt"
  shows "ok_MessagePart E p"
proof (cases p)
  case (PartItem i)
  then obtain x y where "enc_slice enc_RangeValue (rit_Values i) = Inr x" "length x \<le> length b"
    using b(1) by (auto simp: enc_kind_eq_Inr enc_RangeItem_def enc_pair_def rbind_eq_Inr)
  then have "length (rit_Values i) \<le> maxInt"
    using enc_slice_len [OF pcRangeValue.pc_codec_ne_axioms, of E "rit_Values i" x] wk PartItem b(2) by simp
  then show ?thesis using wk PartItem by (simp add: ok_RangeItem_def)
qed (use wk in simp_all)

lemma enc_seq_part: "enc_seq enc xs = Inr b \<Longrightarrow> x \<in> set xs \<Longrightarrow> \<exists>c. enc x = Inr c \<and> length c \<le> length b"
proof (induction xs arbitrary: b)
  case (Cons a xs)
  then obtain c e where ce: "enc a = Inr c" "enc_seq enc xs = Inr e" "b = c @ e" by (auto simp: rbind_eq_Inr)
  show ?case
  proof (cases "x = a")
    case True
    then show ?thesis using ce by simp
  next
    case False
    then obtain c' where "enc x = Inr c'" "length c' \<le> length e" using Cons.IH [OF ce(2)] Cons.prems(2) by auto
    then show ?thesis using ce(3) by auto
  qed
qed simp

lemma wk_message_ok:
  assumes wk: "list_all (wk_part E) (m_Parts m)" and b: "enc_Message m = Inr b" "length b \<le> maxInt"
  shows "ok_Message E m"
proof -
  obtain c where c: "enc_seq enc_MessagePart (m_Parts m) = Inr c" "length c \<le> length b"
    using b(1) by (auto simp: enc_Message_def enc_slice_def rbind_eq_Inr)
  have "ok_MessagePart E p" if "p \<in> set (m_Parts m)" for p
    using enc_seq_part [OF c(1) that] wk_part_ok [of E p] wk that c(2) b(2) by (auto simp: list_all_iff)
  then have ok: "list_all (ok_MessagePart E) (m_Parts m)" by (simp add: list_all_iff)
  then have "length (m_Parts m) \<le> maxInt"
    using enc_slice_len [OF pcMessagePart.pc_codec_ne_axioms ok] b by (auto simp: enc_Message_def)
  then show ?thesis using ok by (simp add: ok_Message_def)
qed

lemma maxSync_maxInt: "maxSyncMessageSize \<le> maxInt"
  by (simp add: maxSyncMessageSize_def maxInt_def)

lemma wk_frame_read:
  assumes wk: "list_all (wk_part E) (m_Parts m)" and w: "writeSyncFrame (syncMessageSync m) = Inr f"
  shows "readSyncFrame E f = Inr (syncMessageSync m, [])"
proof -
  obtain c where c: "enc_Message m = Inr c" "length c \<le> maxSyncMessageSize"
    using w by (auto simp: writeSyncFrame_def marshal_def enc_kind_eq_Inr split: sum.splits if_splits)
  have "ok_syncWireMessage E (syncMessageSync m)" using wk_message_ok [OF wk c(1)] c(2) maxSync_maxInt by simp
  from sync_frame_read [OF this w, of "[]"] show ?thesis by simp
qed

lemma wk_init_read:
  assumes wk: "list_all (wk_part E) (m_Parts m)" and n: "ok_NamespaceID E n" and w: "writeSyncFrame (syncMessageInit n m) = Inr f"
  shows "readSyncFrame E f = Inr (syncMessageInit n m, [])"
proof -
  obtain c where c: "enc_Message m = Inr c" "length c \<le> maxSyncMessageSize"
    using w by (auto simp: writeSyncFrame_def marshal_def enc_kind_eq_Inr enc_pair_def rbind_eq_Inr split: sum.splits if_splits)
  have "ok_syncWireMessage E (syncMessageInit n m)" using wk_message_ok [OF wk c(1)] c(2) maxSync_maxInt n by simp
  from sync_frame_read [OF this w, of "[]"] show ?thesis by simp
qed

definition env_wk :: "ed25519 \<Rightarrow> SignedEntry set \<Rightarrow> sync_env \<Rightarrow> bool" where
  "env_wk E U env \<longleftrightarrow> (\<forall>e\<in>U. ok_SignedEntry E e) \<and> (\<forall>e. ok_status (se_status env e)) \<and> (\<forall>b. length (se_blake3 env b) = 32)"

lemma fingerprintOf_length: "(\<And>b. length (blake3 b) = 32) \<Longrightarrow> length (fingerprintOf blake3 es) = 32"
proof -
  assume l: "\<And>b. length (blake3 b) = 32"
  have "length fp = 32 \<Longrightarrow> length (foldl (\<lambda>fp e. Fingerprint_Xor fp (SignedEntry_Fingerprint blake3 e)) fp es) = 32" for fp
    by (induction es arbitrary: fp) (simp_all add: Fingerprint_Xor_def SignedEntry_Fingerprint_def l)
  then show ?thesis by (simp add: fingerprintOf_def EmptyFingerprint_def l)
qed

lemma entry_id_ok: "env_wk E U env \<Longrightarrow> store_good sc U s \<Longrightarrow> i \<in> se_ID ` set (scopeRange sc r s) \<Longrightarrow> ok_RecordIdentifier E i"
  using in_scopeRange store_goodD(4) [of sc U s] unfolding env_wk_def ok_SignedEntry_def ok_Entry_def by blast

lemma splitRange_ok:
  assumes env: "env_wk E U env" and s: "store_good sc U s" and r: "ok_Range E r" and r': "r' \<in> set (splitRange sc r f s)"
  shows "ok_Range E r'"
proof -
  have ne: "scopeRange sc r s \<noteq> []" using r' by (auto simp: splitRange_def Let_def)
  obtain q sf where ok: "split_ok (scopeRange sc r s) r (splitRange sc r f s) q sf"
    using splitRange_chain [OF store_goodD(1) [OF s] ne, of f] by blast
  note q = split_okD [OF ok]
  have mid: "ok_RecordIdentifier E (q i)" if "0 < i" "i < sf" for i
    using entry_id_ok [OF env s q(4)] that by blast
  have ends: "ok_RecordIdentifier E (q 0)" "ok_RecordIdentifier E (q sf)"
    using q(5,6) entry_id_ok [OF env s] r unfolding ok_Range_def by (cases "Range_IsAll r"; auto)+
  have all: "ok_RecordIdentifier E (q i)" if "i \<le> sf" for i using mid [of i] ends that by (cases "i = 0"; cases "i = sf") auto
  obtain i where "i < sf" "r' = NewRange (q i) (q (Suc i))" using r' unfolding q(1) set_chain_ranges by blast
  then show ?thesis using all [of i] all [of "Suc i"] by (simp add: ok_Range_def NewRange_def)
qed

lemma wk_part_fp: "env_wk E U env \<Longrightarrow> ok_Range E r \<Longrightarrow> wk_part E (part_fp env sc s r)"
  by (simp add: part_fp_def ok_RangeFingerprint_def scopeFingerprint_def fingerprintOf_length env_wk_def)

lemma wk_part_item:
  assumes env: "env_wk E U env" and r: "ok_Range E r" and es: "set es \<subseteq> U"
  shows "wk_part E (part_item r (rangeValues (se_status env) es) h)"
  using assms unfolding env_wk_def part_item_def rangeValues_def by (auto simp: list_all_iff ok_RangeValue_def)

lemma processItems_wk:
  assumes env: "env_good sc U env" and wk: "env_wk E U env" and r: "store_good sc U r"
    and "\<forall>i\<in>set items. \<forall>v\<in>set (rit_Values i). rv_Entry v \<in> U" and "\<forall>i\<in>set items. ok_Range E (rit_Range i)"
    and "processItems env sc items r = (err, ins, out, r')"
  shows "list_all (wk_part E) out"
  using r assms(4-6)
proof (induction items arbitrary: r err ins out r')
  case (Cons i items)
  obtain ins1 r1 where i1: "insertValues env sc (rit_Values i) r = (None, ins1, r1)" "store_good sc U r1"
    using insertValues_good [OF env Cons.prems(1), of "rit_Values i"] Cons.prems(2) by auto
  obtain err2 ins2 out2 r2 where rest: "processItems env sc items r1 = (err2, ins2, out2, r2)" by (metis prod.collapse)
  have "list_all (wk_part E) out2" using Cons.IH [OF i1(2) _ _ rest] Cons.prems(2,3) by simp
  moreover have "wk_part E (part_item (rit_Range i) (item_diff env sc i r) True)"
  proof (cases "rit_HaveLocal i")
    case True
    then show ?thesis using Cons.prems(3) by (simp add: item_diff_def part_item_def)
  next
    case False
    have "set (filter (\<lambda>e. \<not> peerHasNewerValue (rit_Values i) e) (scopeRange sc (rit_Range i) r)) \<subseteq> U"
      using in_scopeRange store_goodD(4) [OF Cons.prems(1)] by auto
    then show ?thesis using False wk_part_item [OF wk] Cons.prems(3) by (simp add: item_diff_def)
  qed
  ultimately show ?case using Cons.prems(4) i1(1) rest by (auto simp: Let_def split: if_splits)
qed simp

lemma processFingerprint_wk:
  assumes wk: "env_wk E U env" and s: "store_good sc U s" and r: "ok_Range E (rf_Range f)"
  shows "list_all (wk_part E) (processFingerprint env sc cfg s f)"
proof -
  have U: "set (scopeRange sc r s) \<subseteq> U" for r using in_scopeRange store_goodD(4) [OF s] by blast
  show ?thesis
    unfolding processFingerprint_def Let_def
    using wk_part_fp [OF wk] wk_part_item [OF wk _ U] splitRange_ok [OF wk s r] r by (auto simp: list_all_iff)
qed

lemma boundedMessage_wk:
  assumes wk: "env_wk E U env" and s: "store_good sc U s" and ps: "list_all (wk_part E) ps"
  shows "list_all (wk_part E) (m_Parts (boundedMessage env sc s ps))"
proof -
  have "wk_part E p \<Longrightarrow> list_all (wk_part E) (splitPart env sc s p)" for p
    using wk_part_fp [OF wk] splitRange_ok [OF wk s]
    by (cases p) (auto simp: splitPart_def list_all_iff split: sum.split)
  then have sp: "list_all (wk_part E) (concat (map (splitPart env sc s) ps))" using ps by (auto simp: list_all_iff)
  have "list_all (wk_part E) qs" if "fitParts env sc s sz xs = Some qs" "list_all (wk_part E) xs" for sz xs qs
    using that
  proof (induction xs arbitrary: sz qs)
    case (Cons p xs)
    obtain q sz' qs' where q: "qs = q # qs'" "fitParts env sc s sz' xs = Some qs'"
      "q = p \<or> (\<exists>i. p = PartItem i \<and> q = part_fp env sc s (rit_Range i))"
      using Cons.prems(1) by (cases p) (auto simp: Let_def split: if_splits sum.splits)
    then show ?case using Cons.IH [OF q(2)] Cons.prems(2) wk_part_fp [OF wk] by auto
  qed simp
  from this [of 0 _ _] show ?thesis using sp ps by (auto simp: boundedMessage_def split: option.split)
qed

text \<open>A reply before it is bounded: made of the items' answers, and well-formed.\<close>

lemma processMessage_reply:
  assumes env: "env_good sc U env" and wk: "env_wk E U env" and inv: "sync_inv (se_blake3 env) sc U r s (m_Parts m)"
    and m: "list_all (wk_part E) (m_Parts m)" and p: "processMessage env sc cfg m r = (Inr (Some m'), ins, r')"
  shows "\<exists>ins out r' raw. processItems env sc (message_items m) r = (None, ins, out, r') \<and> store_good sc U r' \<and>
     raw = replyParts env sc (withDefaults cfg) m out r' \<and> raw \<noteq> [] \<and> m' = boundedMessage env sc r' raw \<and>
     list_all (wk_part E) raw \<and> (\<forall>p\<in>set raw. part_ok (se_blake3 env) sc U r' p)"
proof -
  have r: "store_good sc U r" and s: "store_good sc U s"
    and its: "\<forall>i\<in>set (message_items m). part_ok (se_blake3 env) sc U s (PartItem i)"
    using inv set_message_items unfolding sync_inv_def by blast+
  have vals: "\<forall>i\<in>set (message_items m). \<forall>v\<in>set (rit_Values i). rv_Entry v \<in> U" using part_item_ok(1) [OF s] its by blast
  have rgs: "\<forall>i\<in>set (message_items m). ok_Range E (rit_Range i)" "\<forall>f\<in>set (message_fingerprints m). ok_Range E (rf_Range f)"
    using m set_message_items [of _ m] set_message_fingerprints [of _ m] unfolding list_all_iff
    by (metis wk_part.simps(2), metis wk_part.simps(1) ok_RangeFingerprint_def)
  obtain ins2 out r2 where pi: "processItems env sc (message_items m) r = (None, ins2, out, r2)" "store_good sc U r2"
    "\<forall>p\<in>set out. part_ok (se_blake3 env) sc U r2 p"
    using processItems_good [OF env s r its] by blast
  let ?raw = "replyParts env sc (withDefaults cfg) m out r2"
  have "?raw \<noteq> []" "m' = boundedMessage env sc r2 ?raw"
    using p pi(1) store_goodD(3) [OF r] unfolding processMessage_def Let_def by (auto split: if_splits)
  moreover have "list_all (wk_part E) ?raw"
    using processItems_wk [OF env wk r vals rgs(1) pi(1)] processFingerprint_wk [OF wk pi(2)] rgs(2)
    unfolding replyParts_def by (auto simp: list_all_iff)
  moreover have "\<forall>p\<in>set ?raw. part_ok (se_blake3 env) sc U r2 p"
    using pi(3) processFingerprint_ok [of _ env sc "withDefaults cfg" r2] unfolding replyParts_def by auto
  ultimately show ?thesis using pi(1,2) by blast
qed

lemma processMessage_wk:
  assumes env: "env_good sc U env" and wk: "env_wk E U env" and inv: "sync_inv (se_blake3 env) sc U r s (m_Parts m)"
    and m: "list_all (wk_part E) (m_Parts m)" and p: "processMessage env sc cfg m r = (Inr (Some m'), ins, r')"
  shows "list_all (wk_part E) (m_Parts m')"
  using processMessage_reply [OF assms] boundedMessage_wk [OF wk] by blast

section \<open>Sessions\<close>

definition side_store :: "side \<Rightarrow> MemoryStore" where
  "side_store a = run_store (sd_state a)"

definition side_env :: "side \<Rightarrow> sync_env" where
  "side_env a = run_env (sd_world a) (sd_handler a) (sd_peer a)"

definition side_ok :: "ed25519 \<Rightarrow> (bytes \<Rightarrow> bytes) \<Rightarrow> namespaceScope \<Rightarrow> SignedEntry set \<Rightarrow> side \<Rightarrow> bool" where
  "side_ok E blake3 sc U a \<longleftrightarrow> w_ed (sd_world a) = E \<and> se_blake3 (side_env a) = blake3 \<and>
     env_good sc U (side_env a) \<and> env_wk E U (side_env a)"

text \<open>How a session may end: both sides return without error and hold the surviving entries, or a frame could not be written.\<close>

definition agreed :: "namespaceScope \<Rightarrow> SignedEntry set \<Rightarrow> (run_error option \<times> side) \<times> (run_error option \<times> side) \<Rightarrow> bool" where
  "agreed sc U res = (case res of ((ra, a), (rb, b)) \<Rightarrow>
     ra = None \<and> rb = None \<and> skeys sc (side_store a) = newest U \<and> skeys sc (side_store b) = newest U \<or>
     (\<exists>e. ra = Some (RunWrite e) \<or> rb = Some (RunWrite e)))"

lemma agreed_swap: "agreed sc U (y, x) = agreed sc U (x, y)"
  by (cases x; cases y) (auto simp: agreed_def)

lemma side_ok_state [simp]: "side_ok E blake3 sc U (a\<lparr>sd_state := st\<rparr>) = side_ok E blake3 sc U a"
  by (simp add: side_ok_def side_env_def)

text \<open>One turn of a side on a message it can read: it finishes, or replies, or cannot write the reply.\<close>

definition replies :: "side \<Rightarrow> NamespaceID \<Rightarrow> Message \<Rightarrow> Message \<Rightarrow> bool" where
  "replies a ns m m' \<longleftrightarrow> (\<exists>ins s'. processMessage (side_env a) (inNamespace ns) (hd_Config (sd_handler a)) m (side_store a) = (Inr (Some m'), ins, s'))"

lemma run_turn_good:
  assumes a: "side_ok E blake3 (inNamespace ns) U a" and cf: "collision_free blake3 U" and fin: "finite U"
    and inv: "sync_inv blake3 (inNamespace ns) U (side_store a) s (m_Parts m)" and wk: "list_all (wk_part E) (m_Parts m)"
  shows "\<exists>r f st. run_turn (sd_world a) (sd_handler a) (sd_peer a) ns acc m (sd_state a) = (r, f, st) \<and>
     (r = Some None \<and> f = [] \<and> skeys (inNamespace ns) (run_store st) = newest U \<and> skeys (inNamespace ns) s = newest U \<or>
      (\<exists>e m'. r = Some (Some (RunWrite e)) \<and> f = [] \<and> replies a ns m m' \<and> writeSyncFrame (syncMessageSync m') = Inl e) \<or>
      (\<exists>m'. r = None \<and> writeSyncFrame (syncMessageSync m') = Inr f \<and> replies a ns m m' \<and> list_all (wk_part E) (m_Parts m') \<and>
         sync_inv blake3 (inNamespace ns) U s (run_store st) (m_Parts m')))"
proof -
  let ?sc = "inNamespace ns" and ?env = "side_env a"
  have env: "env_good ?sc U ?env" "env_wk E U ?env" "se_blake3 ?env = blake3" using a unfolding side_ok_def by blast+
  obtain ins r' reply where pm: "processMessage ?env ?sc (hd_Config (sd_handler a)) m (side_store a) = (Inr reply, ins, r')"
    "store_good ?sc U r'"
    "case reply of None \<Rightarrow> newest U \<subseteq> skeys ?sc r' \<inter> skeys ?sc s | Some m' \<Rightarrow> sync_inv blake3 ?sc U s r' (m_Parts m')"
    using processMessage_good [OF env(1), of "side_store a" s m] cf inv unfolding env(3) by blast
  note run = run_turn_def Let_def pm(1) [unfolded side_env_def side_store_def]
  show ?thesis
  proof (cases reply)
    case None
    have "store_good ?sc U s" using inv unfolding sync_inv_def by blast
    then have "skeys ?sc r' = newest U" "skeys ?sc s = newest U" using skeys_newest [OF _ fin] pm(2,3) None by auto
    then show ?thesis using None store_goodD(3) [OF pm(2)] unfolding run by (simp add: run_finish_def)
  next
    case (Some m')
    have "list_all (wk_part E) (m_Parts m')" using processMessage_wk [OF env(1,2) inv [folded env(3)] wk] pm(1) Some by blast
    moreover have "replies a ns m m'" using pm(1) Some unfolding replies_def by blast
    ultimately show ?thesis using Some pm(3) unfolding run by (cases "writeSyncFrame (syncMessageSync m')") auto
  qed
qed

lemma side_receive_eof:
  assumes "store_good sc U (side_store b)" shows "side_receive ns [] b = (Some None, [], b)"
  using store_goodD(3) [OF assms] by (simp add: side_receive_def run_receive_def readSyncFrame_def run_finish_def side_store_def)

lemma side_receive_sync:
  assumes "readSyncFrame (w_ed (sd_world a)) f = Inr (syncMessageSync m, [])"
  shows "side_receive ns f a = (case run_turn (sd_world a) (sd_handler a) (sd_peer a) ns (sd_accept a) m (sd_state a) of
     (r, f, st) \<Rightarrow> (r, f, a\<lparr>sd_state := st\<rparr>))"
  by (simp add: side_receive_def run_receive_def assms)

lemma session_run_agrees:
  assumes cf: "collision_free blake3 U" and fin: "finite U"
  shows "side_ok E blake3 (inNamespace ns) U a \<Longrightarrow> side_ok E blake3 (inNamespace ns) U b \<Longrightarrow>
    sync_inv blake3 (inNamespace ns) U (side_store a) (side_store b) (m_Parts m) \<Longrightarrow> list_all (wk_part E) (m_Parts m) \<Longrightarrow>
    writeSyncFrame (syncMessageSync m) = Inr f \<Longrightarrow> session_run n ns f a b = Some res \<Longrightarrow> agreed (inNamespace ns) U res"
proof (induction n arbitrary: a b m f res)
  case (Suc n)
  let ?sc = "inNamespace ns"
  have E: "w_ed (sd_world a) = E" using Suc.prems(1) by (simp add: side_ok_def)
  obtain r g st where t: "run_turn (sd_world a) (sd_handler a) (sd_peer a) ns (sd_accept a) m (sd_state a) = (r, g, st)"
    and cases: "r = Some None \<and> g = [] \<and> skeys ?sc (run_store st) = newest U \<and> skeys ?sc (side_store b) = newest U \<or>
      (\<exists>e m'. r = Some (Some (RunWrite e)) \<and> g = [] \<and> replies a ns m m' \<and> writeSyncFrame (syncMessageSync m') = Inl e) \<or>
      (\<exists>m'. r = None \<and> writeSyncFrame (syncMessageSync m') = Inr g \<and> replies a ns m m' \<and> list_all (wk_part E) (m_Parts m') \<and>
         sync_inv blake3 ?sc U (side_store b) (run_store st) (m_Parts m'))"
    using run_turn_good [OF Suc.prems(1) cf fin Suc.prems(3,4), of "sd_accept a"] by (elim exE conjE) (rule that)
  have recv: "side_receive ns f a = (r, g, a\<lparr>sd_state := st\<rparr>)"
    unfolding side_receive_sync [OF wk_frame_read [OF Suc.prems(4,5), folded E]] t by (simp only: prod.case)
  have b: "store_good ?sc U (side_store b)" using Suc.prems(3) unfolding sync_inv_def by blast
  note eof = side_receive_eof [OF b, of ns]
  from cases show ?case
  proof (elim disjE exE conjE)
    assume "r = Some None" "g = []" "skeys ?sc (run_store st) = newest U" "skeys ?sc (side_store b) = newest U"
    moreover from this have "session_run (Suc n) ns f a b = Some ((None, a\<lparr>sd_state := st\<rparr>), (None, b))"
      by (simp only: session_run.simps recv eof prod.case option.case)
    then have "res = ((None, a\<lparr>sd_state := st\<rparr>), (None, b))" using Suc.prems(6) by (simp only: option.inject)
    ultimately show ?thesis by (simp add: agreed_def side_store_def)
  next
    fix e assume "r = Some (Some (RunWrite e))" "g = []"
    from this have "session_run (Suc n) ns f a b = Some ((Some (RunWrite e), a\<lparr>sd_state := st\<rparr>), (None, b))"
      by (simp only: session_run.simps recv eof prod.case option.case)
    then have "res = ((Some (RunWrite e), a\<lparr>sd_state := st\<rparr>), (None, b))" using Suc.prems(6) by (simp only: option.inject)
    then show ?thesis by (simp add: agreed_def)
  next
    fix m' assume m': "r = None" "writeSyncFrame (syncMessageSync m') = Inr g" "list_all (wk_part E) (m_Parts m')"
      "sync_inv blake3 ?sc U (side_store b) (run_store st) (m_Parts m')"
    have "session_run (Suc n) ns f a b = map_option (\<lambda>(x, y). (y, x)) (session_run n ns g b (a\<lparr>sd_state := st\<rparr>))"
      by (simp only: session_run.simps recv m'(1) prod.case option.case)
    then have "map_option (\<lambda>(x, y). (y, x)) (session_run n ns g b (a\<lparr>sd_state := st\<rparr>)) = Some res"
      using Suc.prems(6) by (simp only:)
    then obtain x y where xy: "session_run n ns g b (a\<lparr>sd_state := st\<rparr>) = Some (x, y)" "res = (y, x)" by auto
    have "agreed ?sc U (x, y)"
      by (rule Suc.IH [OF Suc.prems(2) _ _ m'(3,2) xy(1)]) (use Suc.prems(1) m'(4) in \<open>simp_all add: side_store_def\<close>)
    then show ?thesis unfolding xy(2) by (rule agreed_swap [THEN iffD2])
  qed
qed simp

end
