(* ===== verification/Docs_Sync_Total.thy ===== *)
theory Docs_Sync_Total
  imports Docs_Sync_Inv
begin

text \<open>
  Whole document syncs, from the init frame to the end of both loops.  Two replicas that run a sync
  end with the same entries; a document small enough for one frame always gets there, in a
  number of rounds that its number of entries bounds.
\<close>

section \<open>Two replicas\<close>

text \<open>The entries of the namespace that either side holds.\<close>

definition document :: "NamespaceID \<Rightarrow> side \<Rightarrow> side \<Rightarrow> SignedEntry set" where
  "document ns d a = scoped (inNamespace ns) (side_store d) \<union> scoped (inNamespace ns) (side_store a)"

text \<open>
  A dialing side \<open>d\<close> and an accepting side \<open>a\<close> that may sync: the stores are well-formed and kept in
  memory, the entries verify and are not from the future, the acceptor allows the namespace, and
  identifiers are valid keys, the zero identifier included when the dialer has no entry to name.
\<close>

definition replicas :: "ed25519 \<Rightarrow> (bytes \<Rightarrow> bytes) \<Rightarrow> NamespaceID \<Rightarrow> side \<Rightarrow> side \<Rightarrow> bool" where
  "replicas E blake3 ns d a \<longleftrightarrow>
     side_ok E blake3 (inNamespace ns) (document ns d a) d \<and> side_ok E blake3 (inNamespace ns) (document ns d a) a \<and>
     store_good (inNamespace ns) (document ns d a) (side_store d) \<and> store_good (inNamespace ns) (document ns d a) (side_store a) \<and>
     sd_accept a \<and> allowed (sd_handler a) ns (sd_peer a) \<and> ok_NamespaceID E ns \<and>
     (scoped (inNamespace ns) (side_store d) = {} \<longrightarrow> validPoint E (replicate 32 0))"

lemma replicasD:
  assumes "replicas E blake3 ns d a"
  shows "side_ok E blake3 (inNamespace ns) (document ns d a) d" "side_ok E blake3 (inNamespace ns) (document ns d a) a"
    "store_good (inNamespace ns) (document ns d a) (side_store d)" "store_good (inNamespace ns) (document ns d a) (side_store a)"
    "sd_accept a" "allowed (sd_handler a) ns (sd_peer a)" "ok_NamespaceID E ns"
    "scoped (inNamespace ns) (side_store d) = {} \<Longrightarrow> validPoint E (replicate 32 0)"
  using assms unfolding replicas_def by blast+

lemma finite_document: "finite (document ns d a)"
  by (simp add: document_def scoped_def store_entries_def)

lemma side_okD:
  assumes "side_ok E blake3 sc U a"
  shows "w_ed (sd_world a) = E" "w_blake3 (sd_world a) = blake3" "env_good sc U (side_env a)" "env_wk E U (side_env a)"
    "se_blake3 (side_env a) = blake3"
proof -
  show "se_blake3 (side_env a) = blake3" using assms unfolding side_ok_def by blast
  then show "w_blake3 (sd_world a) = blake3" by (simp add: side_env_def run_env_def)
qed (use assms in \<open>unfold side_ok_def, blast+\<close>)

lemma initial_wk:
  assumes r: "replicas E blake3 ns d a"
  shows "list_all (wk_part E) (m_Parts (initialMessage blake3 (inNamespace ns) (side_store d)))"
proof -
  let ?sc = "inNamespace ns"
  obtain first where m: "m_Parts (initialMessage blake3 ?sc (side_store d)) = [PartFingerprint \<lparr>rf_Range = NewRange first first,
     rf_Fingerprint = scopeFingerprint blake3 ?sc (NewRange first first) (side_store d)\<rparr>]"
    and first: "first = zero_identifier \<and> scoped ?sc (side_store d) = {} \<or> first \<in> se_ID ` scoped ?sc (side_store d)"
    using initialMessage_parts [of blake3 ?sc "side_store d"] by blast
  note d = side_okD [OF replicasD(1) [OF r]]
  have "ok_RecordIdentifier E first"
  proof (cases "first \<in> se_ID ` scoped ?sc (side_store d)")
    case True
    then show ?thesis using d(4) unfolding document_def env_wk_def ok_SignedEntry_def ok_Entry_def by blast
  next
    case False
    then show ?thesis using first replicasD(8) [OF r]
      by (simp add: ok_RecordIdentifier_def zero_identifier_def ri_bytes_def)
  qed
  moreover have "length (scopeFingerprint blake3 ?sc (NewRange first first) (side_store d)) = 32"
    using d(4,5) unfolding scopeFingerprint_def env_wk_def by (simp add: fingerprintOf_length)
  ultimately show ?thesis unfolding m by (simp add: ok_RangeFingerprint_def ok_Range_def NewRange_def)
qed

text \<open>An init frame that can be written leaves room for a sync frame with the same message.\<close>

lemma init_frame_sync:
  assumes "writeSyncFrame (syncMessageInit n m) = Inr f"
  shows "\<exists>g. writeSyncFrame (syncMessageSync m) = Inr g"
  using assms
  by (auto simp: writeSyncFrame_def marshal_def enc_kind_def enc_pair_def rbind_def enc_raw_def varint_small split: sum.splits if_splits)

text \<open>
  A session is a run in which the acceptor first reads the initial message, as if it had come in a
  sync frame.
\<close>

definition fresh :: "side \<Rightarrow> side" where
  "fresh a = a\<lparr>sd_state := new_run (side_store a)\<rparr>"

lemma fresh_simps [simp]:
  "side_store (fresh a) = side_store a" "side_ok E blake3 sc U (fresh a) = side_ok E blake3 sc U a" "sd_accept (fresh a) = sd_accept a"
  by (simp_all add: fresh_def side_store_def new_run_def)

lemma sync_session_run:
  assumes r: "replicas E blake3 ns d a" and f: "Sync_init (sd_world d) ns (run_store (sd_state d)) = Inr f"
    and g: "writeSyncFrame (syncMessageSync (initialMessage blake3 (inNamespace ns) (side_store d))) = Inr g"
  shows "sync_session n ns d a = map_option (\<lambda>(x, y). (y, x)) (session_run (Suc n) ns g (fresh a) d)"
proof -
  let ?m = "initialMessage blake3 (inNamespace ns) (side_store d)"
  note rd = replicasD [OF r] and wk = initial_wk [OF r]
  note E = side_okD(1) [OF rd(2)] and d = side_okD(2) [OF rd(1)]
  have f': "writeSyncFrame (syncMessageInit ns ?m) = Inr f" using f by (simp add: Sync_init_def d side_store_def)
  have acc: "accept_frame (sd_world a) (sd_handler a) (sd_peer a) False f (run_store (sd_state a)) = (AcceptRun ns ?m, [])"
    using wk_init_read [OF wk rd(7) f'] rd(6) by (simp add: accept_frame_def E)
  have ne: "ms_persistErr (run_store (sd_state a)) = None" "ms_persistErr (run_store (sd_state d)) = None"
    using store_goodD(3) [OF rd(3)] store_goodD(3) [OF rd(4)] by (simp_all add: side_store_def)
  have run: "side_receive ns g (fresh a) =
      (case accept_run (sd_world a) (sd_handler a) (sd_peer a) ns ?m (run_store (sd_state a)) of (r, f, st) \<Rightarrow> (r, f, a\<lparr>sd_state := st\<rparr>))"
    using side_receive_sync [of "fresh a" g ?m ns] wk_frame_read [OF wk g] rd(5) ne(1) E
    by (simp add: accept_run_def fresh_def side_store_def)
  obtain r' h st where t: "accept_run (sd_world a) (sd_handler a) (sd_peer a) ns ?m (run_store (sd_state a)) = (r', h, st)"
    by (metis prod_cases3)
  obtain q h' d' where t': "side_receive ns h d = (q, h', d')" by (metis prod_cases3)
  have "session_run (Suc n) ns g (fresh a) d = (case r' of
      None \<Rightarrow> map_option (\<lambda>(x, y). (y, x)) (session_run n ns h d (a\<lparr>sd_state := st\<rparr>))
    | Some r \<Rightarrow> Some ((r, a\<lparr>sd_state := st\<rparr>), (case q of None \<Rightarrow> None | Some e \<Rightarrow> e), d'))"
    unfolding session_run.simps run t by (simp add: t' split: option.split)
  moreover have "sync_session n ns d a = (case r' of
      None \<Rightarrow> session_run n ns h d (a\<lparr>sd_state := st\<rparr>)
    | Some r \<Rightarrow> Some (((case q of None \<Rightarrow> None | Some e \<Rightarrow> e), d'), (r, a\<lparr>sd_state := st\<rparr>)))"
    unfolding sync_session_def f by (simp add: acc t t' ne Let_def split: option.split)
  ultimately show ?thesis by (cases r') (simp_all add: option.map_comp comp_def case_prod_beta option.map_ident)
qed


text \<open>Both sides are left with the surviving entries of the document, unless a frame could not be written.\<close>

lemma sync_session_agrees:
  assumes r: "replicas E blake3 ns d a" and cf: "collision_free blake3 (document ns d a)"
    and s: "sync_session fuel ns d a = Some res"
  shows "agreed (inNamespace ns) (document ns d a) res"
proof (cases "Sync_init (sd_world d) ns (run_store (sd_state d))")
  case (Inl e)
  then show ?thesis using s by (auto simp: sync_session_def agreed_def)
next
  case (Inr f)
  let ?m = "initialMessage blake3 (inNamespace ns) (side_store d)"
  note rd = replicasD [OF r]
  have "writeSyncFrame (syncMessageInit ns ?m) = Inr f" using Inr side_okD(2) [OF rd(1)] by (simp add: Sync_init_def side_store_def)
  then obtain g where g: "writeSyncFrame (syncMessageSync ?m) = Inr g" using init_frame_sync by blast
  obtain x y where xy: "session_run (Suc fuel) ns g (fresh a) d = Some (x, y)" "res = (y, x)"
    using s unfolding sync_session_run [OF r Inr g] map_option_eq_Some by force
  have "agreed (inNamespace ns) (document ns d a) (x, y)"
    by (rule session_run_agrees [OF cf finite_document _ rd(1) _ initial_wk [OF r] g xy(1)])
      (use rd(2) initial_inv [OF rd(4,3), of blake3] in \<open>simp_all add: document_def\<close>)
  then show ?thesis unfolding xy(2) by (rule agreed_swap [THEN iffD2])
qed

section \<open>The size of a message\<close>

definition enc_le :: "pc_error + bytes \<Rightarrow> nat \<Rightarrow> bool" where
  "enc_le r n \<longleftrightarrow> (\<exists>b. r = Inr b \<and> length b \<le> n)"

lemma varint_le: "length (appendVarint [] v) \<le> 10"
proof -
  have "unat v < 2 ^ (7 * 10)" using unat_u64_lt [of v] by simp
  then show ?thesis using varint_length_le [of 10 v] by simp
qed

lemma enc_le_uint: "enc_le (enc_uint v) 10"
  using varint_le by (auto simp: enc_le_def enc_uint_def)

lemma enc_le_raw: "length b \<le> n \<Longrightarrow> enc_le (enc_raw b) n"
  by (simp add: enc_le_def enc_raw_def)

lemma enc_le_bool: "enc_le (enc_bool b) 1"
  by (simp add: enc_le_def enc_bool_def)

lemma enc_le_bytes: "length b \<le> n \<Longrightarrow> enc_le (enc_bytes b) (10 + n)"
  using varint_le [of "of_nat (length b)"] by (simp add: enc_le_def enc_bytes_def)

lemma enc_le_pair: "enc_le (f x) m \<Longrightarrow> enc_le (g y) n \<Longrightarrow> enc_le (enc_pair f g (x, y)) (m + n)"
  by (auto simp: enc_le_def enc_pair_def)

lemma enc_le_seq: "(\<And>x. x \<in> set xs \<Longrightarrow> enc_le (enc x) (w x)) \<Longrightarrow> enc_le (enc_seq enc xs) (sum_list (map w xs))"
proof (induction xs)
  case (Cons x xs)
  obtain b c where "enc x = Inr b" "length b \<le> w x" "enc_seq enc xs = Inr c" "length c \<le> sum_list (map w xs)"
    using Cons.IH Cons.prems [of x] Cons.prems unfolding enc_le_def by (metis list.set_intros)
  then show ?case by (simp add: enc_le_def)
qed (simp add: enc_le_def)

lemma enc_le_slice: "(\<And>x. x \<in> set xs \<Longrightarrow> enc_le (enc x) (w x)) \<Longrightarrow> enc_le (enc_slice enc xs) (10 + sum_list (map w xs))"
  using enc_le_seq [of xs enc w] varint_le [of "of_nat (length xs)"] by (fastforce simp: enc_le_def enc_slice_def)

lemma enc_le_kind: "enc_le p n \<Longrightarrow> enc_le (enc_kind k p) (10 + n)"
  using varint_le [of k] by (auto simp: enc_le_def enc_kind_def)

lemma enc_le_mono: "enc_le p m \<Longrightarrow> m \<le> n \<Longrightarrow> enc_le p n"
  unfolding enc_le_def by (auto intro: le_trans)

lemmas enc_le_intros = enc_le_uint enc_le_raw enc_le_bool enc_le_bytes enc_le_pair

lemma enc_le_id: "ok_RecordIdentifier E i \<Longrightarrow> length (ri_key i) \<le> K \<Longrightarrow> enc_le (enc_RecordIdentifier i) (74 + K)"
  using enc_le_bytes [of "ri_bytes i" "64 + K"] by (simp add: enc_le_def enc_RecordIdentifier_def ok_RecordIdentifier_def ri_bytes_def)

lemma enc_le_Record: "ok_Record r \<Longrightarrow> enc_le (enc_Record r) (10 + (32 + 10))"
  unfolding enc_Record_def by (intro enc_le_intros) (simp add: ok_Record_def)

lemma enc_le_EntrySignature: "ok_EntrySignature s \<Longrightarrow> enc_le (enc_EntrySignature s) (64 + 64)"
  unfolding enc_EntrySignature_def by (intro enc_le_intros) (simp_all add: ok_EntrySignature_def)

lemma enc_le_Entry: "ok_Entry E e \<Longrightarrow> length (ri_key (e_ID e)) \<le> K \<Longrightarrow> enc_le (enc_Entry e) (74 + K + (10 + (32 + 10)))"
  unfolding enc_Entry_def by (auto simp only: ok_Entry_def intro!: enc_le_pair enc_le_id enc_le_Record)

lemma enc_le_SignedEntry:
  "ok_SignedEntry E e \<Longrightarrow> length (ri_key (se_ID e)) \<le> K \<Longrightarrow> enc_le (enc_SignedEntry e) (64 + 64 + (74 + K + (10 + (32 + 10))))"
  unfolding enc_SignedEntry_def by (auto simp only: ok_SignedEntry_def intro!: enc_le_pair enc_le_EntrySignature enc_le_Entry)

lemma enc_le_RangeValue:
  assumes "ok_RangeValue E v" "length (ri_key (se_ID (rv_Entry v))) \<le> K" shows "enc_le (enc_RangeValue v) (300 + K)"
proof -
  have "enc_le (enc_RangeValue v) (64 + 64 + (74 + K + (10 + (32 + 10))) + 10)"
    unfolding enc_RangeValue_def by (use assms in \<open>auto simp only: ok_RangeValue_def intro!: enc_le_pair enc_le_SignedEntry enc_le_uint\<close>)
  then show ?thesis by (rule enc_le_mono) simp
qed

text \<open>The range and the values of a part; keys of at most \<open>K\<close> bytes.\<close>

fun part_range :: "MessagePart \<Rightarrow> Range" where
  "part_range (PartFingerprint f) = rf_Range f"
| "part_range (PartItem i) = rit_Range i"
| "part_range (PartUnknown k) = NewRange zero_identifier zero_identifier"

fun part_values :: "MessagePart \<Rightarrow> RangeValue list" where
  "part_values (PartItem i) = rit_Values i"
| "part_values _ = []"

definition short_part :: "nat \<Rightarrow> MessagePart \<Rightarrow> bool" where
  "short_part K p \<longleftrightarrow> length (ri_key (r_Start (part_range p))) \<le> K \<and> length (ri_key (r_End (part_range p))) \<le> K \<and>
     (\<forall>v\<in>set (part_values p). length (ri_key (se_ID (rv_Entry v))) \<le> K)"

definition part_weight :: "nat \<Rightarrow> MessagePart \<Rightarrow> nat" where
  "part_weight K p = 200 + 2 * K + length (part_values p) * (300 + K)"

lemma enc_le_Range:
  "ok_Range E r \<Longrightarrow> length (ri_key (r_Start r)) \<le> K \<Longrightarrow> length (ri_key (r_End r)) \<le> K \<Longrightarrow> enc_le (enc_Range r) ((74 + K) + (74 + K))"
  unfolding enc_Range_def by (auto simp only: ok_Range_def intro!: enc_le_pair enc_le_id)

lemma enc_le_RangeItem:
  assumes "ok_Range E (rit_Range i)" "length (ri_key (r_Start (rit_Range i))) \<le> K" "length (ri_key (r_End (rit_Range i))) \<le> K"
    and v: "\<And>v. v \<in> set (rit_Values i) \<Longrightarrow> ok_RangeValue E v \<and> length (ri_key (se_ID (rv_Entry v))) \<le> K"
  shows "enc_le (enc_RangeItem i) ((74 + K) + (74 + K) + (10 + sum_list (map (\<lambda>_. 300 + K) (rit_Values i)) + 1))"
  unfolding enc_RangeItem_def by (intro enc_le_pair enc_le_Range [OF assms(1-3)] enc_le_slice enc_le_bool enc_le_RangeValue, use v in auto)

lemma enc_le_part:
  assumes wk: "wk_part E p" and K: "short_part K p"
  shows "enc_le (enc_MessagePart p) (part_weight K p)"
proof (cases p)
  case (PartFingerprint f)
  have "enc_le (enc_RangeFingerprint f) ((74 + K) + (74 + K) + 32)"
    unfolding enc_RangeFingerprint_def by (intro enc_le_pair enc_le_Range [of E] enc_le_raw)
      (use wk K PartFingerprint in \<open>auto simp: ok_RangeFingerprint_def short_part_def\<close>)
  then have "enc_le (enc_MessagePart p) (10 + ((74 + K) + (74 + K) + 32))"
    unfolding PartFingerprint enc_MessagePart.simps by (rule enc_le_kind)
  then show ?thesis by (rule enc_le_mono) (simp add: part_weight_def PartFingerprint)
next
  case (PartItem i)
  have "enc_le (enc_RangeItem i) ((74 + K) + (74 + K) + (10 + sum_list (map (\<lambda>_. 300 + K) (rit_Values i)) + 1))"
    by (rule enc_le_RangeItem [of E]) (use wk K PartItem in \<open>auto simp: short_part_def list_all_iff\<close>)
  then have "enc_le (enc_MessagePart p) (10 + ((74 + K) + (74 + K) + (10 + sum_list (map (\<lambda>_. 300 + K) (rit_Values i)) + 1)))"
    unfolding PartItem enc_MessagePart.simps by (rule enc_le_kind)
  then show ?thesis by (rule enc_le_mono) (simp add: part_weight_def PartItem sum_list_triv)
qed (use wk in simp)

section \<open>Messages that fit a frame\<close>

lemma splitPart_fits: "enc_le (enc_MessagePart p) n \<Longrightarrow> n \<le> sync_budget \<Longrightarrow> splitPart env sc s p = [p]"
  by (auto simp: splitPart_def enc_le_def marshal_def split: MessagePart.split)

lemma fitParts_fits:
  "(\<And>p. p \<in> set ps \<Longrightarrow> enc_le (enc_MessagePart p) (w p)) \<Longrightarrow> sz + sum_list (map w ps) \<le> sync_budget \<Longrightarrow> fitParts env sc s sz ps = Some ps"
proof (induction ps arbitrary: sz)
  case (Cons p ps)
  obtain b where b: "enc_MessagePart p = Inr b" "length b \<le> w p" using Cons.prems(1) [of p] by (auto simp: enc_le_def)
  have "fitParts env sc s (sz + length b) ps = Some ps" by (rule Cons.IH) (use Cons.prems b(2) in auto)
  then show ?case using b Cons.prems(2) by (simp add: marshal_def split: MessagePart.split)
qed simp

lemma boundedMessage_fits:
  assumes p: "\<And>p. p \<in> set ps \<Longrightarrow> enc_le (enc_MessagePart p) (w p)" and w: "sum_list (map w ps) \<le> sync_budget"
  shows "boundedMessage env sc s ps = \<lparr>m_Parts = ps\<rparr>"
proof -
  have "splitPart env sc s p = [p]" if "p \<in> set ps" for p
    by (rule splitPart_fits [OF p [OF that]]) (use member_le_sum_list [of "w p" "map w ps"] that w in auto)
  then have "map (splitPart env sc s) ps = map (\<lambda>p. [p]) ps" by simp
  then have "concat (map (splitPart env sc s) ps) = ps" by (simp only: concat_map_singleton) simp
  then show ?thesis using fitParts_fits [of ps w 0 env sc s] p w by (simp add: boundedMessage_def)
qed

lemma enc_le_Message:
  assumes "\<And>p. p \<in> set (m_Parts m) \<Longrightarrow> enc_le (enc_MessagePart p) (w p)" "sum_list (map w (m_Parts m)) \<le> n"
  shows "enc_le (enc_Message m) (10 + n)"
  unfolding enc_Message_def by (rule enc_le_mono [OF enc_le_slice [of _ _ w]]) (use assms in auto)

lemma frame_fits:
  assumes "enc_le (enc_Message m) (10 + n)" "n \<le> sync_budget"
  shows "\<exists>f. writeSyncFrame (syncMessageSync m) = Inr f"
  using assms
  by (auto simp: enc_le_def writeSyncFrame_def marshal_def enc_kind_def varint_small sync_budget_def maxSyncMessageSize_def)

lemma init_frame_fits:
  assumes "enc_le (enc_Message m) (10 + n)" "n + 64 \<le> sync_budget" "length ns = 32"
  shows "\<exists>f. writeSyncFrame (syncMessageInit ns m) = Inr f"
  using assms
  by (auto simp: enc_le_def writeSyncFrame_def marshal_def enc_kind_def enc_pair_def enc_raw_def varint_small sync_budget_def
      maxSyncMessageSize_def)

section \<open>Ranges that do not overlap\<close>

definition covers :: "RecordIdentifier \<Rightarrow> MessagePart list \<Rightarrow> nat" where
  "covers x ps = length (filter (\<lambda>p. Range_Contains (part_range p) x) ps)"

lemma covers_simps [simp]:
  "covers x [] = 0" "covers x (p # ps) = of_bool (Range_Contains (part_range p) x) + covers x ps" "covers x (ps @ qs) = covers x ps + covers x qs"
  by (simp_all add: covers_def)

lemma covers_message:
  "covers x (map PartItem (message_items m)) + covers x (map PartFingerprint (message_fingerprints m)) \<le> covers x (m_Parts m)"
proof -
  have "covers x (map PartItem (concat (map (\<lambda>p. case p of PartItem i \<Rightarrow> [i] | _ \<Rightarrow> []) ps))) +
      covers x (map PartFingerprint (concat (map (\<lambda>p. case p of PartFingerprint f \<Rightarrow> [f] | _ \<Rightarrow> []) ps))) \<le> covers x ps" for ps
  proof (induction ps)
    case (Cons p ps)
    then show ?case by (cases p) auto
  qed simp
  then show ?thesis by (simp add: message_items_def message_fingerprints_def)
qed

lemma part_range_simps [simp]: "part_range (part_fp env sc s r) = r" "part_range (part_item r vs h) = r"
  by (simp_all add: part_fp_def part_item_def)

lemma processItems_covers:
  "processItems env sc items s = (err, ins, out, s') \<Longrightarrow> covers x out \<le> covers x (map PartItem items)"
proof (induction items arbitrary: s err ins out s')
  case (Cons i items)
  obtain e1 i1 s1 where a: "insertValues env sc (rit_Values i) s = (e1, i1, s1)" by (metis prod_cases3)
  obtain e2 i2 o2 s2 where b: "processItems env sc items s1 = (e2, i2, o2, s2)" by (metis prod_cases4)
  show ?case using Cons.prems Cons.IH [OF b] a b by (auto simp: Let_def split: if_splits)
qed simp

lemma covers_map: "(\<And>r. part_range (g r) = r) \<Longrightarrow> covers x (map g rs) = length (filter (\<lambda>r. Range_Contains r x) rs)"
  by (simp add: covers_def filter_map comp_def)

lemma processFingerprint_covers:
  assumes "store_wf s" shows "covers x (processFingerprint env sc cfg s f) \<le> of_bool (Range_Contains (rf_Range f) x)"
proof (cases "scopeRange sc (rf_Range f) s = []")
  case False
  let ?g = "\<lambda>r. let chunk = scopeRange sc r s in
             if int (length chunk) > MaxSetSize cfg then part_fp env sc s r
             else part_item r (rangeValues (se_status env) chunk) False"
  have "covers x (map ?g (splitRange sc (rf_Range f) (SplitFactor cfg) s)) \<le> of_bool (Range_Contains (rf_Range f) x)"
    by (subst covers_map) (use splitRange_once [OF assms False] in \<open>simp_all add: Let_def\<close>)
  then show ?thesis unfolding processFingerprint_def Let_def by simp
qed (simp add: processFingerprint_def Let_def)

lemma fingerprints_covers:
  assumes "store_wf s"
  shows "covers x (concat (map (processFingerprint env sc cfg s) fs)) \<le> covers x (map PartFingerprint fs)"
proof (induction fs)
  case (Cons f fs)
  then show ?case using processFingerprint_covers [OF assms, of x env sc cfg f] by simp
qed simp

lemma reply_covers:
  assumes "store_wf s" "processItems env sc (message_items m) s0 = (err, ins, out, s)"
  shows "covers x (replyParts env sc cfg m out s) \<le> covers x (m_Parts m)"
  using covers_message [of x m] processItems_covers [OF assms(2), of x]
    fingerprints_covers [OF assms(1), of x env sc cfg "message_fingerprints m"]
  by (simp add: replyParts_def)

text \<open>The identifiers a range of a session can start or end at.\<close>

definition doc_ids :: "SignedEntry set \<Rightarrow> RecordIdentifier set" where
  "doc_ids U = insert zero_identifier (se_ID ` U)"

definition ends_in :: "RecordIdentifier set \<Rightarrow> Range \<Rightarrow> bool" where
  "ends_in I r \<longleftrightarrow> r_Start r \<in> I \<and> r_End r \<in> I"

lemma splitRange_ends:
  assumes s: "store_good sc U s" and r: "ends_in (doc_ids U) r" and r': "r' \<in> set (splitRange sc r f s)"
  shows "ends_in (doc_ids U) r'"
proof -
  have ne: "scopeRange sc r s \<noteq> []" using r' by (auto simp: splitRange_def)
  obtain q sf where ok: "split_ok (scopeRange sc r s) r (splitRange sc r f s) q sf"
    using splitRange_chain [OF store_goodD(1) [OF s] ne, of f] by blast
  note q = split_okD [OF ok]
  have sub: "se_ID ` set (scopeRange sc r s) \<subseteq> doc_ids U"
    using in_scopeRange store_goodD(4) [OF s] unfolding doc_ids_def by blast
  have "q i \<in> doc_ids U" if "i \<le> sf" for i
  proof (cases "0 < i \<and> i < sf")
    case True
    then show ?thesis using q(4) sub by blast
  next
    case False
    then have "i = 0 \<or> i = sf" using that by auto
    then show ?thesis using q(5,6) r sub by (cases "Range_IsAll r") (auto simp: ends_in_def)
  qed
  moreover obtain i where "i < sf" "r' = NewRange (q i) (q (Suc i))" using r' unfolding q(1) set_chain_ranges by blast
  ultimately show ?thesis by (simp add: ends_in_def NewRange_def)
qed

lemma processFingerprint_ends:
  assumes "store_good sc U s" "ends_in (doc_ids U) (rf_Range f)" "p \<in> set (processFingerprint env sc cfg s f)"
  shows "ends_in (doc_ids U) (part_range p)"
  using assms splitRange_ends [OF assms(1,2)] unfolding processFingerprint_def Let_def by (auto split: if_splits)

text \<open>The range items of a reply answer the items of the message.\<close>

lemma processItems_out:
  "processItems env sc items s = (err, ins, out, s') \<Longrightarrow> p \<in> set out \<Longrightarrow>
     \<exists>i\<in>set items. \<not> rit_HaveLocal i \<and> (\<exists>vs. p = part_item (rit_Range i) vs True)"
proof (induction items arbitrary: s err ins out s')
  case (Cons i items)
  obtain e1 i1 s1 where a: "insertValues env sc (rit_Values i) s = (e1, i1, s1)" by (metis prod_cases3)
  obtain e2 i2 o2 s2 where b: "processItems env sc items s1 = (e2, i2, o2, s2)" by (metis prod_cases4)
  consider "p \<in> set o2" | "item_diff env sc i s \<noteq> []" "p = part_item (rit_Range i) (item_diff env sc i s) True"
    using Cons.prems a b by (auto simp: Let_def split: if_splits)
  then show ?case
  proof cases
    case 1
    then show ?thesis using Cons.IH [OF b] by auto
  next
    case 2
    then show ?thesis by (auto simp: item_diff_def split: if_splits)
  qed
qed simp

section \<open>Progress\<close>

text \<open>
  What is left to do about a part: a fingerprint is answered with fingerprints of smaller ranges or
  with the entries of its range, those with the ones that the peer lacks, and those with nothing.
\<close>

fun part_rank :: "SignedEntry set \<Rightarrow> MessagePart \<Rightarrow> nat" where
  "part_rank U (PartFingerprint f) = 3 + card {e \<in> U. Range_Contains (rf_Range f) (se_ID e)}"
| "part_rank U (PartItem i) = (if rit_HaveLocal i then 1 else 2)"
| "part_rank U (PartUnknown k) = 0"

lemma split_rank:
  assumes s: "store_good sc U s" and fin: "finite U" and n: "2 \<le> length (scopeRange sc r s)" and r': "r' \<in> set (splitRange sc r f s)"
  shows "card {e \<in> U. Range_Contains r' (se_ID e)} < card {e \<in> U. Range_Contains r (se_ID e)}"
proof (rule psubset_card_mono)
  have ne: "scopeRange sc r s \<noteq> []" using n by auto
  note step = splitRange_step [OF store_goodD(1) [OF s] ne r']
  obtain e where e: "e \<in> set (scopeRange sc r s)" "\<not> Range_Contains r' (se_ID e)" using step(2) [OF n] by blast
  then have "e \<in> U" "Range_Contains r (se_ID e)" using in_scopeRange store_goodD(4) [OF s] by blast+
  then show "{e \<in> U. Range_Contains r' (se_ID e)} \<subset> {e \<in> U. Range_Contains r (se_ID e)}" using step(1) e(2) by blast
qed (use fin in simp)

lemma processFingerprint_rank:
  assumes s: "store_good sc U s" and fin: "finite U" and p: "p \<in> set (processFingerprint env sc cfg s f)"
  shows "part_rank U p < part_rank U (PartFingerprint f)"
proof -
  let ?r = "rf_Range f"
  consider vs where "p = part_item ?r vs False"
    | r' where "r' \<in> set (splitRange sc ?r (SplitFactor cfg) s)" "2 \<le> length (scopeRange sc ?r s)"
        "p = part_fp env sc s r' \<or> (\<exists>vs. p = part_item r' vs False)"
    using p unfolding processFingerprint_def Let_def by (auto split: if_splits)
  then show ?thesis
  proof cases
    case 2
    then show ?thesis using split_rank [OF s fin 2(2,1)] by (auto simp: part_fp_def part_item_def)
  qed (simp add: part_item_def)
qed

lemma reply_rank:
  assumes s: "store_good sc U s" and fin: "finite U" and out: "processItems env sc (message_items m) s0 = (err, ins, out, s)"
    and p: "p \<in> set (replyParts env sc cfg m out s)"
  shows "\<exists>q\<in>set (m_Parts m). part_rank U p < part_rank U q"
proof (cases "p \<in> set out")
  case True
  then show ?thesis using processItems_out [OF out] by (force simp: set_message_items part_item_def)
next
  case False
  then obtain f where "f \<in> set (message_fingerprints m)" "p \<in> set (processFingerprint env sc cfg s f)"
    using p by (auto simp: replyParts_def)
  then show ?thesis using processFingerprint_rank [OF s fin] set_message_fingerprints by blast
qed

lemma reply_ends:
  assumes s: "store_good sc U s" and m: "\<forall>q\<in>set (m_Parts m). ends_in (doc_ids U) (part_range q)"
    and out: "processItems env sc (message_items m) s0 = (err, ins, out, s)" and p: "p \<in> set (replyParts env sc cfg m out s)"
  shows "ends_in (doc_ids U) (part_range p)"
proof (cases "p \<in> set out")
  case True
  then show ?thesis using processItems_out [OF out] m by (force simp: set_message_items part_item_def)
next
  case False
  then obtain f where "f \<in> set (message_fingerprints m)" "p \<in> set (processFingerprint env sc cfg s f)"
    using p by (auto simp: replyParts_def)
  then show ?thesis using processFingerprint_ends [OF s] m by (force simp: set_message_fingerprints)
qed

section \<open>How large a message gets\<close>

definition tidy :: "SignedEntry set \<Rightarrow> MessagePart list \<Rightarrow> bool" where
  "tidy U ps \<longleftrightarrow> (\<forall>x. covers x ps \<le> 1) \<and> (\<forall>p\<in>set ps. ends_in (doc_ids U) (part_range p))"

lemma Range_Contains_start: "Range_Contains r (r_Start r)"
  by (auto simp: Range_Contains_def Let_def RecordIdentifier_Compare_def)

lemma covers_0: "covers x ps = 0 \<longleftrightarrow> (\<forall>p\<in>set ps. \<not> Range_Contains (part_range p) x)"
  by (auto simp: covers_def filter_empty_conv)

lemma covers_tail: "\<forall>x. covers x (p # ps) \<le> 1 \<Longrightarrow> (\<forall>x. covers x ps \<le> 1)"
  by (metis covers_simps(2) le_add2 le_trans)

lemma covers_head: "\<forall>x. covers x (p # ps) \<le> 1 \<Longrightarrow> Range_Contains (part_range p) x \<Longrightarrow> q \<in> set ps \<Longrightarrow> \<not> Range_Contains (part_range q) x"
  using covers_0 [of x ps] by (auto dest!: spec [of _ x])

lemma covers_starts: "\<forall>x. covers x ps \<le> 1 \<Longrightarrow> distinct (map (\<lambda>p. r_Start (part_range p)) ps)"
proof (induction ps)
  case (Cons p ps)
  have "r_Start (part_range p) \<noteq> r_Start (part_range q)" if "q \<in> set ps" for q
    using covers_head [OF Cons.prems Range_Contains_start that] Range_Contains_start [of "part_range q"] by metis
  then show ?case using Cons.IH [OF covers_tail [OF Cons.prems]] by auto
qed simp

lemma covers_values:
  assumes "\<And>p. p \<in> set ps \<Longrightarrow> distinct (map rv_Entry (part_values p)) \<and> (\<forall>v\<in>set (part_values p). Range_Contains (part_range p) (se_ID (rv_Entry v)))"
  shows "\<forall>x. covers x ps \<le> 1 \<Longrightarrow> distinct (map rv_Entry (concat (map part_values ps)))"
  using assms
proof (induction ps)
  case (Cons p ps)
  have "rv_Entry v \<noteq> rv_Entry w" if "v \<in> set (part_values p)" "q \<in> set ps" "w \<in> set (part_values q)" for v q w
    using covers_head [OF Cons.prems(1), of "se_ID (rv_Entry v)" q] Cons.prems(2) [of p] Cons.prems(2) [of q] that by (metis list.set_intros)
  moreover have "distinct (map rv_Entry (concat (map part_values ps)))" using Cons.IH covers_tail [OF Cons.prems(1)] Cons.prems(2) by simp
  ultimately show ?case using Cons.prems(2) [of p] by fastforce
qed simp

lemma part_ok_values:
  assumes s: "store_good sc U s" and p: "part_ok blake3 sc U s p"
  shows "distinct (map rv_Entry (part_values p))" "\<forall>v\<in>set (part_values p). Range_Contains (part_range p) (se_ID (rv_Entry v)) \<and> rv_Entry v \<in> U"
proof -
  have "distinct (map rv_Entry (part_values p)) \<and> (\<forall>v\<in>set (part_values p). Range_Contains (part_range p) (se_ID (rv_Entry v)))"
  proof (cases p)
    case (PartItem i)
    show ?thesis
    proof (cases "rit_HaveLocal i")
      case True
      then have d: "diff_ok sc U s i" using p PartItem by simp
      then have "distinct (map ek (map rv_Entry (rit_Values i)))" by (simp add: diff_ok_def comp_def)
      then have "distinct (map rv_Entry (rit_Values i))" using distinct_map by blast
      moreover have "\<forall>v\<in>set (rit_Values i). Range_Contains (rit_Range i) (fst (ek (rv_Entry v)))" using d unfolding diff_ok_def item_keys_def by blast
      ultimately show ?thesis by (simp add: PartItem)
    next
      case False
      then have v: "map rv_Entry (rit_Values i) = scopeRange sc (rit_Range i) s" using p PartItem by simp
      have "distinct (scopeRange sc (rit_Range i) s)" using distinct_ek_scopeRange [OF store_goodD(1) [OF s]] distinct_map by blast
      moreover have "rv_Entry ` set (rit_Values i) = set (scopeRange sc (rit_Range i) s)" using v by (metis list.set_map)
      then have "\<forall>v\<in>set (rit_Values i). Range_Contains (rit_Range i) (se_ID (rv_Entry v))" using in_scopeRange by blast
      ultimately show ?thesis by (simp add: PartItem v)
    qed
  qed simp_all
  moreover have "\<forall>v\<in>set (part_values p). rv_Entry v \<in> U" using part_item_ok(1) [OF s] p by (cases p) auto
  ultimately show "distinct (map rv_Entry (part_values p))" "\<forall>v\<in>set (part_values p). Range_Contains (part_range p) (se_ID (rv_Entry v)) \<and> rv_Entry v \<in> U"
    by blast+
qed

text \<open>A document whose entries have keys of at most \<open>K\<close> bytes and that fits one frame as a whole.\<close>

definition doc_fits :: "nat \<Rightarrow> SignedEntry set \<Rightarrow> bool" where
  "doc_fits K U \<longleftrightarrow> (\<forall>e\<in>U. length (ri_key (se_ID e)) \<le> K) \<and> (card U + 1) * (500 + 3 * K) \<le> sync_budget"

lemma tidy_weight:
  assumes fin: "finite U" and t: "tidy U ps" and s: "store_good sc U s" and ok: "\<forall>p\<in>set ps. part_ok blake3 sc U s p"
  shows "sum_list (map (part_weight K) ps) \<le> (card U + 1) * (500 + 3 * K)"
proof -
  have c: "\<forall>x. covers x ps \<le> 1" and I: "(\<lambda>p. r_Start (part_range p)) ` set ps \<subseteq> doc_ids U"
    using t unfolding tidy_def ends_in_def by blast+
  have "length ps = card ((\<lambda>p. r_Start (part_range p)) ` set ps)"
    using distinct_card [OF covers_starts [OF c]] by simp
  also have "\<dots> \<le> card (doc_ids U)" using I fin by (intro card_mono) (simp_all add: doc_ids_def)
  also have "\<dots> \<le> card U + 1" using card_insert_le_m1 [of "card U + 1" "se_ID ` U" zero_identifier] card_image_le [OF fin, of se_ID] by (simp add: doc_ids_def)
  finally have n: "length ps \<le> card U + 1" .
  have pv: "distinct (map rv_Entry (part_values p)) \<and> (\<forall>v\<in>set (part_values p). Range_Contains (part_range p) (se_ID (rv_Entry v)))" if "p \<in> set ps" for p
    using part_ok_values [OF s bspec [OF ok that]] by blast
  have "rv_Entry ` set (concat (map part_values ps)) \<subseteq> U" using part_ok_values(2) [OF s] ok by fastforce
  then have "card (set (map rv_Entry (concat (map part_values ps)))) \<le> card U" using fin by (intro card_mono) simp_all
  then have v: "length (concat (map part_values ps)) \<le> card U"
    using distinct_card [OF covers_values [OF pv c]] by simp
  have "sum_list (map (part_weight K) ps) = length ps * (200 + 2 * K) + length (concat (map part_values ps)) * (300 + K)"
    by (induction ps) (simp_all add: part_weight_def algebra_simps)
  also have "\<dots> \<le> (card U + 1) * (200 + 2 * K) + (card U + 1) * (300 + K)" using n v by (intro add_mono mult_right_mono) simp_all
  finally show ?thesis by (simp add: algebra_simps)
qed

lemma tidy_short:
  assumes U: "\<forall>e\<in>U. length (ri_key (se_ID e)) \<le> K" and t: "tidy U ps" and p: "p \<in> set ps"
    and s: "store_good sc U s" and ok: "part_ok blake3 sc U s p"
  shows "short_part K p"
proof -
  have "\<forall>i\<in>doc_ids U. length (ri_key i) \<le> K" using U by (simp add: doc_ids_def zero_identifier_def)
  moreover have "ends_in (doc_ids U) (part_range p)" using t p unfolding tidy_def by blast
  ultimately show ?thesis unfolding short_part_def ends_in_def using part_ok_values(2) [OF s ok] U by blast
qed

text \<open>The parts of a session's messages are written as they are.\<close>

lemma tidy_fits:
  assumes fin: "finite U" and d: "doc_fits K U" and t: "tidy U ps" and s: "store_good sc U s"
    and ok: "\<forall>p\<in>set ps. part_ok blake3 sc U s p" and wk: "list_all (wk_part E) ps"
  shows "boundedMessage env sc s ps = \<lparr>m_Parts = ps\<rparr>" "enc_le (enc_Message \<lparr>m_Parts = ps\<rparr>) (10 + (card U + 1) * (500 + 3 * K))"
    "\<exists>f. writeSyncFrame (syncMessageSync \<lparr>m_Parts = ps\<rparr>) = Inr f"
proof -
  have U: "\<forall>e\<in>U. length (ri_key (se_ID e)) \<le> K" and b: "(card U + 1) * (500 + 3 * K) \<le> sync_budget" using d unfolding doc_fits_def by blast+
  have e: "enc_le (enc_MessagePart p) (part_weight K p)" if "p \<in> set ps" for p
    by (rule enc_le_part [OF _ tidy_short [OF U t that s bspec [OF ok that]], of E]) (use wk that in \<open>simp add: list_all_iff\<close>)
  note w = tidy_weight [OF fin t s ok, of K]
  show "boundedMessage env sc s ps = \<lparr>m_Parts = ps\<rparr>" by (rule boundedMessage_fits [OF e le_trans [OF w b]])
  show l: "enc_le (enc_Message \<lparr>m_Parts = ps\<rparr>) (10 + (card U + 1) * (500 + 3 * K))" by (rule enc_le_Message) (use e w in simp_all)
  show "\<exists>f. writeSyncFrame (syncMessageSync \<lparr>m_Parts = ps\<rparr>) = Inr f" by (rule frame_fits [OF l b])
qed

lemma replies_total:
  assumes fin: "finite U" and d: "doc_fits K U" and a: "side_ok E blake3 (inNamespace ns) U a"
    and inv: "sync_inv blake3 (inNamespace ns) U (side_store a) s (m_Parts m)" and wk: "list_all (wk_part E) (m_Parts m)"
    and t: "tidy U (m_Parts m)" and m': "replies a ns m m'"
  shows "tidy U (m_Parts m')" "\<exists>f. writeSyncFrame (syncMessageSync m') = Inr f" "m_Parts m' \<noteq> []"
    "\<forall>p\<in>set (m_Parts m'). \<exists>q\<in>set (m_Parts m). part_rank U p < part_rank U q"
proof -
  let ?sc = "inNamespace ns" and ?env = "side_env a"
  note env = side_okD [OF a]
  obtain ins s' where pm: "processMessage ?env ?sc (hd_Config (sd_handler a)) m (side_store a) = (Inr (Some m'), ins, s')"
    using m' unfolding replies_def by blast
  obtain ins2 out r' raw where pi: "processItems ?env ?sc (message_items m) (side_store a) = (None, ins2, out, r')"
    and r': "store_good ?sc U r'" and raw: "raw = replyParts ?env ?sc (withDefaults (hd_Config (sd_handler a))) m out r'" "raw \<noteq> []"
    and bm: "m' = boundedMessage ?env ?sc r' raw" and ok: "list_all (wk_part E) raw" "\<forall>p\<in>set raw. part_ok (se_blake3 ?env) ?sc U r' p"
    using processMessage_reply [OF env(3,4) inv [folded env(5)] wk pm] by blast
  have tr: "tidy U raw"
    using t reply_covers [OF store_goodD(1) [OF r'] pi] reply_ends [OF r' _ pi] le_trans unfolding tidy_def raw(1) by blast
  note f = tidy_fits [OF fin d tr r' ok(2,1)]
  then have mp: "m' = \<lparr>m_Parts = raw\<rparr>" unfolding bm by blast
  show "tidy U (m_Parts m')" "m_Parts m' \<noteq> []" using tr mp raw(2) by simp_all
  show "\<exists>f. writeSyncFrame (syncMessageSync m') = Inr f" using f(3) mp by simp
  show "\<forall>p\<in>set (m_Parts m'). \<exists>q\<in>set (m_Parts m). part_rank U p < part_rank U q"
    using reply_rank [OF r' fin pi] mp unfolding raw(1) by simp
qed

text \<open>With every rank at most \<open>n\<close>, both sides return within \<open>n + 1\<close> frames.\<close>

definition completed :: "namespaceScope \<Rightarrow> SignedEntry set \<Rightarrow> ((run_error option \<times> side) \<times> (run_error option \<times> side)) option \<Rightarrow> bool" where
  "completed sc U r \<longleftrightarrow> (\<exists>a b. r = Some ((None, a), (None, b)) \<and> skeys sc (side_store a) = newest U \<and> skeys sc (side_store b) = newest U)"

lemma completed_swap: "completed sc U (map_option (\<lambda>(x, y). (y, x)) r) = completed sc U r"
  by (cases r) (auto simp: completed_def)

lemma session_run_completes:
  assumes cf: "collision_free blake3 U" and fin: "finite U" and d: "doc_fits K U"
  shows "side_ok E blake3 (inNamespace ns) U a \<Longrightarrow> side_ok E blake3 (inNamespace ns) U b \<Longrightarrow>
    sync_inv blake3 (inNamespace ns) U (side_store a) (side_store b) (m_Parts m) \<Longrightarrow> list_all (wk_part E) (m_Parts m) \<Longrightarrow>
    writeSyncFrame (syncMessageSync m) = Inr f \<Longrightarrow> tidy U (m_Parts m) \<Longrightarrow> \<forall>p\<in>set (m_Parts m). part_rank U p < n \<Longrightarrow> 0 < n \<Longrightarrow>
    completed (inNamespace ns) U (session_run n ns f a b)"
proof (induction n arbitrary: a b m f)
  case (Suc n)
  let ?sc = "inNamespace ns"
  have E: "w_ed (sd_world a) = E" using Suc.prems(1) by (simp add: side_ok_def)
  note rt = replies_total [OF fin d Suc.prems(1,3,4,6)]
  obtain r g st where t: "run_turn (sd_world a) (sd_handler a) (sd_peer a) ns (sd_accept a) m (sd_state a) = (r, g, st)"
    and cases: "r = Some None \<and> g = [] \<and> skeys ?sc (run_store st) = newest U \<and> skeys ?sc (side_store b) = newest U \<or>
      (\<exists>e m'. r = Some (Some (RunWrite e)) \<and> g = [] \<and> replies a ns m m' \<and> writeSyncFrame (syncMessageSync m') = Inl e) \<or>
      (\<exists>m'. r = None \<and> writeSyncFrame (syncMessageSync m') = Inr g \<and> replies a ns m m' \<and> list_all (wk_part E) (m_Parts m') \<and>
         sync_inv blake3 ?sc U (side_store b) (run_store st) (m_Parts m'))"
    using run_turn_good [OF Suc.prems(1) cf fin Suc.prems(3,4), of "sd_accept a"] by (elim exE conjE) (rule that)
  have recv: "side_receive ns f a = (r, g, a\<lparr>sd_state := st\<rparr>)"
    unfolding side_receive_sync [OF wk_frame_read [OF Suc.prems(4,5), folded E]] t by (simp only: prod.case)
  have b: "store_good ?sc U (side_store b)" using Suc.prems(3) unfolding sync_inv_def by blast
  note eof = side_receive_eof [OF b, of ns]
  from cases show ?case
  proof (elim disjE exE conjE)
    assume "r = Some None" "g = []" and k: "skeys ?sc (run_store st) = newest U" "skeys ?sc (side_store b) = newest U"
    then have "session_run (Suc n) ns f a b = Some ((None, a\<lparr>sd_state := st\<rparr>), (None, b))"
      by (simp only: session_run.simps recv eof prod.case option.case)
    then show ?thesis using k unfolding completed_def by (simp add: side_store_def)
  next
    fix e m' assume m': "replies a ns m m'" "writeSyncFrame (syncMessageSync m') = Inl e"
    show ?thesis using rt(2) [OF m'(1)] m'(2) by simp
  next
    fix m' assume m': "r = None" "writeSyncFrame (syncMessageSync m') = Inr g" "replies a ns m m'" "list_all (wk_part E) (m_Parts m')"
      "sync_inv blake3 ?sc U (side_store b) (run_store st) (m_Parts m')"
    have rank: "part_rank U p < n" if "p \<in> set (m_Parts m')" for p
      using rt(4) [OF m'(3)] Suc.prems(7) that less_Suc_eq_le less_le_trans by blast
    have n: "0 < n" using rank rt(3) [OF m'(3)] by (metis gr_zeroI last_in_set less_nat_zero_code)
    have "completed ?sc U (session_run n ns g b (a\<lparr>sd_state := st\<rparr>))"
      by (rule Suc.IH [OF Suc.prems(2) _ _ m'(4,2) rt(1) [OF m'(3)]]) (use Suc.prems(1) m'(5) rank n in \<open>simp_all add: side_store_def\<close>)
    moreover have "session_run (Suc n) ns f a b = map_option (\<lambda>(x, y). (y, x)) (session_run n ns g b (a\<lparr>sd_state := st\<rparr>))"
      by (simp only: session_run.simps recv m'(1) prod.case option.case)
    ultimately show ?thesis by (simp only: completed_swap)
  qed
qed simp

section \<open>Whole sessions\<close>

lemma initial_tidy: "tidy (document ns d a) (m_Parts (initialMessage blake3 (inNamespace ns) (side_store d)))"
proof -
  obtain first where "m_Parts (initialMessage blake3 (inNamespace ns) (side_store d)) = [PartFingerprint \<lparr>rf_Range = NewRange first first,
     rf_Fingerprint = scopeFingerprint blake3 (inNamespace ns) (NewRange first first) (side_store d)\<rparr>]"
    "first = zero_identifier \<and> scoped (inNamespace ns) (side_store d) = {} \<or> first \<in> se_ID ` scoped (inNamespace ns) (side_store d)"
    using initialMessage_parts [of blake3 "inNamespace ns" "side_store d"] by blast
  then show ?thesis by (auto simp: tidy_def ends_in_def NewRange_def doc_ids_def document_def)
qed

lemma initial_rank: "p \<in> set (m_Parts (initialMessage blake3 sc s)) \<Longrightarrow> finite U \<Longrightarrow> part_rank U p \<le> 3 + card U"
  using initialMessage_parts [of blake3 sc s] by (auto intro: card_mono)

text \<open>
  C1: two replicas that sync a document small enough for one frame always finish, without an error
  on either side, and both then hold exactly the newest entries of what the two held before: those
  that no entry of either side with a prefix of their key and an equal or newer record shadows.  After
  the init frame they exchange at most four frames more than the document has entries.  The fingerprints have to be free of
  collisions on the document, and its entries valid, for the outcome to be determined by the entries alone.
\<close>
theorem docs_sync_completes:
  assumes r: "replicas E blake3 ns d a" and cf: "collision_free blake3 (document ns d a)" and fits: "doc_fits K (document ns d a)"
    and fuel: "card (document ns d a) + 4 \<le> fuel"
  shows "\<exists>d' a'. sync_session fuel ns d a = Some ((None, d'), (None, a')) \<and>
     skeys (inNamespace ns) (side_store d') = newest (document ns d a) \<and>
     skeys (inNamespace ns) (side_store a') = newest (document ns d a)"
proof -
  let ?U = "document ns d a" and ?m = "initialMessage blake3 (inNamespace ns) (side_store d)"
  note rd = replicasD [OF r] and fin = finite_document [of ns d a] and wk = initial_wk [OF r]
  have inv: "sync_inv blake3 (inNamespace ns) ?U (side_store (fresh a)) (side_store d) (m_Parts ?m)"
    using initial_inv [OF rd(4,3), of blake3] by (simp add: document_def)
  then have ok: "\<forall>p\<in>set (m_Parts ?m). part_ok blake3 (inNamespace ns) ?U (side_store d) p" unfolding sync_inv_def by blast
  have sm: "tidy ?U (m_Parts ?m)" by (rule initial_tidy)
  have single: "\<lparr>m_Parts = m_Parts ?m\<rparr> = ?m" by simp
  note sz = tidy_fits [OF fin fits sm rd(3) ok wk, unfolded single]
  have "sum_list (map (part_weight K) (m_Parts ?m)) = 200 + 2 * K" using initialMessage_parts [of blake3 "inNamespace ns" "side_store d"]
    by (auto simp: part_weight_def)
  then have "enc_le (enc_Message ?m) (10 + (200 + 2 * K))"
    using enc_le_Message [of ?m "part_weight K"] enc_le_part tidy_short [OF _ sm _ rd(3)] ok wk fits
    by (metis doc_fits_def le_refl list_all_iff)
  moreover have "200 + 2 * K + 64 \<le> sync_budget" using fits by (simp add: doc_fits_def)
  ultimately obtain f where f: "Sync_init (sd_world d) ns (run_store (sd_state d)) = Inr f"
    using init_frame_fits [of ?m "200 + 2 * K" ns] rd(7) side_okD(2) [OF rd(1)] by (auto simp: Sync_init_def ok_NamespaceID_def side_store_def)
  obtain g where g: "writeSyncFrame (syncMessageSync ?m) = Inr g" using sz(3) by blast
  have "completed (inNamespace ns) ?U (session_run (Suc fuel) ns g (fresh a) d)"
    by (rule session_run_completes [OF cf fin fits _ rd(1) inv wk g sm])
      (use rd(2) fuel initial_rank [OF _ fin] in fastforce)+
  then have "completed (inNamespace ns) ?U (sync_session fuel ns d a)" unfolding sync_session_run [OF r f g] by (simp only: completed_swap)
  then show ?thesis unfolding completed_def .
qed

text \<open>A pair of replicas with one entry each.\<close>

definition ex_signed :: "bytes \<Rightarrow> SignedEntry" where
  "ex_signed k = NewSignedEntry toy_ed25519 \<lparr>e_ID = \<lparr>ri_namespace = replicate 32 7, ri_author = replicate 32 7, ri_key = k\<rparr>,
     e_Record = NewRecord (replicate 32 7) 5 3\<rparr> (replicate 32 1 @ replicate 32 7) (replicate 32 1 @ replicate 32 7)"

definition toy_blake3 :: "bytes \<Rightarrow> bytes" where
  "toy_blake3 b = replicate 32 (of_nat (length b))"

definition ex_store :: "SignedEntry list \<Rightarrow> MemoryStore" where
  "ex_store es = NewMemoryStore\<lparr>ms_entries := map (\<lambda>e. (ri_bytes (se_ID e), e)) es\<rparr>"

definition ex_side :: "bool \<Rightarrow> SignedEntry list \<Rightarrow> side" where
  "ex_side acc es = \<lparr>sd_world = \<lparr>w_ed = toy_ed25519, w_blake3 = toy_blake3, w_now = 1000, w_save = (\<lambda>_. None)\<rparr>,
     sd_handler = \<lparr>hd_Config = \<lparr>MaxSetSize = 1, SplitFactor = 2\<rparr>, hd_Allow = Some (\<lambda>_ _. True), hd_Validate = None,
       hd_ContentStatus = None, hd_blobs = (\<lambda>_. Some BlobComplete)\<rparr>,
     sd_peer = replicate 32 5, sd_accept = acc, sd_state = new_run (ex_store es)\<rparr>"

lemma ex_signed_id [simp]: "se_ID (ex_signed k) = \<lparr>ri_namespace = replicate 32 7, ri_author = replicate 32 7, ri_key = k\<rparr>"
  by (simp add: ex_signed_def NewSignedEntry_def)

lemma ex_signed_record [simp]: "se_Record (ex_signed k) = NewRecord (replicate 32 7) 5 3"
  by (simp add: ex_signed_def NewSignedEntry_def)

lemma nonzero_key: "replicate 32 7 \<noteq> (replicate 32 0 :: bytes)"
  by (simp add: replicate_eq_replicate)

lemma nonempty_hash: "replicate 32 7 \<noteq> EmptyHash"
proof
  assume "replicate 32 7 = EmptyHash"
  then have "hd (replicate 32 7) = hd EmptyHash" by simp
  then show False by (simp add: EmptyHash_def)
qed

lemma ex_signed_verify: "SignedEntry_Verify toy_ed25519 (ex_signed k) = Inr ()"
  by (simp add: SignedEntry_Verify_def EntrySignature_Verify_def ex_signed_def NewSignedEntry_def SignEntry_def PublicKey_Verify_def
      SecretKey_Sign_def SignatureFromSlice_def toy_ed25519_def key_sizes)

lemma ex_signed_ok: "length k < 10000000 \<Longrightarrow> ok_SignedEntry toy_ed25519 (ex_signed k)"
  using nonzero_key
  by (simp add: ok_SignedEntry_def ok_EntrySignature_def ok_Entry_def ok_RecordIdentifier_def ok_Record_def ri_bytes_def
      ex_signed_def NewSignedEntry_def SignEntry_def SecretKey_Sign_def SignatureFromSlice_def NewRecord_def toy_ed25519_def key_sizes Let_def)

lemma distinct_sublists: "set es \<subseteq> {a, b} \<Longrightarrow> distinct es \<Longrightarrow> es \<in> {[], [a], [b], [a, b], [b, a]}"
proof -
  assume es: "set es \<subseteq> {a, b}" "distinct es"
  have "length es \<le> 2"
    using distinct_card [OF es(2)] card_mono [OF _ es(1)] card_insert_le_m1 [of 2 "{b}" a] by simp
  then consider "es = []" | x where "es = [x]" | x y where "es = [x, y]"
    by (cases es; cases "tl es") (auto simp: length_Suc_conv)
  then show ?thesis using es by cases auto
qed

lemma ex_collision_free: "collision_free toy_blake3 {ex_signed [1], ex_signed [2, 2]}"
  unfolding collision_free_def
proof (intro allI impI, elim conjE)
  let ?a = "ex_signed [1]" and ?b = "ex_signed [2, 2]"
  fix es es' assume sub: "set es \<subseteq> {?a, ?b}" "set es' \<subseteq> {?a, ?b}" and dist: "distinct (map ek es)" "distinct (map ek es')"
    and fp: "fingerprintOf toy_blake3 es = fingerprintOf toy_blake3 es'"
  note enum = distinct_sublists [OF sub(1) conjunct1 [OF distinct_map [THEN iffD1, OF dist(1)]]]
    distinct_sublists [OF sub(2) conjunct1 [OF distinct_map [THEN iffD1, OF dist(2)]]]
  have fps: "fingerprintOf toy_blake3 [] = replicate 32 0" "fingerprintOf toy_blake3 [?a] = replicate 32 105"
    "fingerprintOf toy_blake3 [?b] = replicate 32 106" "fingerprintOf toy_blake3 [?a, ?b] = replicate 32 3" "fingerprintOf toy_blake3 [?b, ?a] = replicate 32 3"
    by (simp_all add: fingerprintOf_def EmptyFingerprint_def SignedEntry_Fingerprint_def fingerprint_input_def toy_blake3_def
        Fingerprint_Xor_def NewRecord_def putUint64BE_def)
  show "ek ` set es = ek ` set es'"
    using enum fp by (elim insertE emptyE) (simp_all only: fps replicate_eq_replicate, simp_all add: insert_commute)
qed

lemma ex_side_simps [simp]:
  "side_store (ex_side acc es) = ex_store es" "sd_accept (ex_side acc es) = acc" "allowed (sd_handler (ex_side acc es)) ns peer"
  "store_entries (ex_store es) = set es" "\<not> ms_persistPath (ex_store es)" "ms_persistErr (ex_store es) = None"
  by (simp_all add: ex_side_def side_store_def new_run_def allowed_def ex_store_def store_entries_def NewMemoryStore_def image_image)

lemma ex_store_wf: "store_wf (ex_store [ex_signed k])"
  by (simp add: store_wf_def store_keys_def) (simp add: ex_store_def ri_ok_def mwf_def)

lemma ex_scoped: "scoped (inNamespace (replicate 32 7)) (ex_store [ex_signed k]) = {ex_signed k}"
  by (auto simp: scoped_def sc_contains_def)

lemma ex_side_ok:
  assumes "\<forall>e\<in>U. \<exists>k. e = ex_signed k \<and> length k < 10000000"
  shows "side_ok toy_ed25519 toy_blake3 (inNamespace (replicate 32 7)) U (ex_side acc es)"
proof -
  let ?env = "side_env (ex_side acc es)"
  have env: "se_blake3 ?env = toy_blake3" "se_now ?env = 1000" "w_ed (sd_world (ex_side acc es)) = toy_ed25519"
    "se_validate ?env = handler_validate toy_ed25519 (sd_handler (ex_side acc es))" "se_status ?env e = ContentComplete" for e
    by (simp_all add: side_env_def run_env_def ex_side_def handler_contentStatus_def)
  have v: "handler_validate toy_ed25519 (sd_handler (ex_side acc es)) (ex_signed k) st" for k st
    using ex_signed_verify nonempty_hash by (simp add: handler_validate_def ex_side_def ValidateEmpty_def NewRecord_def)
  show ?thesis unfolding side_ok_def env_good_def env_wk_def env
    using assms v ex_signed_ok
    by (fastforce simp: ri_ok_def sc_contains_def acceptTimestamp_def NewRecord_def MaxTimestampFutureShift_def ok_status_def toy_blake3_def)
qed

theorem docs_sync_completes_witness:
  "\<exists>d' a'. sync_session 6 (replicate 32 7) (ex_side False [ex_signed [1]]) (ex_side True [ex_signed [2, 2]]) = Some ((None, d'), (None, a')) \<and>
     skeys (inNamespace (replicate 32 7)) (side_store d') = newest {ex_signed [1], ex_signed [2, 2]} \<and>
     skeys (inNamespace (replicate 32 7)) (side_store a') = newest {ex_signed [1], ex_signed [2, 2]}"
proof -
  let ?ns = "replicate 32 7" and ?a = "ex_signed [1]" and ?b = "ex_signed [2, 2]"
  let ?d = "ex_side False [?a]" and ?r = "ex_side True [?b]" and ?U = "{ex_signed [1], ex_signed [2, 2]}"
  have U: "document ?ns ?d ?r = ?U" by (auto simp: document_def ex_scoped)
  have good: "store_good (inNamespace ?ns) ?U (ex_store [?a])" "store_good (inNamespace ?ns) ?U (ex_store [?b])"
    by (simp_all add: store_good_def ex_store_wf ex_scoped)
  have ok: "side_ok toy_ed25519 toy_blake3 (inNamespace ?ns) ?U ?d" "side_ok toy_ed25519 toy_blake3 (inNamespace ?ns) ?U ?r"
    by (rule ex_side_ok, auto)+
  have r: "replicas toy_ed25519 toy_blake3 ?ns ?d ?r"
    unfolding replicas_def U using ok good ex_scoped nonzero_key by (simp add: ok_NamespaceID_def toy_ed25519_def)
  have "?a \<noteq> ?b" using ex_signed_id [of "[1]"] ex_signed_id [of "[2, 2]"] by (metis RecordIdentifier.select_convs(3) list.inject not_Cons_self)
  then have "card ?U = 2" by simp
  then have "doc_fits 2 ?U" "card ?U + 4 \<le> 6" by (simp_all add: doc_fits_def sync_budget_def maxSyncMessageSize_def)
  then show ?thesis using docs_sync_completes [OF r, of 2 6] ex_collision_free unfolding U by blast
qed

end
