(* ===== verification/Docs_Sync_Loop.thy ===== *)
theory Docs_Sync_Loop
  imports Docs_Sync_Total
begin

text \<open>
  A document sync that does not end.  \<open>boundedMessage\<close> replaces a range item that does not fit a
  frame by the fingerprint of its range, even when the item holds a single entry and no later
  round can make it smaller: the peer asks for the range again, and gets the same answer.
\<close>

section \<open>An entry that does not fit\<close>

text \<open>
  The only entry \<open>e\<close> of one side, while the other has none: its key fits twice into a frame, so that
  its range can be named, but not three times, so that an item with the entry is too large.
\<close>

definition oversized :: "SignedEntry \<Rightarrow> bool" where
  "oversized e \<longleftrightarrow> 2 * length (ri_key (se_ID e)) + 264 \<le> sync_budget \<and> sync_budget < 3 * length (ri_key (se_ID e))"

definition whole :: "SignedEntry \<Rightarrow> Range" where
  "whole e = NewRange (se_ID e) (se_ID e)"

definition asks :: "(bytes \<Rightarrow> bytes) \<Rightarrow> SignedEntry \<Rightarrow> Message" where
  "asks blake3 e = \<lparr>m_Parts = [PartFingerprint \<lparr>rf_Range = whole e, rf_Fingerprint = fingerprintOf blake3 [e]\<rparr>]\<rparr>"

definition answers :: "SignedEntry \<Rightarrow> Message" where
  "answers e = \<lparr>m_Parts = [part_item (whole e) [] False]\<rparr>"

lemma whole_contains [simp]: "Range_Contains (whole e) i"
  by (simp add: whole_def)

lemma scopeRange_whole:
  assumes s: "store_wf s" and es: "scoped sc s = set es" "length es \<le> 1"
  shows "scopeRange sc (whole e) s = es"
proof -
  have "set (scopeRange sc (whole e) s) = set es" using in_scopeRange [of _ sc "whole e" s] es(1) by auto
  moreover have "distinct (scopeRange sc (whole e) s)" using distinct_ek_scopeRange [OF s] distinct_map by blast
  moreover have "distinct es" using es(2) by (cases es) auto
  ultimately have "mset (scopeRange sc (whole e) s) = mset es" using set_eq_iff_mset_eq_distinct by blast
  then show ?thesis using es(2) by (cases es) auto
qed

lemma ends_short: "length (ri_key (r_Start (whole e))) \<le> length (ri_key (se_ID e))" "length (ri_key (r_End (whole e))) \<le> length (ri_key (se_ID e))"
  by (simp_all add: whole_def NewRange_def)

lemma short_fits:
  assumes "oversized e" "wk_part E p" "part_range p = whole e" "part_values p = []"
  shows "enc_le (enc_MessagePart p) (200 + 2 * length (ri_key (se_ID e)))" "200 + 2 * length (ri_key (se_ID e)) + 64 \<le> sync_budget"
  using enc_le_part [OF assms(2), of "length (ri_key (se_ID e))"] ends_short [of e] assms
  by (simp_all add: short_part_def part_weight_def oversized_def)

lemma short_message:
  assumes "oversized e" "wk_part E p" "part_range p = whole e" "part_values p = []"
  shows "enc_le (enc_Message \<lparr>m_Parts = [p]\<rparr>) (10 + (200 + 2 * length (ri_key (se_ID e))))"
  by (rule enc_le_Message [of _ "\<lambda>_. 200 + 2 * length (ri_key (se_ID e))"]) (use short_fits(1) [OF assms] in simp_all)

lemma large_item:
  assumes o: "oversized e" and b: "enc_MessagePart (part_item (whole e) [\<lparr>rv_Entry = e, rv_Status = st\<rparr>] h) = Inr b"
  shows "sync_budget < length b"
proof -
  have "3 * length (ri_key (se_ID e)) \<le> length b"
    using b by (auto simp: part_item_def enc_kind_eq_Inr enc_RangeItem_def enc_Range_def enc_pair_def rbind_eq_Inr enc_slice_def
        enc_RangeValue_def enc_SignedEntry_def enc_Entry_def enc_RecordIdentifier_def enc_bytes_def whole_def NewRange_def ri_bytes_def)
  then show ?thesis using o by (simp add: oversized_def)
qed

section \<open>The two rounds\<close>

text \<open>The side without the entry asks for the range with an empty item.\<close>

lemma empty_round:
  assumes env: "env_wk E {e} env" and s: "store_good sc {e} s" "scoped sc s = {}" and o: "oversized e"
    and fp: "fingerprintOf (se_blake3 env) [e] \<noteq> EmptyFingerprint (se_blake3 env)"
  shows "processMessage env sc cfg (asks (se_blake3 env) e) s = (Inr (Some (answers e)), [], s)"
proof -
  have none: "scopeRange sc (whole e) s = []" using scopeRange_whole [OF store_goodD(1) [OF s(1)], of sc "[]"] s(2) by simp
  have wk: "wk_part E (part_item (whole e) [] False)"
    using env by (simp add: part_item_def env_wk_def ok_SignedEntry_def ok_Entry_def whole_def NewRange_def ok_Range_def)
  have "processFingerprint env sc (withDefaults cfg) s \<lparr>rf_Range = whole e, rf_Fingerprint = fingerprintOf (se_blake3 env) [e]\<rparr> = [part_item (whole e) [] False]"
    using none fp by (simp add: processFingerprint_def scopeFingerprint_def fingerprintOf_def rangeValues_def)
  moreover have "boundedMessage env sc s [part_item (whole e) [] False] = answers e"
    unfolding answers_def using short_fits [OF o wk]
    by (intro boundedMessage_fits [of _ "\<lambda>_. 200 + 2 * length (ri_key (se_ID e))"]) (simp_all add: part_item_def)
  ultimately show ?thesis using store_goodD(3) [OF s(1)]
    by (simp add: processMessage_def asks_def message_items_def message_fingerprints_def replyParts_def)
qed

text \<open>The side with the entry finds it too large and answers with the fingerprint it started from.\<close>

lemma entry_round:
  assumes env: "env_wk E {e} env" and s: "store_good sc {e} s" "scoped sc s = {e}" and o: "oversized e"
  shows "processMessage env sc cfg (answers e) s = (Inr (Some (asks (se_blake3 env) e)), [], s)"
proof -
  let ?v = "\<lparr>rv_Entry = e, rv_Status = se_status env e\<rparr>" and ?i = "\<lparr>rit_Range = whole e, rit_Values = [], rit_HaveLocal = False\<rparr>"
  let ?p = "part_item (whole e) [?v] True"
  have one: "scopeRange sc (whole e) s = [e]" using scopeRange_whole [OF store_goodD(1) [OF s(1)], of sc "[e]"] s(2) by simp
  then have diff: "item_diff env sc ?i s = [?v]" by (simp add: item_diff_def rangeValues_def peerHasNewerValue_def)
  have r: "ok_Range E (whole e)" using env by (simp add: env_wk_def ok_SignedEntry_def ok_Entry_def whole_def NewRange_def ok_Range_def)
  have wk: "wk_part E ?p" using env r by (simp add: part_item_def env_wk_def ok_RangeValue_def)
  obtain b where b: "enc_MessagePart ?p = Inr b" using enc_le_part [OF wk, of "length (ri_key (se_ID e))"] ends_short [of e]
    by (auto simp: short_part_def part_item_def enc_le_def)
  have big: "sync_budget < length b" by (rule large_item [OF o b])
  have fpp: "part_fp env sc s (whole e) = PartFingerprint \<lparr>rf_Range = whole e, rf_Fingerprint = fingerprintOf (se_blake3 env) [e]\<rparr>"
    using one by (simp add: part_fp_def scopeFingerprint_def)
  have wk': "wk_part E (part_fp env sc s (whole e))" by (rule wk_part_fp [OF env r])
  then obtain c where c: "enc_MessagePart (part_fp env sc s (whole e)) = Inr c" using short_fits(1) [OF o wk'] by (auto simp: enc_le_def part_fp_def)
  have "splitPart env sc s ?p = [?p]" using b by (simp add: splitPart_def part_item_def marshal_def)
  moreover have "fitParts env sc s 0 [?p] = Some [part_fp env sc s (whole e)]" using b c big by (simp add: marshal_def part_item_def Let_def)
  ultimately have "boundedMessage env sc s [?p] = asks (se_blake3 env) e" by (simp add: boundedMessage_def asks_def fpp)
  then show ?thesis using store_goodD(3) [OF s(1)] diff
    by (simp add: processMessage_def answers_def part_item_def message_items_def message_fingerprints_def replyParts_def)
qed

lemma replying_turn:
  assumes "processMessage (side_env a) (inNamespace ns) (hd_Config (sd_handler a)) m (side_store a) = (Inr (Some m'), ins, side_store a)"
    and "writeSyncFrame (syncMessageSync m') = Inr g"
    and "readSyncFrame (w_ed (sd_world a)) f = Inr (syncMessageSync m, [])"
  shows "\<exists>st. side_receive ns f a = (None, g, a\<lparr>sd_state := st\<rparr>) \<and> run_store st = side_store a"
  using assms unfolding side_receive_sync [OF assms(3)] 
  by (simp add: run_turn_def side_env_def side_store_def Let_def) (rule exI, rule conjI, rule refl, simp)

lemma loop:
  assumes o: "oversized e" and fp: "fingerprintOf blake3 [e] \<noteq> EmptyFingerprint blake3"
    and wk: "list_all (wk_part E) (m_Parts (asks blake3 e))" "list_all (wk_part E) (m_Parts (answers e))"
    and f: "writeSyncFrame (syncMessageSync (asks blake3 e)) = Inr f" and g: "writeSyncFrame (syncMessageSync (answers e)) = Inr g"
  shows "side_ok E blake3 (inNamespace ns) {e} a \<Longrightarrow> side_ok E blake3 (inNamespace ns) {e} d \<Longrightarrow>
    store_good (inNamespace ns) {e} (side_store a) \<Longrightarrow> store_good (inNamespace ns) {e} (side_store d) \<Longrightarrow>
    scoped (inNamespace ns) (side_store a) = {} \<Longrightarrow> scoped (inNamespace ns) (side_store d) = {e} \<Longrightarrow>
    session_run n ns f a d = None \<and> session_run n ns g d a = None"
proof (induction n arbitrary: a d)
  case (Suc n)
  let ?sc = "inNamespace ns"
  note ea = side_okD [OF Suc.prems(1)] and ed = side_okD [OF Suc.prems(2)]
  obtain st where st: "side_receive ns f a = (None, g, a\<lparr>sd_state := st\<rparr>)" "run_store st = side_store a"
    using replying_turn [OF _ g, of a ns "asks blake3 e" "[]" f] wk_frame_read [OF wk(1) f]
      empty_round [OF ea(4) Suc.prems(3,5) o, of "hd_Config (sd_handler a)"] fp unfolding ea(1,5) by blast
  obtain st' where st': "side_receive ns g d = (None, f, d\<lparr>sd_state := st'\<rparr>)" "run_store st' = side_store d"
    using replying_turn [OF _ f, of d ns "answers e" "[]" g] wk_frame_read [OF wk(2) g]
      entry_round [OF ed(4) Suc.prems(4,6) o, of "hd_Config (sd_handler d)"] unfolding ed(1,5) by blast
  have "side_store (a\<lparr>sd_state := st\<rparr>) = side_store a" "side_store (d\<lparr>sd_state := st'\<rparr>) = side_store d"
    using st(2) st'(2) by (simp_all add: side_store_def)
  then have "session_run n ns g d (a\<lparr>sd_state := st\<rparr>) = None" "session_run n ns f a (d\<lparr>sd_state := st'\<rparr>) = None"
    using Suc.IH [of "a\<lparr>sd_state := st\<rparr>" d] Suc.IH [of a "d\<lparr>sd_state := st'\<rparr>"] Suc.prems by (simp_all only: side_ok_state)
  then show ?case by (simp add: st(1) st'(1))
qed simp

section \<open>The session\<close>

text \<open>
  C11: a document with an oversized entry on the dialing side and nothing on the accepting side is never synced
  and the session never ends: no number of frames is enough, although every message can be
  written.  (The comment on \<open>boundedMessage\<close> says that such an entry fails at \<open>writeSyncFrame\<close>.)
\<close>
theorem docs_sync_oversized_loops:
  assumes r: "replicas E blake3 ns d a" and cf: "collision_free blake3 {e}" and o: "oversized e"
    and d: "scoped (inNamespace ns) (side_store d) = {e}" and a: "scoped (inNamespace ns) (side_store a) = {}"
  shows "sync_session fuel ns d a = None"
proof -
  let ?sc = "inNamespace ns" and ?m = "initialMessage blake3 (inNamespace ns) (side_store d)"
  note rd = replicasD [OF r]
  have U: "document ns d a = {e}" by (simp add: document_def d a)
  note ok = rd(1-4) [unfolded U] and env = side_okD [OF rd(1) [unfolded U]]
  have "scopeRange ?sc (NewRange zero_identifier zero_identifier) (side_store d) = [e]"
    using scopeRange_whole [OF store_goodD(1) [OF rd(3)], of ?sc "[e]" e] d
      scopeRange_all [of "whole e" "NewRange zero_identifier zero_identifier" ?sc "side_store d"] by (simp add: whole_def)
  then have m: "?m = asks blake3 e" by (simp add: initialMessage_def asks_def whole_def Let_def)
  note wk = initial_wk [OF r, unfolded m]
  have wk': "list_all (wk_part E) (m_Parts (answers e))"
    using wk by (simp add: asks_def answers_def part_item_def ok_RangeFingerprint_def)
  have fp: "fingerprintOf blake3 [e] \<noteq> EmptyFingerprint blake3"
    using collision_freeD [OF cf, of "[e]" "[]"] by (auto simp: fingerprintOf_def)
  let ?n = "200 + 2 * length (ri_key (se_ID e))"
  have le: "enc_le (enc_Message (asks blake3 e)) (10 + ?n)" "enc_le (enc_Message (answers e)) (10 + ?n)"
    using short_message [OF o] wk wk' by (simp_all add: asks_def answers_def part_item_def)
  have n: "?n + 64 \<le> sync_budget" using o by (simp add: oversized_def)
  obtain h where h: "Sync_init (sd_world d) ns (run_store (sd_state d)) = Inr h"
    using init_frame_fits [OF le(1) n] rd(7) m by (auto simp: Sync_init_def env(2) ok_NamespaceID_def side_store_def)
  obtain f g where fg: "writeSyncFrame (syncMessageSync (asks blake3 e)) = Inr f" "writeSyncFrame (syncMessageSync (answers e)) = Inr g"
    using frame_fits [OF le(1)] frame_fits [OF le(2)] n by auto
  have "session_run (Suc fuel) ns f (fresh a) d = None"
    using loop [OF o fp wk wk' fg, of ns "fresh a" d "Suc fuel"] ok d a by (simp only: fresh_simps)
  then show ?thesis unfolding sync_session_run [OF r h fg(1) [folded m]] by (simp only: option.map)
qed

text \<open>A key of six million bytes.\<close>

definition ex_key :: bytes where
  "ex_key = replicate (6 * 10 ^ 6) 1"

theorem docs_sync_oversized_loops_witness:
  "sync_session 1000 (replicate 32 7) (ex_side False [ex_signed ex_key]) (ex_side True []) = None"
proof -
  let ?ns = "replicate 32 7" and ?e = "ex_signed ex_key"
  let ?d = "ex_side False [?e]" and ?a = "ex_side True []"
  have len: "length ex_key = 6 * 10 ^ 6" by (simp only: ex_key_def length_replicate)
  have sa: "scoped (inNamespace ?ns) (ex_store []) = {}" by (simp add: scoped_def)
  have U: "document ?ns ?d ?a = {?e}" by (simp add: document_def ex_scoped sa)
  have good: "store_good (inNamespace ?ns) {?e} (ex_store [?e])" "store_good (inNamespace ?ns) {?e} (ex_store [])"
    by (simp_all add: store_good_def ex_store_wf ex_scoped sa) (simp add: ex_store_def store_wf_def store_keys_def store_entries_def NewMemoryStore_def)
  have ok: "side_ok toy_ed25519 toy_blake3 (inNamespace ?ns) {?e} ?d" "side_ok toy_ed25519 toy_blake3 (inNamespace ?ns) {?e} ?a"
    by (rule ex_side_ok, use len in auto)+
  have r: "replicas toy_ed25519 toy_blake3 ?ns ?d ?a"
    unfolding replicas_def U using ok good ex_scoped nonzero_key by (simp add: ok_NamespaceID_def toy_ed25519_def)
  have o: "oversized ?e" by (simp add: oversized_def len sync_budget_def maxSyncMessageSize_def)
  have fp: "fingerprintOf toy_blake3 [?e] \<noteq> fingerprintOf toy_blake3 []"
    by (simp add: fingerprintOf_def EmptyFingerprint_def SignedEntry_Fingerprint_def fingerprint_input_def toy_blake3_def
        Fingerprint_Xor_def NewRecord_def putUint64BE_def len replicate_eq_replicate)
  have "collision_free toy_blake3 {?e}"
    unfolding collision_free_def
  proof (intro allI impI, elim conjE)
    fix es es' assume "set es \<subseteq> {?e}" "set es' \<subseteq> {?e}" "distinct (map ek es)" "distinct (map ek es')"
      and eq: "fingerprintOf toy_blake3 es = fingerprintOf toy_blake3 es'"
    then have "es \<in> {[], [?e]}" "es' \<in> {[], [?e]}" using distinct_sublists [of _ ?e ?e] by (force simp: distinct_map)+
    then show "ek ` set es = ek ` set es'" using fp eq by auto
  qed
  then show ?thesis using docs_sync_oversized_loops [OF r _ o, of 1000] by (simp add: ex_scoped sa)
qed

end
