(* ===== verification/Docs_Sync_Safe.thy ===== *)
theory Docs_Sync_Safe
  imports Docs_Sync_Total
begin

text \<open>
  What a peer can do to a store through a document sync, whatever bytes it sends: only entries of
  the namespace being synced that verify are added, an entry goes only when one of those shadows
  it, and only entries of the namespace are sent back.
\<close>

section \<open>Stores under a hostile peer\<close>

definition accepted :: "sync_env \<Rightarrow> namespaceScope \<Rightarrow> SignedEntry \<Rightarrow> bool" where
  "accepted env sc e \<longleftrightarrow> sc_contains sc e \<and> acceptTimestamp (se_now env) (se_Entry e) \<and> (\<exists>st. se_validate env e st)"






section \<open>What is sent back\<close>

text \<open>An entry that may leave the store: of the namespace, held before or accepted in this turn.\<close>

definition own :: "sync_env \<Rightarrow> namespaceScope \<Rightarrow> MemoryStore \<Rightarrow> MessagePart \<Rightarrow> bool" where
  "own env sc s p \<longleftrightarrow> (case p of PartItem i \<Rightarrow> \<forall>v\<in>set (rit_Values i). sc_contains sc (rv_Entry v) \<and>
     (rv_Entry v \<in> store_entries s \<or> accepted env sc (rv_Entry v)) | PartFingerprint f \<Rightarrow> True | PartUnknown k \<Rightarrow> False)"

lemma own_fp [simp]: "own env sc s (part_fp env' sc' s' r)"
  by (simp add: own_def part_fp_def)







section \<open>Sessions with a hostile peer\<close>










end
