(* ===== verification/Spec2Isabelle.thy ===== *)
theory Spec2Isabelle
  imports Gossip_Topic_Inv Gossip_Limits Relay_Server_Inv Frame_Sorter_Run Quic_Packet_Number Docs_Sync_Loop Docs_Sync_Safe
begin

text \<open>
  A verification library for go-iroh, a Go implementation of the iroh peer-to-peer stack.

  \<^bold>\<open>The program and what of it is modelled.\<close>  go-iroh connects endpoints that are named by their
  Ed25519 keys, through relay servers when they cannot reach each other directly, and runs protocols on
  top: epidemic broadcast (gossip), replicated documents (docs) and content-addressed blobs.  The
  library covers the protocol cores that are functions of their inputs, from the wire formats
  up to the state machines, and how they compose:

  \<^item> \<open>Go_Prelude\<close>: bytes and machine words, results of fallible calls, Go maps as association lists
    (locale \<open>go_map\<close>), random draws, and the locale \<open>io_machine\<close> of machines with
    \<open>Handle(ev) []out\<close>, which lifts an invariant from a step to all runs.
  \<^item> \<open>Postcard\<close> (\<open>internal/postcard\<close>): varints, zigzag and the codec combinators.  The
    locales \<open>pc_codec\<close>, \<open>pc_codec_ne\<close> and \<open>pc_codec_pair\<close> are the contract of a codec: total on
    well-formed values, decoding inverts encoding, and every accepted input is an encoding.
  \<^item> \<open>Gossip_Wire\<close>, \<open>Gossip_Limits\<close> (\<open>internal/gossipproto/types.go\<close>, \<open>frame.go\<close>): gossip messages,
    their codecs and frames, and how the size limits fit together.
  \<^item> \<open>Hyparview\<close>, \<open>Hyparview_Views\<close> (\<open>hyparview.go\<close>): the membership machine; its views are bounded,
    disjoint and exactly what its events announce.
  \<^item> \<open>Plumtree\<close>, \<open>Plumtree_Inv\<close>, \<open>Plumtree_Delivery\<close> (\<open>plumtree.go\<close>): the broadcast machine; its
    counters, what it delivers, forwards and announces, and that it never delivers twice.
  \<^item> \<open>Gossip_Topic\<close>, \<open>Gossip_Topic_Inv\<close> (\<open>topic.go\<close>, \<open>state.go\<close>): membership and broadcast coupled for a
    topic, and topics routed by one endpoint; broadcasts reach every neighbour and topics stay apart.
  \<^item> \<open>Quic_Varint\<close> (\<open>internal/qng/quicvarint\<close>, \<open>internal/relayproto/varint.go\<close>): both implementations
    of QUIC varints, equal through the locale \<open>varint_reader\<close>.
  \<^item> \<open>Quic_Packet_Number\<close> (\<open>internal/qng/internal/protocol/packet_number.go\<close>, \<open>wire/short_header.go\<close>): packet
    numbers as a packet carries them, and how the receiver restores them.
  \<^item> \<open>Iroh_Key\<close> (\<open>key\<close>): keys, identifiers and signatures over a record of the curve functions.
  \<^item> \<open>Relay_Proto\<close>, \<open>Relay_Messages\<close> (\<open>internal/relayproto\<close>): relay frames, messages and the key cache.
  \<^item> \<open>Relay_Handshake\<close>: the relay handshake, client and server.
  \<^item> \<open>Relay_Server\<close>, \<open>Relay_Server_Inv\<close> (\<open>relayserver/server.go\<close>): sessions, queues, forwarding
    and departure; the locale \<open>session_invariant\<close> lifts a property of a session to the server.
  \<^item> \<open>Frame_Sorter\<close>, \<open>Frame_Sorter_Inv\<close>, \<open>Frame_Sorter_Run\<close> (\<open>internal/qng/frame_sorter.go\<close>,
    \<open>utils/linkedlist\<close>): reassembly of a QUIC stream; gaps and queued frames tile the unread stream.
  \<^item> \<open>Docs_Entry\<close> (\<open>docs/entry.go\<close>, \<open>docs/keys.go\<close>): entries, their orders, signatures and codecs.
  \<^item> \<open>Docs_Store\<close>, \<open>Docs_Store_Inv\<close> (\<open>docs/store.go\<close>, \<open>docs/ranger.go\<close>, \<open>docs/heads.go\<close>): the document
    store and one round of range reconciliation; the store keeps the maximal entries.
  \<^item> \<open>Docs_Split\<close>: the sub-ranges of a split cover the range, do not overlap and shrink.
  \<^item> \<open>Docs_Wire\<close>, \<open>Docs_Sync\<close> (\<open>docs/net.go\<close>, \<open>docs/live.go\<close>): sync frames and both sides of a
    document sync, joined to sessions.
  \<^item> \<open>Docs_Sync_Inv\<close>: the invariant of a session, in which every surviving entry that a side lacks is
    pending in the message under way, so that sessions that end agree.
  \<^item> \<open>Docs_Sync_Total\<close>: how large messages get and how each round makes progress; documents that fit a
    frame are always synced.  \<open>Docs_Sync_Safe\<close>: what a peer can do whatever it sends.
    \<open>Docs_Sync_Loop\<close>: an entry for which a session does not end.

  \<^bold>\<open>How code becomes definitions.\<close>  A struct is a record, a tagged struct a datatype, a handler a
  function from the state to the new state and its outputs, an error a value.  Integers are words of
  their width where the code can wrap, and \<open>int\<close> or \<open>nat\<close> where it checks bounds first.  A critical
  section of a mutex is one function; where goroutines interleave inside an operation the pieces are
  steps of a relation (key cache, relay queues).  Code of other packages is a parameter: blake3, Ed25519
  (\<open>ed25519\<close> with \<open>ed25519_ok\<close>), TLS exporters, random draws, map iteration order, file saving, clocks.
  The instances that show the assumptions can hold are concrete functions in the theories that
  state them.

  \<^bold>\<open>Bounds and fuel.\<close>  Loops are structural recursions or functions with a termination proof.  The only
  fuel is the number of frames in \<open>session_run\<close> and \<open>sync_session\<close>, since a sync need not end
  (\<open>docs_sync_oversized_loops\<close>); for a document that fits one frame, four more than its number of
  entries are enough (\<open>docs_sync_completes\<close>).

  \<^bold>\<open>Not modelled.\<close>  Goroutine plumbing and live I/O (endpoint, magic socket, mdns, network report, port
  mapping, gossip adapter, relay client, live document sync), the TLS fork and the QUIC handshake (their
  content is cryptography), the QUIC connection beyond the frame sorter, varints and packet numbers, congestion control
  (floating point), DNS and pkarr packets (third-party packages), the bao hash trees of blobs
  (third-party package), tickets and text forms of keys, the relay server's rate limiter (floating
  point), logs, metrics, commands and test support.
\<close>

end
